(* ===== verification/TracePrelude.thy ===== *)
theory TracePrelude
  imports Main "HOL-Library.AList" "HOL-Library.Multiset"
begin

text \<open>
  The vocabulary every component shares: error values, commands that read and write a state and
  may fail, the Postgres session the store talks to (a script of statement outcomes, the clock and
  the supply of generated ids), transactions, and the rules that lift a table invariant from single
  statements to whole operations.  The generic lemmas on lists and association lists the component
  theories use are here too.
\<close>

section \<open>Collections of the development\<close>

named_theorems keeps_intros \<open>rules that reduce invariance of a command to its parts\<close>
named_theorems cmd_defs \<open>definitions of the command combinators\<close>

section \<open>Errors and commands\<close>

text \<open>
  A Go function returning \<open>(T, error)\<close> and working on shared state is a command: from a state to
  a result (\<open>Inl\<close> an error, \<open>Inr\<close> a value) and the new state.  The named errors are the sentinel
  errors of the packages; \<open>ErrWrap\<close> is \<open>fmt.Errorf\<close> with \<open>%w\<close>.
\<close>

datatype err =
    ErrDB                       \<comment> \<open>the statement or the connection failed\<close>
  | ErrConflict                 \<comment> \<open>a uniqueness or check constraint was violated\<close>
  | ErrNotFound
  | ErrInvalidFilter
  | ErrNothingToAnchor
  | ErrProviderDisabled
  | ErrNotImplemented
  | ErrLocked
  | ErrCoARequired
  | ErrComplianceGateUnavailable
  | ErrContext                  \<comment> \<open>a cancelled or expired context\<close>
  | ErrMsg string
  | ErrWrap string err

type_synonym ('s, 'a) cmd = "'s \<Rightarrow> (err + 'a) \<times> 's"

definition retC :: "'a \<Rightarrow> ('s, 'a) cmd" where
  [cmd_defs]: "retC a = (\<lambda>s. (Inr a, s))"

definition failC :: "err \<Rightarrow> ('s, 'a) cmd" where
  [cmd_defs]: "failC e = (\<lambda>s. (Inl e, s))"

text \<open>\<open>handleC m f g\<close> is a call followed by \<open>if err != nil { f } else { g }\<close>.\<close>

definition handleC :: "('s, 'a) cmd \<Rightarrow> (err \<Rightarrow> ('s, 'b) cmd) \<Rightarrow> ('a \<Rightarrow> ('s, 'b) cmd) \<Rightarrow> ('s, 'b) cmd" where
  [cmd_defs]: "handleC m f g = (\<lambda>s. case m s of (Inl e, s') \<Rightarrow> f e s' | (Inr a, s') \<Rightarrow> g a s')"

definition bindC :: "('s, 'a) cmd \<Rightarrow> ('a \<Rightarrow> ('s, 'b) cmd) \<Rightarrow> ('s, 'b) cmd" where
  [cmd_defs]: "bindC m g = handleC m failC g"

text \<open>\<open>_ = f()\<close>: the error is dropped.\<close>

definition ignoreC :: "('s, 'a) cmd \<Rightarrow> ('s, unit) cmd" where
  [cmd_defs]: "ignoreC m = handleC m (\<lambda>_. retC ()) (\<lambda>_. retC ())"

definition getC :: "('s \<Rightarrow> 'a) \<Rightarrow> ('s, 'a) cmd" where
  [cmd_defs]: "getC f = (\<lambda>s. (Inr (f s), s))"

definition modifyC :: "('s \<Rightarrow> 's) \<Rightarrow> ('s, unit) cmd" where
  [cmd_defs]: "modifyC f = (\<lambda>s. (Inr (), f s))"

text \<open>The result of a pure function that may fail.\<close>

definition liftC :: "err + 'a \<Rightarrow> ('s, 'a) cmd" where
  [cmd_defs]: "liftC r = (case r of Inl e \<Rightarrow> failC e | Inr a \<Rightarrow> retC a)"

text \<open>A \<open>for\<close> loop over a slice whose body may return an error.\<close>

fun forC :: "'a list \<Rightarrow> ('a \<Rightarrow> ('s, unit) cmd) \<Rightarrow> ('s, unit) cmd" where
  "forC [] f = retC ()"
| "forC (x # xs) f = bindC (f x) (\<lambda>_. forC xs f)"

section \<open>The Postgres session\<close>

text \<open>
  Each statement takes the next entry of the script: it succeeds (\<open>IoOk\<close>), fails without effect
  (\<open>IoErr\<close>), or takes effect while the caller sees an error because the acknowledgement was lost
  (\<open>IoLost\<close>); with it comes the time that passes, in microseconds.  An empty script is a healthy
  database.  Nothing is assumed about scripts: theorems hold for all of them.
\<close>

datatype io = IoOk | IoErr | IoLost

record pg =
  script :: "(io \<times> nat) list"
  now_us :: int          \<comment> \<open>\<open>now()\<close>, microseconds since the Unix epoch\<close>
  fresh_id :: nat        \<comment> \<open>supply of \<open>gen_random_uuid()\<close> and of serial columns\<close>

definition next_io :: "'z pg_scheme \<Rightarrow> io" where
  "next_io s = (case script s of [] \<Rightarrow> IoOk | f # _ \<Rightarrow> fst f)"

definition step_io :: "'z pg_scheme \<Rightarrow> 'z pg_scheme" where
  "step_io s = (case script s of [] \<Rightarrow> s
                | f # fs \<Rightarrow> s\<lparr>script := fs, now_us := now_us s + int (snd f)\<rparr>)"

text \<open>A \<open>SELECT\<close>.\<close>

definition queryC :: "('z pg_scheme \<Rightarrow> 'a) \<Rightarrow> ('z pg_scheme, 'a) cmd" where
  "queryC f = (\<lambda>s. if next_io s = IoOk then (Inr (f (step_io s)), step_io s)
                   else (Inl ErrDB, step_io s))"

text \<open>
  A data-changing statement run on its own.  The statement itself may be refused by a constraint
  (\<open>Inl\<close>), and then changes nothing.
\<close>

definition execC :: "('z pg_scheme \<Rightarrow> err + ('a \<times> 'z pg_scheme)) \<Rightarrow> ('z pg_scheme, 'a) cmd" where
  "execC f = (\<lambda>s. let s1 = step_io s in
     case next_io s of
       IoErr \<Rightarrow> (Inl ErrDB, s1)
     | IoOk \<Rightarrow> (case f s1 of Inl e \<Rightarrow> (Inl e, s1) | Inr (a, s2) \<Rightarrow> (Inr a, s2))
     | IoLost \<Rightarrow> (case f s1 of Inl e \<Rightarrow> (Inl ErrDB, s1) | Inr (a, s2) \<Rightarrow> (Inl ErrDB, s2)))"

text \<open>
  \<open>pool.Begin\<close>, the body, \<open>tx.Commit\<close>, with \<open>defer tx.Rollback\<close>: an error of the body or a failed
  commit undoes every table change; a lost commit acknowledgement keeps them and reports an error.
\<close>

definition rollback :: "'z pg_scheme \<Rightarrow> 'z pg_scheme \<Rightarrow> 'z pg_scheme" where
  "rollback s0 s1 = s0\<lparr>script := script s1, now_us := now_us s1, fresh_id := fresh_id s1\<rparr>"

definition txC :: "('z pg_scheme, 'a) cmd \<Rightarrow> ('z pg_scheme, 'a) cmd" where
  "txC body = (\<lambda>s. let s0 = step_io s in
     if next_io s \<noteq> IoOk then (Inl ErrDB, s0)
     else case body s0 of
       (Inl e, s1) \<Rightarrow> (Inl e, rollback s0 s1)
     | (Inr a, s1) \<Rightarrow> (case next_io s1 of
           IoOk \<Rightarrow> (Inr a, step_io s1)
         | IoErr \<Rightarrow> (Inl ErrDB, rollback s0 (step_io s1))
         | IoLost \<Rightarrow> (Inl ErrDB, step_io s1)))"

section \<open>Invariants of commands\<close>

definition keeps :: "('s \<Rightarrow> bool) \<Rightarrow> ('s, 'a) cmd \<Rightarrow> bool" where
  "keeps P m \<longleftrightarrow> (\<forall>s. P s \<longrightarrow> P (snd (m s)))"

text \<open>
  A predicate on the tables only: it does not look at the script or the clock, and it survives
  ids being used up (a rolled-back transaction consumes the ids it drew).
\<close>

definition tables_only :: "('z pg_scheme \<Rightarrow> bool) \<Rightarrow> bool" where
  "tables_only P \<longleftrightarrow>
     (\<forall>s sc t n. fresh_id s \<le> n \<longrightarrow> P s \<longrightarrow> P (s\<lparr>script := sc, now_us := t, fresh_id := n\<rparr>))"

definition draws_ids :: "('z pg_scheme, 'a) cmd \<Rightarrow> bool" where
  "draws_ids m \<longleftrightarrow> (\<forall>s. fresh_id s \<le> fresh_id (snd (m s)))"

lemma keepsD: "keeps P m \<Longrightarrow> P s \<Longrightarrow> P (snd (m s))"
  by (simp add: keeps_def)

lemma keepsI: "(\<And>s. P s \<Longrightarrow> P (snd (m s))) \<Longrightarrow> keeps P m"
  by (simp add: keeps_def)

lemma step_io_simps [simp]:
  "fresh_id (step_io s) = fresh_id s" "pg.more (step_io s) = pg.more s"
  by (simp_all add: step_io_def split: list.split)

lemma tables_only_step_io: "tables_only P \<Longrightarrow> P s \<Longrightarrow> P (step_io s)"
proof -
  assume "tables_only P" "P s"
  then have "P (s\<lparr>script := sc, now_us := t, fresh_id := fresh_id s\<rparr>)" for sc t
    unfolding tables_only_def by blast
  moreover have "\<exists>sc t. step_io s = s\<lparr>script := sc, now_us := t, fresh_id := fresh_id s\<rparr>"
    by (rule exI [of _ "script (step_io s)"], rule exI [of _ "now_us (step_io s)"])
       (simp add: step_io_def split: list.split)
  ultimately show "P (step_io s)" by auto
qed

lemma tables_only_rollback:
  "tables_only P \<Longrightarrow> P s0 \<Longrightarrow> fresh_id s0 \<le> fresh_id s1 \<Longrightarrow> P (rollback s0 s1)"
  by (simp add: tables_only_def rollback_def)

lemma keeps_retC [keeps_intros]: "keeps P (retC a)"
  by (simp add: keeps_def retC_def)

lemma keeps_failC [keeps_intros]: "keeps P (failC e)"
  by (simp add: keeps_def failC_def)

lemma keeps_getC [keeps_intros]: "keeps P (getC f)"
  by (simp add: keeps_def getC_def)

lemma keeps_handleC [keeps_intros]:
  "keeps P m \<Longrightarrow> (\<And>e. keeps P (f e)) \<Longrightarrow> (\<And>a. keeps P (g a)) \<Longrightarrow> keeps P (handleC m f g)"
  by (fastforce simp: keeps_def handleC_def split: prod.split sum.split)

lemma keeps_bindC [keeps_intros]:
  "keeps P m \<Longrightarrow> (\<And>a. keeps P (g a)) \<Longrightarrow> keeps P (bindC m g)"
  unfolding bindC_def by (intro keeps_intros)

text \<open>A rule for a sequence that looks at what the first part gave.\<close>

lemma keeps_bindC_result:
  assumes "keeps P m" and "\<And>s a s'. m s = (Inr a, s') \<Longrightarrow> keeps P (f a)"
  shows "keeps P (bindC m f)"
proof (rule keepsI)
  fix s assume "P s"
  with assms(1) have "P (snd (m s))" by (rule keepsD)
  moreover obtain r s' where m: "m s = (r, s')" by (meson surj_pair)
  ultimately show "P (snd (bindC m f s))"
    using keepsD [OF assms(2), of s _ s' s'] by (cases r) (auto simp: bindC_def handleC_def failC_def)
qed

lemma keeps_case_list [keeps_intros]:
  "keeps P m \<Longrightarrow> (\<And>x xs. keeps P (f x xs)) \<Longrightarrow> keeps P (case v of [] \<Rightarrow> m | x # xs \<Rightarrow> f x xs)"
  by (cases v) simp_all

lemma keeps_ignoreC [keeps_intros]: "keeps P m \<Longrightarrow> keeps P (ignoreC m)"
  unfolding ignoreC_def by (intro keeps_intros)

lemma keeps_if [keeps_intros]:
  "(b \<Longrightarrow> keeps P m) \<Longrightarrow> (\<not> b \<Longrightarrow> keeps P n) \<Longrightarrow> keeps P (if b then m else n)"
  by simp

lemma keeps_case_option [keeps_intros]:
  "keeps P m \<Longrightarrow> (\<And>x. keeps P (f x)) \<Longrightarrow> keeps P (case v of None \<Rightarrow> m | Some x \<Rightarrow> f x)"
  by (cases v) simp_all

lemma keeps_case_sum [keeps_intros]:
  "(\<And>e. keeps P (f e)) \<Longrightarrow> (\<And>x. keeps P (g x)) \<Longrightarrow> keeps P (case v of Inl e \<Rightarrow> f e | Inr x \<Rightarrow> g x)"
  by (cases v) simp_all

lemma keeps_liftC [keeps_intros]: "keeps P (liftC r)"
  unfolding liftC_def by (intro keeps_intros)

lemma keeps_case_prod [keeps_intros]:
  "(\<And>x y. keeps P (f x y)) \<Longrightarrow> keeps P (case p of (x, y) \<Rightarrow> f x y)"
  by (cases p) simp

lemma keeps_forC [keeps_intros]:
  "(\<And>x. x \<in> set xs \<Longrightarrow> keeps P (f x)) \<Longrightarrow> keeps P (forC xs f)"
  by (induction xs) (auto intro!: keeps_intros)

lemma keeps_queryC [keeps_intros]: "tables_only P \<Longrightarrow> keeps P (queryC f)"
  by (auto simp: keeps_def queryC_def tables_only_step_io)

lemma keeps_execC:
  assumes "tables_only P"
    and "\<And>s a s'. P s \<Longrightarrow> f s = Inr (a, s') \<Longrightarrow> P s'"
  shows "keeps P (execC f)"
proof (rule keepsI)
  fix s assume "P s"
  with assms(1) have s1: "P (step_io s)" by (rule tables_only_step_io)
  show "P (snd (execC f s))"
    using s1 assms(2) [OF s1]
    by (auto simp: execC_def Let_def split: io.split sum.split prod.split)
qed

lemma keeps_txC:
  assumes "tables_only P" and "keeps P body" and "draws_ids body"
  shows "keeps P (txC body)"
proof (rule keepsI)
  fix s assume "P s"
  with assms(1) have s0: "P (step_io s)" by (rule tables_only_step_io)
  obtain r s1 where b: "body (step_io s) = (r, s1)" by (cases "body (step_io s)")
  from keepsD [OF assms(2) s0] b have s1: "P s1" by simp
  from assms(3) b have le: "fresh_id (step_io s) \<le> fresh_id s1"
    unfolding draws_ids_def by (metis snd_conv)
  then have "P (rollback (step_io s) (step_io s1))" "P (rollback (step_io s) s1)"
    using tables_only_rollback [OF assms(1) s0] by simp_all
  with s0 s1 tables_only_step_io [OF assms(1) s1] b show "P (snd (txC body s))"
    by (auto simp: txC_def Let_def split: io.split sum.split)
qed

text \<open>Commands never give ids back.\<close>

lemma draws_retC [keeps_intros]: "draws_ids (retC a)"
  by (simp add: draws_ids_def retC_def)

lemma draws_failC [keeps_intros]: "draws_ids (failC e)"
  by (simp add: draws_ids_def failC_def)

lemma draws_queryC [keeps_intros]: "draws_ids (queryC f)"
  by (simp add: draws_ids_def queryC_def)

lemma draws_handleC [keeps_intros]:
  assumes "draws_ids m" and "\<And>e. draws_ids (f e)" and "\<And>a. draws_ids (g a)"
  shows "draws_ids (handleC m f g)"
  unfolding draws_ids_def
proof
  fix s
  obtain r s1 where m: "m s = (r, s1)" by (cases "m s")
  with assms(1) have "fresh_id s \<le> fresh_id s1"
    unfolding draws_ids_def by (metis snd_conv)
  with assms(2,3) m show "fresh_id s \<le> fresh_id (snd (handleC m f g s))"
    by (cases r) (auto simp: handleC_def draws_ids_def intro: order_trans)
qed

lemma draws_bindC [keeps_intros]:
  "draws_ids m \<Longrightarrow> (\<And>a. draws_ids (g a)) \<Longrightarrow> draws_ids (bindC m g)"
  unfolding bindC_def by (intro keeps_intros)

lemma draws_if [keeps_intros]:
  "draws_ids m \<Longrightarrow> draws_ids n \<Longrightarrow> draws_ids (if b then m else n)"
  by simp

lemma draws_forC [keeps_intros]: "(\<And>x. draws_ids (f x)) \<Longrightarrow> draws_ids (forC xs f)"
  by (induction xs) (auto intro!: keeps_intros)

lemma draws_execC:
  "(\<And>s a s'. f s = Inr (a, s') \<Longrightarrow> fresh_id s \<le> fresh_id s') \<Longrightarrow> draws_ids (execC f)"
  unfolding draws_ids_def execC_def Let_def
  by (auto split: io.split sum.split prod.split) (metis step_io_simps(1))+

text \<open>The result of a sequence of two calls, by cases on the first.\<close>

lemma bindC_Inr_iff:
  "bindC m g s = (Inr b, s') \<longleftrightarrow> (\<exists>a s1. m s = (Inr a, s1) \<and> g a s1 = (Inr b, s'))"
  by (auto simp: bindC_def handleC_def failC_def split: prod.splits sum.splits)

lemma bindC_Inl_iff:
  "bindC m g s = (Inl e, s') \<longleftrightarrow>
     m s = (Inl e, s') \<or> (\<exists>a s1. m s = (Inr a, s1) \<and> g a s1 = (Inl e, s'))"
  by (auto simp: bindC_def handleC_def failC_def split: prod.splits sum.splits)

text \<open>A transaction that reports success has run its body to the end and committed it.\<close>

lemma txC_Inr_iff:
  "txC body s = (Inr a, s') \<longleftrightarrow>
     next_io s = IoOk \<and>
     (\<exists>s1. body (step_io s) = (Inr a, s1) \<and> next_io s1 = IoOk \<and> s' = step_io s1)"
  by (auto simp: txC_def Let_def split: prod.splits sum.splits io.splits)

lemma queryC_Inr_iff:
  "queryC f s = (Inr a, s') \<longleftrightarrow> next_io s = IoOk \<and> a = f (step_io s) \<and> s' = step_io s"
  by (auto simp: queryC_def)

lemma execC_Inr_iff:
  "execC f s = (Inr a, s') \<longleftrightarrow> next_io s = IoOk \<and> f (step_io s) = Inr (a, s')"
  by (auto simp: execC_def Let_def split: io.split sum.split)

section \<open>States with the same tables\<close>

text \<open>\<open>ticks s s'\<close>: only the script, the clock and the id supply have moved.\<close>

definition ticks :: "'z pg_scheme \<Rightarrow> 'z pg_scheme \<Rightarrow> bool" where
  "ticks s s' \<longleftrightarrow> fresh_id s \<le> fresh_id s' \<and>
     s' = s\<lparr>script := script s', now_us := now_us s', fresh_id := fresh_id s'\<rparr>"

lemma ticks_refl [simp]: "ticks s s"
  by (simp add: ticks_def)

lemma ticks_trans: "ticks s t \<Longrightarrow> ticks t u \<Longrightarrow> ticks s u"
  unfolding ticks_def
  by (cases s, cases t, cases u) simp

lemma ticks_step_io [simp]: "ticks s (step_io s)"
  by (cases s) (simp add: ticks_def step_io_def split: list.split)

lemma ticks_rollback: "fresh_id s \<le> fresh_id s1 \<Longrightarrow> ticks s (rollback s s1)"
  by (simp add: ticks_def rollback_def)

lemma tables_only_ticks: "tables_only P \<Longrightarrow> ticks s s' \<Longrightarrow> P s \<Longrightarrow> P s'"
  unfolding tables_only_def ticks_def by metis

lemma tables_only_ticks_from: "tables_only (ticks s)"
  unfolding tables_only_def
proof (intro allI impI)
  fix t sc u n assume "fresh_id t \<le> n" "ticks s t"
  moreover from this(1) have "ticks t (t\<lparr>script := sc, now_us := u, fresh_id := n\<rparr>)"
    by (simp add: ticks_def)
  ultimately show "ticks s (t\<lparr>script := sc, now_us := u, fresh_id := n\<rparr>)"
    by (blast intro: ticks_trans)
qed

lemma queryC_ticks: "ticks s (snd (queryC f s))"
  by (simp add: queryC_def)

text \<open>A transaction leaves the tables alone or has the whole effect of its body.\<close>

lemma txC_effect:
  assumes "draws_ids body"
  obtains (none) e where "fst (txC body s) = Inl e" "ticks s (snd (txC body s))"
  | (all) a s1 where "body (step_io s) = (Inr a, s1)" "snd (txC body s) = step_io s1"
      "fst (txC body s) = Inr a \<or> fst (txC body s) = Inl ErrDB"
proof -
  obtain r s1 where b: "body (step_io s) = (r, s1)" by (cases "body (step_io s)")
  from assms b have le: "fresh_id (step_io s) \<le> fresh_id s1"
    unfolding draws_ids_def by (metis snd_conv)
  then have rb: "ticks s (rollback (step_io s) s1)" "ticks s (rollback (step_io s) (step_io s1))"
    by (simp_all add: ticks_trans [OF ticks_step_io ticks_rollback])
  show thesis
  proof (cases "next_io s = IoOk")
    case False
    then show ?thesis by (intro none [of ErrDB]) (auto simp: txC_def Let_def)
  next
    case True
    show ?thesis
    proof (cases r)
      case (Inl e)
      with True b rb show ?thesis by (intro none [of e]) (auto simp: txC_def Let_def)
    next
      case (Inr a)
      show ?thesis
      proof (cases "next_io s1 = IoErr")
        case True
        with \<open>next_io s = IoOk\<close> Inr b rb show ?thesis
          by (intro none [of ErrDB]) (auto simp: txC_def Let_def)
      next
        case False
        with \<open>next_io s = IoOk\<close> Inr b show ?thesis
          by (intro all [of a s1]) (auto simp: txC_def Let_def split: io.split)
      qed
    qed
  qed
qed

text \<open>A healthy database: no failure is scripted.\<close>

lemma healthy_io [simp]: "script s = [] \<Longrightarrow> next_io s = IoOk" "script s = [] \<Longrightarrow> step_io s = s"
  by (simp_all add: next_io_def step_io_def)

lemma healthy_queryC: "script s = [] \<Longrightarrow> queryC f s = (Inr (f s), s)"
  by (simp add: queryC_def)

lemma healthy_execC:
  "script s = [] \<Longrightarrow> execC f s = (case f s of Inl e \<Rightarrow> (Inl e, s) | Inr (a, s') \<Rightarrow> (Inr a, s'))"
  by (simp add: execC_def Let_def split: sum.split)

lemma healthy_txC:
  "script s = [] \<Longrightarrow> body s = (Inr a, s1) \<Longrightarrow> script s1 = [] \<Longrightarrow> txC body s = (Inr a, s1)"
  by (simp add: txC_def Let_def)

lemmas healthy = healthy_queryC healthy_execC healthy_txC

text \<open>A transaction that returns before \<open>Commit\<close> (its body says \<open>False\<close>) is rolled back.\<close>

definition tx_earlyC :: "('z pg_scheme, bool \<times> 'a) cmd \<Rightarrow> ('z pg_scheme, 'a) cmd" where
  "tx_earlyC body = (\<lambda>s. let s0 = step_io s in
     if next_io s \<noteq> IoOk then (Inl ErrDB, s0)
     else case body s0 of
       (Inr (False, a), s1) \<Rightarrow> (Inr a, rollback s0 s1)
     | _ \<Rightarrow> txC (bindC body (\<lambda>(_, a). retC a)) s)"

lemma tx_earlyC_effect:
  assumes "draws_ids body"
  obtains (same) "ticks s (snd (tx_earlyC body s))"
      "\<And>a. fst (tx_earlyC body s) = Inr a \<Longrightarrow> \<exists>s1. body (step_io s) = (Inr (False, a), s1)"
  | (whole) c a s1 where "body (step_io s) = (Inr (c, a), s1)" "c" "snd (tx_earlyC body s) = step_io s1"
      "fst (tx_earlyC body s) = Inr a \<or> fst (tx_earlyC body s) = Inl ErrDB"
proof -
  let ?b = "bindC body (\<lambda>(_, a). retC a)"
  have d: "draws_ids ?b"
    by (rule draws_bindC [OF assms]) (simp add: draws_retC case_prod_beta)
  show thesis
  proof (cases "next_io s = IoOk \<and> (\<exists>a s1. body (step_io s) = (Inr (False, a), s1))")
    case True
    then obtain a s1 where t: "next_io s = IoOk" "body (step_io s) = (Inr (False, a), s1)" by blast
    with assms have "fresh_id (step_io s) \<le> fresh_id s1" unfolding draws_ids_def by (metis snd_conv)
    with t show ?thesis
      by (intro same) (auto simp: tx_earlyC_def Let_def intro: ticks_trans [OF ticks_step_io ticks_rollback])
  next
    case False
    then have eq: "tx_earlyC body s = txC ?b s"
      by (auto simp: tx_earlyC_def Let_def txC_def split: prod.split sum.split bool.split)
    show ?thesis
    proof (cases rule: txC_effect [OF d, of s, case_names none all])
      case (none e)
      with eq show ?thesis by (intro same) auto
    next
      case (all a s1)
      from all(1) obtain c where b: "body (step_io s) = (Inr (c, a), s1)"
        by (auto simp: bindC_Inr_iff retC_def)
      show ?thesis
      proof (cases c)
        case True
        with b all eq show ?thesis by (intro whole [of c a s1]) auto
      next
        case c: False
        with b False have "next_io s \<noteq> IoOk" by auto
        then show ?thesis by (intro same) (auto simp: tx_earlyC_def Let_def)
      qed
    qed
  qed
qed

section \<open>Generic lemmas on lists\<close>

lemma map_update_same: "(\<And>r. f (g r) = f r) \<Longrightarrow> map f (map (\<lambda>r. if Q r then g r else r) xs) = map f xs"
  by simp

lemma sort_key_id: "sorted (map f xs) \<Longrightarrow> sort_key f xs = xs"
  by (rule sort_key_id_if_sorted)

lemma map_of_filter_eq: "map_of (filter (\<lambda>(k, v). P k) m) k = (if P k then map_of m k else None)"
  by (induction m) auto

lemma find_append: "find P (xs @ ys) = (case find P xs of None \<Rightarrow> find P ys | Some x \<Rightarrow> Some x)"
  by (induction xs) auto

lemma find_Some_set: "find P xs = Some x \<Longrightarrow> x \<in> set xs \<and> P x"
  by (induction xs) (auto split: if_splits)

lemma find_None_set: "find P xs = None \<longleftrightarrow> (\<forall>x \<in> set xs. \<not> P x)"
  by (induction xs) auto

text \<open>\<open>ORDER BY ... LIMIT n\<close>: what is cut off is no earlier in the order than what is kept.\<close>

lemma limit_keeps_least:
  fixes f :: "'a \<Rightarrow> 'k::linorder"
  assumes "x \<in> set xs" and "x \<notin> set (take n (sort_key f xs))"
  shows "length (take n (sort_key f xs)) = n" and "\<forall>y \<in> set (take n (sort_key f xs)). f y \<le> f x"
proof -
  let ?ys = "sort_key f xs"
  from assms(1) have "x \<in> set (take n ?ys @ drop n ?ys)" by simp
  with assms(2) have d: "x \<in> set (drop n ?ys)" by (metis Un_iff set_append)
  then show "length (take n ?ys) = n" by (cases "n \<le> length xs") auto
  have "sorted (map f (take n ?ys @ drop n ?ys))" by simp
  then have "sorted (map f (take n ?ys) @ map f (drop n ?ys))" by (simp only: map_append)
  with d show "\<forall>y \<in> set (take n ?ys). f y \<le> f x" by (auto simp: sorted_append)
qed

text \<open>\<open>UPDATE ... WHERE k = i\<close>: the keys of the rows with a property \<open>P\<close> the update sets or leaves alone.\<close>

lemma update_where:
  assumes "\<And>r. k (f r) = k r"
  shows "(\<And>r. P (f r)) \<Longrightarrow> k ` {r \<in> set (map (\<lambda>r. if k r = i then f r else r) rows). P r} =
      k ` {r \<in> set rows. P r} \<union> ({i} \<inter> k ` set rows)"
    and "(\<And>r. P (f r) = P r) \<Longrightarrow> k ` {r \<in> set (map (\<lambda>r. if k r = i then f r else r) rows). P r} =
      k ` {r \<in> set rows. P r}"
proof -
  have image: "k ` {r \<in> set (map g rows). P r} = {k (g r) |r. r \<in> set rows \<and> P (g r)}" for g
    by auto
  have id: "k (if b then f r else r) = k r" for b r using assms by simp
  show "k ` {r \<in> set (map (\<lambda>r. if k r = i then f r else r) rows). P r} =
      k ` {r \<in> set rows. P r} \<union> ({i} \<inter> k ` set rows)" if "\<And>r. P (f r)"
    unfolding image id using that by auto
  show "k ` {r \<in> set (map (\<lambda>r. if k r = i then f r else r) rows). P r} = k ` {r \<in> set rows. P r}"
    if "\<And>r. P (f r) = P r"
    unfolding image id using that by auto
qed

lemma sorted_take_sort_key: "sorted (map f (take n (sort_key f xs)))"
  by (metis sorted_sort_key sorted_wrt_take take_map)

end
