(* ===== verification/GoLib.thy ===== *)
theory GoLib
  imports Complex_Main TracePrelude
begin

text \<open>
  The parts of Go's standard library the service calls, as executable functions.  A Go string and
  a byte slice are both a \<open>string\<close> here, one \<open>char\<close> per byte.
  Case mapping and white space follow Go's Unicode rules as far as the service can tell them
  apart: white space is the full Unicode set in its UTF-8 encoding, and lower-casing maps ASCII
  letters and the two non-ASCII code points whose lower case is ASCII (U+0130 and U+212A); other
  letters are left alone, which no comparison with an ASCII constant can see.
\<close>

section \<open>Bytes, numerals, hexadecimal\<close>

abbreviation byte :: "nat \<Rightarrow> char" where
  "byte n \<equiv> char_of n"

definition digit_char :: "nat \<Rightarrow> char" where
  "digit_char d = byte (48 + d)"

fun nat_str :: "nat \<Rightarrow> string" where
  "nat_str n = (if n < 10 then [digit_char n] else nat_str (n div 10) @ [digit_char (n mod 10)])"

declare nat_str.simps [simp del]

text \<open>\<open>fmt.Sprintf("%d", i)\<close> and \<open>strconv.Itoa\<close>.\<close>

definition int_str :: "int \<Rightarrow> string" where
  "int_str i = (if i < 0 then ''-'' @ nat_str (nat (- i)) else nat_str (nat i))"

definition hex_char :: "nat \<Rightarrow> char" where
  "hex_char n = (if n < 10 then byte (48 + n) else byte (87 + n))"

definition unhex_char :: "char \<Rightarrow> nat option" where
  "unhex_char c = (let n = of_char c :: nat in
     if 48 \<le> n \<and> n \<le> 57 then Some (n - 48)
     else if 97 \<le> n \<and> n \<le> 102 then Some (n - 87)
     else if 65 \<le> n \<and> n \<le> 70 then Some (n - 55)
     else None)"

text \<open>\<open>hex.EncodeToString\<close> and \<open>hex.DecodeString\<close> (\<open>None\<close> is the error).\<close>

fun hex_encode :: "string \<Rightarrow> string" where
  "hex_encode [] = []"
| "hex_encode (c # cs) =
     hex_char (of_char c div 16) # hex_char (of_char c mod 16) # hex_encode cs"

fun hex_decode :: "string \<Rightarrow> string option" where
  "hex_decode [] = Some []"
| "hex_decode [c] = None"
| "hex_decode (a # b # cs) =
     (case (unhex_char a, unhex_char b, hex_decode cs) of
        (Some x, Some y, Some r) \<Rightarrow> Some (byte (16 * x + y) # r)
      | _ \<Rightarrow> None)"

text \<open>\<open>uuid.UUID.String\<close>: 32 hexadecimal digits in groups of 8, 4, 4, 4 and 12.\<close>

type_synonym uuid = nat

fun hex_nat :: "nat \<Rightarrow> nat \<Rightarrow> string" where
  "hex_nat 0 n = []"
| "hex_nat (Suc k) n = hex_nat k (n div 16) @ [hex_char (n mod 16)]"

definition uuid_string :: "uuid \<Rightarrow> string" where
  "uuid_string u = (let h = hex_nat 32 u in
     take 8 h @ ''-'' @ take 4 (drop 8 h) @ ''-'' @ take 4 (drop 12 h) @ ''-'' @
     take 4 (drop 16 h) @ ''-'' @ drop 20 h)"

definition uuid_Nil :: uuid where
  "uuid_Nil = 0"

text \<open>\<open>strconv.Atoi\<close> and \<open>strconv.ParseInt(s, 10, 64)\<close>: an optional sign, decimal digits, int64 range.\<close>

definition is_digit :: "char \<Rightarrow> bool" where
  "is_digit c \<longleftrightarrow> 48 \<le> (of_char c :: nat) \<and> (of_char c :: nat) \<le> 57"

definition digits_val :: "string \<Rightarrow> int" where
  "digits_val ds = foldl (\<lambda>n c. 10 * n + (of_char c - 48)) 0 ds"

definition Atoi :: "string \<Rightarrow> int option" where
  "Atoi s = (let (neg, ds) = (case s of [] \<Rightarrow> (False, [])
                              | c # cs \<Rightarrow> if c = CHR ''-'' then (True, cs)
                                          else if c = CHR ''+'' then (False, cs) else (False, s));
                 v = (if neg then - digits_val ds else digits_val ds)
             in if ds \<noteq> [] \<and> list_all is_digit ds \<and> - (2 ^ 63) \<le> v \<and> v < 2 ^ 63
                then Some v else None)"

section \<open>Strings\<close>

definition HasPrefix :: "string \<Rightarrow> string \<Rightarrow> bool" where
  "HasPrefix s p \<longleftrightarrow> take (length p) s = p"

definition HasSuffix :: "string \<Rightarrow> string \<Rightarrow> bool" where
  "HasSuffix s p \<longleftrightarrow> length p \<le> length s \<and> drop (length s - length p) s = p"

fun Contains :: "string \<Rightarrow> string \<Rightarrow> bool" where
  "Contains [] p = (p = [])"
| "Contains (c # cs) p = (HasPrefix (c # cs) p \<or> Contains cs p)"

definition TrimPrefix :: "string \<Rightarrow> string \<Rightarrow> string" where
  "TrimPrefix s p = (if HasPrefix s p then drop (length p) s else s)"

definition TrimSuffix :: "string \<Rightarrow> string \<Rightarrow> string" where
  "TrimSuffix s p = (if HasSuffix s p then take (length s - length p) s else s)"

text \<open>\<open>strings.TrimRight(s, "c")\<close> with a one-byte cutset.\<close>

definition TrimRight :: "string \<Rightarrow> char \<Rightarrow> string" where
  "TrimRight s c = rev (dropWhile (\<lambda>x. x = c) (rev s))"

text \<open>\<open>strings.Split(s, ",")\<close> for a one-byte separator: never the empty slice.\<close>

fun Split :: "string \<Rightarrow> char \<Rightarrow> string list" where
  "Split [] sep = [[]]"
| "Split (c # cs) sep =
     (if c = sep then [] # Split cs sep
      else case Split cs sep of [] \<Rightarrow> [[c]] | p # ps \<Rightarrow> (c # p) # ps)"

text \<open>White space as UTF-8 sequences (\<open>unicode.IsSpace\<close>).\<close>

definition space_runes :: "string list" where
  "space_runes =
     map (\<lambda>n. [byte n]) [9, 10, 11, 12, 13, 32] @
     [[byte 0xC2, byte 0x85], [byte 0xC2, byte 0xA0], [byte 0xE1, byte 0x9A, byte 0x80]] @
     map (\<lambda>n. [byte 0xE2, byte 0x80, byte n]) ([0x80..<0x8B] @ [0xA8, 0xA9, 0xAF]) @
     [[byte 0xE2, byte 0x81, byte 0x9F], [byte 0xE3, byte 0x80, byte 0x80]]"

definition leading_space :: "string \<Rightarrow> nat" where
  "leading_space s = (case find (\<lambda>w. HasPrefix s w) space_runes of None \<Rightarrow> 0 | Some w \<Rightarrow> length w)"

definition trailing_space :: "string \<Rightarrow> nat" where
  "trailing_space s = (case find (\<lambda>w. HasSuffix s w) space_runes of None \<Rightarrow> 0 | Some w \<Rightarrow> length w)"

function trim_left :: "string \<Rightarrow> string" where
  "trim_left s = (if s = [] \<or> leading_space s = 0 then s else trim_left (drop (leading_space s) s))"
  by pat_completeness auto
termination
  by (relation "measure length") auto

function trim_right :: "string \<Rightarrow> string" where
  "trim_right s = (if s = [] \<or> trailing_space s = 0 then s
                   else trim_right (take (length s - trailing_space s) s))"
  by pat_completeness auto
termination
  by (relation "measure length") auto

declare trim_left.simps [simp del] trim_right.simps [simp del]

definition TrimSpace :: "string \<Rightarrow> string" where
  "TrimSpace s = trim_right (trim_left s)"

definition lower_ascii :: "char \<Rightarrow> char" where
  "lower_ascii c = (let n = of_char c :: nat in if 65 \<le> n \<and> n \<le> 90 then byte (n + 32) else c)"

text \<open>\<open>strings.ToLower\<close>.\<close>

fun ToLower :: "string \<Rightarrow> string" where
  "ToLower [] = []"
| "ToLower (c # cs) =
     (if HasPrefix (c # cs) [byte 0xC4, byte 0xB0] then CHR ''i'' # ToLower (drop 1 cs)
      else if HasPrefix (c # cs) [byte 0xE2, byte 0x84, byte 0xAA] then CHR ''k'' # ToLower (drop 2 cs)
      else lower_ascii c # ToLower cs)"

text \<open>\<open>strings.EqualFold(s, t)\<close> for an ASCII \<open>t\<close>: simple folding, where U+212A folds to k and U+017F to s.\<close>

fun fold_case :: "string \<Rightarrow> string" where
  "fold_case [] = []"
| "fold_case (c # cs) =
     (if HasPrefix (c # cs) [byte 0xC5, byte 0xBF] then CHR ''s'' # fold_case (drop 1 cs)
      else if HasPrefix (c # cs) [byte 0xE2, byte 0x84, byte 0xAA] then CHR ''k'' # fold_case (drop 2 cs)
      else lower_ascii c # fold_case cs)"

definition EqualFold :: "string \<Rightarrow> string \<Rightarrow> bool" where
  "EqualFold s t \<longleftrightarrow> fold_case s = fold_case t"

section \<open>Dynamic values\<close>

text \<open>
  A \<open>float64\<close> is a finite number, given by its rational value, or one of the special values; zero
  has two signs.  The arithmetic, with its rounding, is in \<open>Float64\<close>.
\<close>

datatype f64 = Fin rat | NegZero | PosInf | NegInf | NaN

text \<open>
  \<open>any\<close>: the dynamic types the service stores in a \<open>map[string]any\<close> or asserts on.  The slices
  \<open>[]any\<close>, \<open>[]string\<close> and \<open>[]map[string]any\<close> are different types to a Go type switch.  A nil slice
  of one of these types is its empty slice, although \<open>json.Marshal\<close> writes null for the former.
\<close>

datatype gval =
    GNil
  | GBool bool
  | GFloat f64
  | GInt int
  | GInt64 int
  | GStr string
  | GArr "gval list"
  | GStrs "string list"
  | GMaps "(string \<times> gval) list list"
  | GMap "(string \<times> gval) list"

text \<open>A \<open>map[string]any\<close> as an association list; iteration order is that of the list.\<close>

type_synonym gmap = "(string \<times> gval) list"

abbreviation mget :: "gmap \<Rightarrow> string \<Rightarrow> gval option" where
  "mget m k \<equiv> map_of m k"

abbreviation mput :: "string \<Rightarrow> gval \<Rightarrow> gmap \<Rightarrow> gmap" where
  "mput k v m \<equiv> AList.update k v m"

abbreviation mdel :: "string \<Rightarrow> gmap \<Rightarrow> gmap" where
  "mdel k m \<equiv> AList.delete k m"

text \<open>\<open>for k, v := range src { dst[k] = v }\<close>.\<close>

definition mmerge :: "gmap \<Rightarrow> gmap \<Rightarrow> gmap" where
  "mmerge dst src = fold (\<lambda>(k, v) m. mput k v m) src dst"

text \<open>\<open>m[k].(string)\<close> with the comma-ok form.\<close>

definition as_str :: "gval option \<Rightarrow> string option" where
  "as_str v = (case v of Some (GStr s) \<Rightarrow> Some s | _ \<Rightarrow> None)"

definition as_map :: "gval option \<Rightarrow> gmap option" where
  "as_map v = (case v of Some (GMap m) \<Rightarrow> Some m | _ \<Rightarrow> None)"

section \<open>JSON\<close>

text \<open>
  \<open>json.Marshal\<close> of a dynamic value: map keys sorted, no white space, HTML characters escaped.
  The shortest decimal rendering of a float is the argument \<open>ff\<close>.  Strings are assumed to be
  valid UTF-8, as everything decoded from JSON or read from Postgres is.  \<open>None\<close> is the error
  Go returns for a value JSON cannot represent.
\<close>

definition hex4 :: "nat \<Rightarrow> string" where
  "hex4 n = hex_nat 4 n"

fun json_escape :: "string \<Rightarrow> string" where
  "json_escape [] = []"
| "json_escape (c # cs) =
     (if c = CHR 0x22 then CHR 0x5C # CHR 0x22 # json_escape cs
      else if c = CHR 0x5C then CHR 0x5C # CHR 0x5C # json_escape cs
      else if c = CHR 0x08 then CHR 0x5C # CHR ''b'' # json_escape cs
      else if c = CHR 0x0C then CHR 0x5C # CHR ''f'' # json_escape cs
      else if c = CHR 0x0A then CHR 0x5C # CHR ''n'' # json_escape cs
      else if c = CHR 0x0D then CHR 0x5C # CHR ''r'' # json_escape cs
      else if c = CHR 0x09 then CHR 0x5C # CHR ''t'' # json_escape cs
      else if (of_char c :: nat) < 32 \<or> c \<in> set ''<>&'' then
        CHR 0x5C # CHR ''u'' # hex4 (of_char c) @ json_escape cs
      else if HasPrefix (c # cs) [byte 0xE2, byte 0x80, byte 0xA8] then
        CHR 0x5C # ''u2028'' @ json_escape (drop 2 cs)
      else if HasPrefix (c # cs) [byte 0xE2, byte 0x80, byte 0xA9] then
        CHR 0x5C # ''u2029'' @ json_escape (drop 2 cs)
      else c # json_escape cs)"

definition json_string :: "string \<Rightarrow> string" where
  "json_string s = CHR 0x22 # json_escape s @ [CHR 0x22]"

fun join_with :: "string \<Rightarrow> string list \<Rightarrow> string" where
  "join_with sep [] = []"
| "join_with sep [x] = x"
| "join_with sep (x # xs) = x @ sep @ join_with sep xs"

fun all_some :: "'a option list \<Rightarrow> 'a list option" where
  "all_some [] = Some []"
| "all_some (None # xs) = None"
| "all_some (Some x # xs) = (case all_some xs of None \<Rightarrow> None | Some ys \<Rightarrow> Some (x # ys))"

text \<open>Byte-wise order of strings, as \<open>sort.Strings\<close> and the \<open><\<close> of Go.\<close>

fun str_less :: "string \<Rightarrow> string \<Rightarrow> bool" where
  "str_less _ [] = False"
| "str_less [] (_ # _) = True"
| "str_less (c # cs) (d # ds) =
     ((of_char c :: nat) < of_char d \<or> c = d \<and> str_less cs ds)"

fun insert_by_key :: "string \<times> 'a \<Rightarrow> (string \<times> 'a) list \<Rightarrow> (string \<times> 'a) list" where
  "insert_by_key x [] = [x]"
| "insert_by_key x (y # ys) =
     (if str_less (fst y) (fst x) then y # insert_by_key x ys else x # y # ys)"

definition sort_by_key :: "(string \<times> 'a) list \<Rightarrow> (string \<times> 'a) list" where
  "sort_by_key xs = foldr insert_by_key xs []"

definition json_object :: "(string \<times> string option) list \<Rightarrow> string option" where
  "json_object fs =
     (case all_some (map (\<lambda>(k, v). map_option (\<lambda>t. json_string k @ '':'' @ t) v) (sort_by_key fs)) of
        None \<Rightarrow> None | Some ts \<Rightarrow> Some (''{'' @ join_with '','' ts @ ''}''))"

definition json_array :: "string option list \<Rightarrow> string option" where
  "json_array ts = map_option (\<lambda>ts. ''['' @ join_with '','' ts @ '']'') (all_some ts)"

fun json_marshal :: "(f64 \<Rightarrow> string) \<Rightarrow> gval \<Rightarrow> string option" where
  "json_marshal ff GNil = Some ''null''"
| "json_marshal ff (GBool b) = Some (if b then ''true'' else ''false'')"
| "json_marshal ff (GFloat x) = (case x of Fin _ \<Rightarrow> Some (ff x) | NegZero \<Rightarrow> Some (ff x) | _ \<Rightarrow> None)"
| "json_marshal ff (GInt i) = Some (int_str i)"
| "json_marshal ff (GInt64 i) = Some (int_str i)"
| "json_marshal ff (GStr s) = Some (json_string s)"
| "json_marshal ff (GArr vs) = json_array (map (json_marshal ff) vs)"
| "json_marshal ff (GStrs ss) = json_array (map (\<lambda>s. Some (json_string s)) ss)"
| "json_marshal ff (GMaps ms) =
     json_array (map (\<lambda>m. json_object (map (\<lambda>(k, v). (k, json_marshal ff v)) m)) ms)"
| "json_marshal ff (GMap m) = json_object (map (\<lambda>(k, v). (k, json_marshal ff v)) m)"

section \<open>Times\<close>

text \<open>
  The civil date of a day number (days since 1 January 1970, proleptic Gregorian calendar), and the
  layouts \<open>time.RFC3339\<close> and \<open>time.RFC3339Nano\<close> of a UTC time in microseconds.  Years are those four
  digits can write.
\<close>

definition civil :: "int \<Rightarrow> int \<times> int \<times> int" where
  "civil days = (let z = days + 719468; era = z div 146097; doe = z mod 146097;
     yoe = (doe - doe div 1460 + doe div 36524 - doe div 146096) div 365;
     doy = doe - (365 * yoe + yoe div 4 - yoe div 100);
     mp = (5 * doy + 2) div 153;
     d = doy - (153 * mp + 2) div 5 + 1;
     m = (if mp < 10 then mp + 3 else mp - 9)
     in (yoe + era * 400 + (if m \<le> 2 then 1 else 0), m, d))"

definition pad :: "nat \<Rightarrow> int \<Rightarrow> string" where
  "pad w i = (let t = int_str i in replicate (w - length t) (CHR ''0'') @ t)"

definition date_time :: "int \<Rightarrow> string" where
  "date_time us = (let secs = us div 1000000; (y, m, d) = civil (secs div 86400); r = secs mod 86400 in
     pad 4 y @ ''-'' @ pad 2 m @ ''-'' @ pad 2 d @ ''T'' @ pad 2 (r div 3600) @ '':'' @
     pad 2 (r mod 3600 div 60) @ '':'' @ pad 2 (r mod 60))"

definition RFC3339 :: "int \<Rightarrow> string" where
  "RFC3339 us = date_time us @ ''Z''"

definition RFC3339Nano :: "int \<Rightarrow> string" where
  "RFC3339Nano us = (let f = TrimRight (pad 6 (us mod 1000000)) (CHR ''0'') in
     date_time us @ (if f = [] then [] else ''.'' @ f) @ ''Z'')"

section \<open>Error texts\<close>

text \<open>\<open>err.Error()\<close>; what the driver says of a failed statement is not modelled in detail.\<close>

fun err_text :: "err \<Rightarrow> string" where
  "err_text (ErrMsg m) = m"
| "err_text (ErrWrap m e) = m @ '': '' @ err_text e"
| "err_text ErrNotFound = ''not found''"
| "err_text ErrInvalidFilter = ''invalid filter''"
| "err_text ErrNothingToAnchor = ''anchor: no new custody events since last anchor''"
| "err_text ErrProviderDisabled = ''anchor: public provider disabled''"
| "err_text ErrNotImplemented = ''anchor: on-chain publish not implemented''"
| "err_text ErrLocked = ''scm sync already running elsewhere''"
| "err_text ErrCoARequired = ''COA_REQUIRED''"
| "err_text ErrComplianceGateUnavailable = ''COMPLIANCE_GATE_UNAVAILABLE''"
| "err_text ErrContext = ''context canceled''"
| "err_text ErrDB = ''database error''"
| "err_text ErrConflict = ''constraint violation''"

section \<open>Lemmas\<close>

lemma of_char_bound: "(of_char c :: nat) < 256"
proof -
  have "c \<in> range (char_of :: nat \<Rightarrow> char)" by (metis char_of_char rangeI)
  then show ?thesis by (auto simp: take_bit_eq_mod)
qed

lemma of_char_byte: "n < 256 \<Longrightarrow> of_char (byte n) = (n :: nat)"
  by (simp add: take_bit_eq_mod)

lemma hex_digit_cases:
  assumes "n < 16"
  shows "unhex_char (hex_char n) = Some n"
proof (cases "n < 10")
  case True
  then have "of_char (hex_char n) = 48 + n"
    by (simp add: hex_char_def of_char_byte del: of_char_of)
  with True show ?thesis by (simp add: unhex_char_def Let_def)
next
  case False
  with assms have "of_char (hex_char n) = 87 + n"
    by (simp add: hex_char_def of_char_byte del: of_char_of)
  with False assms show ?thesis by (simp add: unhex_char_def Let_def)
qed

lemma hex_decode_encode [simp]: "hex_decode (hex_encode bs) = Some bs"
proof (induction bs)
  case (Cons c cs)
  have "(of_char c :: nat) div 16 < 16"
    using of_char_bound [of c] by linarith
  with Cons show ?case
    by (simp add: hex_digit_cases)
qed simp

lemma length_hex_encode [simp]: "length (hex_encode bs) = 2 * length bs"
  by (induction bs) auto

lemma hex_encode_inject: "hex_encode a = hex_encode b \<longleftrightarrow> a = b"
  by (metis hex_decode_encode option.inject)

lemma nat_str_digits: "set (nat_str n) \<subseteq> digit_char ` {..<10}"
proof (induction n rule: nat_str.induct)
  case (1 n)
  show ?case
  proof (cases "n < 10")
    case True
    then show ?thesis by (simp add: nat_str.simps [of n])
  next
    case False
    with "1.IH" show ?thesis by (auto simp: nat_str.simps [of n])
  qed
qed

lemma of_char_digit: "d < 10 \<Longrightarrow> of_char (digit_char d) = 48 + (d :: nat)"
  by (simp add: digit_char_def of_char_byte del: of_char_of)

lemma digit_char_neq:
  assumes "d < 10" and "(of_char c :: nat) < 48 \<or> 57 < (of_char c :: nat)"
  shows "digit_char d \<noteq> c"
proof
  assume "digit_char d = c"
  with assms(1) have "of_char c = 48 + (d :: nat)" using of_char_digit by blast
  with assms show False by linarith
qed

lemma digit_char_inject:
  assumes "d < 10" and "e < 10"
  shows "digit_char d = digit_char e \<longleftrightarrow> d = e"
proof
  assume "digit_char d = digit_char e"
  then have "(of_char (digit_char d) :: nat) = of_char (digit_char e)" by (rule arg_cong)
  with assms show "d = e" by (simp add: of_char_digit)
qed simp

lemma nat_str_nonempty: "nat_str n \<noteq> []"
  by (subst nat_str.simps) simp

lemma nat_str_inject: "nat_str m = nat_str n \<Longrightarrow> m = n"
proof (induction m arbitrary: n rule: nat_str.induct)
  case (1 m)
  show ?case
  proof (cases "m < 10"; cases "n < 10")
    assume "m < 10" "n < 10"
    with "1.prems" show ?thesis
      by (simp add: nat_str.simps [of m] nat_str.simps [of n] digit_char_inject)
  next
    assume "m < 10" "\<not> n < 10"
    with "1.prems" show ?thesis
      using nat_str_nonempty [of "n div 10"]
      by (auto simp: nat_str.simps [of m] nat_str.simps [of n])
  next
    assume "\<not> m < 10" "n < 10"
    with "1.prems" show ?thesis
      by (simp add: nat_str.simps [of m] nat_str.simps [of n] nat_str_nonempty)
  next
    assume mn: "\<not> m < 10" "\<not> n < 10"
    with "1.prems" have "nat_str (m div 10) = nat_str (n div 10)"
      and "digit_char (m mod 10) = digit_char (n mod 10)"
      by (simp_all add: nat_str.simps [of m] nat_str.simps [of n])
    with mn "1.IH" have "m div 10 = n div 10" and "m mod 10 = n mod 10"
      by (simp_all add: digit_char_inject)
    then show ?thesis by (metis div_mult_mod_eq)
  qed
qed

lemma nat_str_not_in:
  assumes "(of_char c :: nat) < 48 \<or> 57 < (of_char c :: nat)"
  shows "c \<notin> set (nat_str n)"
proof
  assume "c \<in> set (nat_str n)"
  with nat_str_digits obtain d where "d < 10" "c = digit_char d" by blast
  with digit_char_neq [OF _ assms] show False by blast
qed

lemma int_str_no_bar: "CHR ''|'' \<notin> set (int_str i)"
  using nat_str_not_in [of "CHR ''|''"] by (simp add: int_str_def)

lemma int_str_inject: "int_str i = int_str j \<longleftrightarrow> i = j"
proof
  have dash: "nat_str n \<noteq> ''-'' @ t" for n t
    using nat_str_not_in [of "CHR ''-''" n] by auto
  assume "int_str i = int_str j"
  then show "i = j"
  proof (cases "i < 0"; cases "j < 0")
    assume "i < 0" "j < 0" and eq: "int_str i = int_str j"
    then have "nat (- i) = nat (- j)" by (intro nat_str_inject) (simp add: int_str_def)
    with \<open>i < 0\<close> \<open>j < 0\<close> show ?thesis by simp
  next
    assume "\<not> i < 0" "\<not> j < 0" and eq: "int_str i = int_str j"
    then have "nat i = nat j" by (intro nat_str_inject) (simp add: int_str_def)
    with \<open>\<not> i < 0\<close> \<open>\<not> j < 0\<close> show ?thesis by simp
  next
    assume "i < 0" "\<not> j < 0" and eq: "int_str i = int_str j"
    with dash [of "nat j" "nat_str (nat (- i))"] show ?thesis by (simp add: int_str_def)
  next
    assume "\<not> i < 0" "j < 0" and eq: "int_str i = int_str j"
    with dash [of "nat i" "nat_str (nat (- j))"] show ?thesis by (simp add: int_str_def)
  qed
qed simp

lemma map_of_mmerge: "mget (mmerge dst src) k =
  (case mget (rev src) k of None \<Rightarrow> mget dst k | Some v \<Rightarrow> Some v)"
  unfolding mmerge_def
  by (induction src arbitrary: dst)
     (auto simp: AList.update_conv' map_add_def split: option.splits)

text \<open>\<open>str_less\<close> is a linear order, and \<open>sort_by_key\<close> sorts by it.\<close>

lemma str_less_trans: "str_less a b \<Longrightarrow> str_less b c \<Longrightarrow> str_less a c"
proof (induction a arbitrary: b c)
  case Nil
  then show ?case by (cases b; cases c) simp_all
next
  case (Cons x xs)
  then show ?case by (cases b; cases c) auto
qed

lemma str_less_total: "\<not> str_less a b \<Longrightarrow> \<not> str_less b a \<Longrightarrow> a = b"
proof (induction a arbitrary: b)
  case Nil
  then show ?case by (cases b) simp_all
next
  case (Cons x xs)
  then show ?case by (cases b) (auto simp: linorder_not_less)
qed

lemma str_less_irrefl [simp]: "\<not> str_less a a"
  by (induction a) simp_all

definition key_sorted :: "(string \<times> 'a) list \<Rightarrow> bool" where
  "key_sorted xs \<longleftrightarrow> sorted_wrt (\<lambda>x y. \<not> str_less (fst y) (fst x)) xs"

lemma mset_insert_by_key [simp]: "mset (insert_by_key x xs) = add_mset x (mset xs)"
  by (induction xs) auto

lemma set_insert_by_key [simp]: "set (insert_by_key x xs) = insert x (set xs)"
  by (induction xs) auto

lemma insert_by_key_sorted: "key_sorted xs \<Longrightarrow> key_sorted (insert_by_key x xs)"
proof (induction xs)
  case (Cons y ys)
  show ?case
  proof (cases "str_less (fst y) (fst x)")
    case True
    have "\<not> str_less (fst x) (fst y)" using True str_less_trans [of "fst y" "fst x" "fst y"] by auto
    with True Cons show ?thesis by (auto simp: key_sorted_def)
  next
    case False
    have "\<not> str_less (fst z) (fst x)" if "\<not> str_less (fst z) (fst y)" for z
      using that False str_less_total [of "fst y" "fst z"] str_less_trans [of "fst y" "fst z" "fst x"] by (cases "str_less (fst y) (fst z)") auto
    with False Cons.prems show ?thesis by (auto simp: key_sorted_def)
  qed
qed (simp add: key_sorted_def)

lemma sort_by_key_sorted: "key_sorted (sort_by_key xs)"
  unfolding sort_by_key_def by (induction xs) (simp_all add: insert_by_key_sorted, simp add: key_sorted_def)

lemma mset_sort_by_key [simp]: "mset (sort_by_key xs) = mset xs"
  unfolding sort_by_key_def by (induction xs) simp_all

lemma set_sort_by_key [simp]: "set (sort_by_key xs) = set xs"
  by (metis mset_sort_by_key set_mset_mset)

text \<open>Lower-case ASCII names are their own folding.\<close>

definition plain :: "string \<Rightarrow> bool" where
  "plain s \<longleftrightarrow> list_all (\<lambda>c. (of_char c :: nat) < 128 \<and> \<not> (65 \<le> (of_char c :: nat) \<and> (of_char c :: nat) \<le> 90)) s"

lemma fold_case_plain: "plain s \<Longrightarrow> fold_case s = s"
proof (induction s rule: fold_case.induct)
  case (2 c cs)
  have "(of_char (byte 0xC5) :: nat) = 0xC5" "(of_char (byte 0xE2) :: nat) = 0xE2" by simp_all
  with 2(4) have "c \<noteq> byte 0xC5" "c \<noteq> byte 0xE2" by (auto simp: plain_def simp del: of_char_of)
  then have "\<not> HasPrefix (c # cs) [byte 0xC5, byte 0xBF]" "\<not> HasPrefix (c # cs) [byte 0xE2, byte 0x84, byte 0xAA]"
    by (simp_all add: HasPrefix_def)
  with 2 show ?case by (auto simp: plain_def lower_ascii_def Let_def)
qed simp

text \<open>Nothing to trim at a visible ASCII character.\<close>

definition graphic :: "char \<Rightarrow> bool" where
  "graphic c \<longleftrightarrow> 32 < (of_char c :: nat) \<and> (of_char c :: nat) < 128"

lemma space_runes_ends: "w \<in> set space_runes \<Longrightarrow> w \<noteq> [] \<and> \<not> graphic (hd w) \<and> \<not> graphic (last w)"
  by (auto simp: space_runes_def graphic_def)

lemma TrimSpace_graphic:
  assumes "s \<noteq> []" and "graphic (hd s)" and "graphic (last s)"
  shows "TrimSpace s = s"
proof -
  have "\<not> HasPrefix s w \<and> \<not> HasSuffix s w" if "w \<in> set space_runes" for w
  proof -
    have "hd w = hd s" if "HasPrefix s w"
      using that space_runes_ends [OF \<open>w \<in> set space_runes\<close>] by (auto simp: HasPrefix_def hd_take dest: arg_cong [of _ _ hd])
    moreover have "last w = last s" if "HasSuffix s w"
    proof -
      from that have "drop (length s - length w) s = w" by (simp add: HasSuffix_def)
      then show ?thesis using space_runes_ends [OF \<open>w \<in> set space_runes\<close>] last_drop [of "length s - length w" s]
        by (metis drop_eq_Nil not_le)
    qed
    ultimately show ?thesis using space_runes_ends [OF that] assms(2,3) by auto
  qed
  then have "leading_space s = 0" "trailing_space s = 0"
    by (simp_all add: leading_space_def trailing_space_def find_None_set [THEN iffD2])
  then show ?thesis by (simp add: TrimSpace_def trim_left.simps [of s] trim_right.simps [of s])
qed

end
