(* ===== verification/Schema.thy ===== *)
theory Schema
  imports GoLib
begin

text \<open>
  The tables of the \<open>traceability\<close> schema (\<open>migrations/*.sql\<close>) as rows and lists of rows, in
  insertion order, and the database state built from them.  Constraints are enforced by the
  statements that insert.  A timestamp is a number of microseconds since the Unix epoch, the
  resolution of \<open>timestamptz\<close>.  \<open>now()\<close> is the clock when the statement runs.  Columns no Go code
  reads (\<open>updated_at\<close> of the projections, \<open>received_at\<close> of \<open>kafka_dedupe\<close>) are left out.

  The record \<open>ext\<close> holds the behaviour of code outside the repository that the definitions call.
\<close>

section \<open>Code outside the repository\<close>

record ext =
  x_fmt_float :: "f64 \<Rightarrow> string"        \<comment> \<open>shortest decimal rendering of a float (\<open>strconv\<close>)\<close>
  x_jsonb :: "gmap \<Rightarrow> gmap"             \<comment> \<open>a map written to a JSONB column and read back (pgx, Postgres)\<close>
  x_pg_text :: "gval \<Rightarrow> string"          \<comment> \<open>text Postgres renders for a non-string JSONB value under \<open>->>\<close>\<close>
  x_uuid_parse :: "string \<Rightarrow> uuid option" \<comment> \<open>\<open>uuid.Parse\<close>\<close>

text \<open>
  A map is encoded with \<open>json.Marshal\<close> before it is sent to a JSONB column; a map that has no JSON
  rendering makes the statement fail.  What is read back is \<open>x_jsonb X m\<close>.
\<close>

definition enc_jsonb :: "ext \<Rightarrow> gmap \<Rightarrow> gmap option" where
  "enc_jsonb X m =
     (case json_marshal (x_fmt_float X) (GMap m) of None \<Rightarrow> None | Some _ \<Rightarrow> Some (x_jsonb X m))"

text \<open>
  Reading a map back from JSONB may change its JSON rendering (an integer above \<open>2^53\<close> comes back
  as the nearest float).  A map is stable when it does not; a map that has been through the column
  once comes back unchanged.
\<close>

definition jsonb_stable :: "ext \<Rightarrow> gmap \<Rightarrow> bool" where
  "jsonb_stable X m \<longleftrightarrow>
     json_marshal (x_fmt_float X) (GMap (x_jsonb X m)) = json_marshal (x_fmt_float X) (GMap m)"

definition jsonb_idem :: "ext \<Rightarrow> bool" where
  "jsonb_idem X \<longleftrightarrow> (\<forall>m. x_jsonb X (x_jsonb X m) = x_jsonb X m)"

lemma jsonb_idem_stable: "jsonb_idem X \<Longrightarrow> jsonb_stable X (x_jsonb X m)"
  by (simp add: jsonb_idem_def jsonb_stable_def)

text \<open>\<open>m->>'k'\<close>: the value as text, NULL when the key is missing or the value is JSON null.\<close>

definition jsonb_text :: "ext \<Rightarrow> gmap \<Rightarrow> string \<Rightarrow> string option" where
  "jsonb_text X m k =
     (case mget m k of None \<Rightarrow> None | Some GNil \<Rightarrow> None | Some (GStr s) \<Rightarrow> Some s
      | Some v \<Rightarrow> Some (x_pg_text X v))"

section \<open>Rows\<close>

record trace_row =
  te_id :: uuid
  te_occurred_at :: int
  te_event_type :: string
  te_entity_type :: string
  te_entity_business_id :: string
  te_entity_id :: "uuid option"
  te_related_ids :: gmap
  te_actor_user_id :: "uuid option"
  te_source_service :: string
  te_payload :: gmap
  te_idempotency_key :: "string option"
  te_created_at :: int

record chain_row =
  cc_seq_index :: int
  cc_trace_event_id :: uuid
  cc_occurred_at :: int
  cc_batch_business_id :: string
  cc_action :: string
  cc_actor :: string
  cc_quality_metrics :: gmap
  cc_prev_hash :: string
  cc_event_hash :: string

record AnchorRow =
  an_ID :: uuid
  an_FromSeq :: int
  an_ToSeq :: int
  an_EventCount :: int
  an_MerkleRoot :: string
  an_Algo :: string
  an_KeyID :: string
  an_Signature :: string
  an_PeriodStart :: int
  an_PeriodEnd :: int
  an_Provider :: string
  an_TxRef :: "string option"
  an_AnchoredAt :: "int option"
  an_CreatedAt :: int

record qr_row =
  qr_lot_business_id :: string
  qr_public_token :: string
  qr_version :: int
  qr_published_at :: "int option"
  qr_revoked_at :: "int option"
  qr_scan_count :: int
  qr_created_at :: int
  qr_updated_at :: int

record override_row =
  ov_story_title :: "string option"
  ov_story_body :: "string option"
  ov_updated_by :: string
  ov_updated_by_user_id :: "uuid option"
  ov_updated_at :: int

record override_audit_row =
  oa_lot_business_id :: string
  oa_previous_title :: "string option"
  oa_previous_body :: "string option"
  oa_story_title :: "string option"
  oa_story_body :: "string option"
  oa_updated_by :: string
  oa_updated_by_user_id :: "uuid option"
  oa_created_at :: int

record outbox_row =
  ob_id :: nat
  ob_event_id :: string
  ob_topic :: string
  ob_partition_key :: string
  ob_subject :: string
  ob_payload :: string
  ob_published_at :: "int option"
  ob_attempts :: int
  ob_last_error :: string

record dead_letter_row =
  dl_event_id :: string
  dl_topic :: string
  dl_event_type :: string
  dl_reason :: string
  dl_payload :: gmap
  dl_received_at :: int

record sync_state_row =
  sy_last_created_at :: "int option"
  sy_last_scm_id :: string
  sy_last_run_at :: "int option"
  sy_last_copied :: int
  sy_last_error :: string

section \<open>The database\<close>

record db = pg +
  trace_events :: "trace_row list"
  custody_chain :: "chain_row list"
  anchor_batches :: "AnchorRow list"
  lot_qr_codes :: "qr_row list"
  lot_story_projections :: "(string \<times> gmap) list"
  lot_story_overrides :: "(string \<times> override_row) list"
  lot_story_override_audit :: "override_audit_row list"
  entity_projections :: "((string \<times> string) \<times> gmap) list"
  event_outbox :: "outbox_row list"
  kafka_dedupe :: "(string \<times> string) list"
  kafka_dead_letter :: "dead_letter_row list"
  scm_sync_state :: "sync_state_row option"

definition empty_db :: "(io \<times> nat) list \<Rightarrow> int \<Rightarrow> db" where
  "empty_db sc t = \<lparr>script = sc, now_us = t, fresh_id = 1,
     trace_events = [], custody_chain = [], anchor_batches = [], lot_qr_codes = [],
     lot_story_projections = [], lot_story_overrides = [], lot_story_override_audit = [],
     entity_projections = [], event_outbox = [], kafka_dedupe = [], kafka_dead_letter = [],
     scm_sync_state = None\<rparr>"

text \<open>\<open>time.Time{}\<close>, 1 January of year 1, and \<open>UnixMilli\<close>, which rounds down.\<close>

definition zero_time :: int where
  "zero_time = - 62135596800000000"

definition UnixMilli :: "int \<Rightarrow> int" where
  "UnixMilli t = t div 1000"

text \<open>\<open>fmt.Errorf("msg: %w", err)\<close> around a call.\<close>

definition wrapC :: "string \<Rightarrow> ('s, 'a) cmd \<Rightarrow> ('s, 'a) cmd" where
  "wrapC msg m = handleC m (\<lambda>e. failC (ErrWrap msg e)) retC"

lemma keeps_wrapC [keeps_intros]: "keeps P m \<Longrightarrow> keeps P (wrapC msg m)"
  unfolding wrapC_def by (intro keeps_intros)

lemma draws_wrapC [keeps_intros]: "draws_ids m \<Longrightarrow> draws_ids (wrapC msg m)"
  unfolding wrapC_def by (intro keeps_intros)

section \<open>Frame lemmas\<close>

text \<open>The clock, the script and the id supply are not tables.\<close>

lemma step_io_db [simp]:
  "trace_events (step_io s) = trace_events s"
  "custody_chain (step_io s) = custody_chain s"
  "anchor_batches (step_io s) = anchor_batches s"
  "lot_qr_codes (step_io s) = lot_qr_codes s"
  "lot_story_projections (step_io s) = lot_story_projections s"
  "lot_story_overrides (step_io s) = lot_story_overrides s"
  "lot_story_override_audit (step_io s) = lot_story_override_audit s"
  "entity_projections (step_io s) = entity_projections s"
  "event_outbox (step_io s) = event_outbox s"
  "kafka_dedupe (step_io s) = kafka_dedupe s"
  "kafka_dead_letter (step_io s) = kafka_dead_letter s"
  "scm_sync_state (step_io s) = scm_sync_state s"
  by (simp_all add: step_io_def split: list.split)

lemma rollback_db [simp]:
  "trace_events (rollback s0 s1) = trace_events s0"
  "custody_chain (rollback s0 s1) = custody_chain s0"
  "anchor_batches (rollback s0 s1) = anchor_batches s0"
  "lot_qr_codes (rollback s0 s1) = lot_qr_codes s0"
  "lot_story_projections (rollback s0 s1) = lot_story_projections s0"
  "lot_story_overrides (rollback s0 s1) = lot_story_overrides s0"
  "lot_story_override_audit (rollback s0 s1) = lot_story_override_audit s0"
  "entity_projections (rollback s0 s1) = entity_projections s0"
  "event_outbox (rollback s0 s1) = event_outbox s0"
  "kafka_dedupe (rollback s0 s1) = kafka_dedupe s0"
  "kafka_dead_letter (rollback s0 s1) = kafka_dead_letter s0"
  "scm_sync_state (rollback s0 s1) = scm_sync_state s0"
  by (simp_all add: rollback_def)

lemma ticks_db:
  assumes "ticks s s'"
  shows "trace_events s' = trace_events s" "custody_chain s' = custody_chain s"
    "anchor_batches s' = anchor_batches s" "lot_qr_codes s' = lot_qr_codes s"
    "lot_story_projections s' = lot_story_projections s"
    "lot_story_overrides s' = lot_story_overrides s"
    "lot_story_override_audit s' = lot_story_override_audit s"
    "entity_projections s' = entity_projections s" "event_outbox s' = event_outbox s"
    "kafka_dedupe s' = kafka_dedupe s" "kafka_dead_letter s' = kafka_dead_letter s"
    "scm_sync_state s' = scm_sync_state s" "fresh_id s \<le> fresh_id s'"
proof -
  from assms obtain sc t n where "s' = s\<lparr>script := sc, now_us := t, fresh_id := n\<rparr>" "fresh_id s \<le> n"
    unfolding ticks_def by blast
  then show "trace_events s' = trace_events s" "custody_chain s' = custody_chain s"
    "anchor_batches s' = anchor_batches s" "lot_qr_codes s' = lot_qr_codes s"
    "lot_story_projections s' = lot_story_projections s"
    "lot_story_overrides s' = lot_story_overrides s"
    "lot_story_override_audit s' = lot_story_override_audit s"
    "entity_projections s' = entity_projections s" "event_outbox s' = event_outbox s"
    "kafka_dedupe s' = kafka_dedupe s" "kafka_dead_letter s' = kafka_dead_letter s"
    "scm_sync_state s' = scm_sync_state s" "fresh_id s \<le> fresh_id s'"
    by simp_all
qed

lemma wrapC_Inr_iff [simp]: "wrapC msg m s = (Inr a, s') \<longleftrightarrow> m s = (Inr a, s')"
  by (auto simp: wrapC_def handleC_def failC_def retC_def split: prod.splits sum.splits)

end
