(* ===== verification/EventStore.thy ===== *)
theory EventStore
  imports Schema
begin

text \<open>
  \<open>internal/store/store.go\<close>, the \<open>trace_events\<close> ledger: the idempotent insert, the filtered lists
  and the certificate lookup.  \<open>AppendEvent\<close> itself is with the custody chain, which it may extend.
\<close>

section \<open>Data\<close>

record AppendEventInput =
  in_OccurredAt :: int
  in_EventType :: string
  in_EntityType :: string
  in_EntityBusinessID :: string
  in_EntityID :: "uuid option"
  in_RelatedIDs :: "gmap option"
  in_ActorUserID :: "uuid option"
  in_SourceService :: string
  in_Payload :: "gmap option"
  in_IdempotencyKey :: "string option"

text \<open>A \<open>TraceEvent\<close> is a row and the flag \<open>Inserted\<close>.\<close>

record TraceEvent = trace_row +
  ev_Inserted :: bool

record EventFilter =
  fl_EventTypes :: "string list"
  fl_EntityType :: string
  fl_EntityBusinessID :: string
  fl_From :: "int option"
  fl_To :: "int option"
  fl_Limit :: int

section \<open>The idempotent insert\<close>

definition or_empty :: "gmap option \<Rightarrow> gmap" where
  "or_empty m = (case m of None \<Rightarrow> [] | Some m \<Rightarrow> m)"

text \<open>What \<open>AppendEvent\<close> fills in before it inserts.\<close>

definition append_defaults :: "int \<Rightarrow> AppendEventInput \<Rightarrow> AppendEventInput" where
  "append_defaults now i = i\<lparr>
     in_OccurredAt := (if in_OccurredAt i = zero_time then now else in_OccurredAt i),
     in_SourceService := (if in_SourceService i = [] then ''iag-traceability'' else in_SourceService i),
     in_RelatedIDs := Some (or_empty (in_RelatedIDs i)),
     in_Payload := Some (or_empty (in_Payload i))\<rparr>"

text \<open>The row already stored under the key of the input, if any.\<close>

definition stored_under :: "AppendEventInput \<Rightarrow> trace_row list \<Rightarrow> trace_row option" where
  "stored_under i rows =
     (case in_IdempotencyKey i of None \<Rightarrow> None
      | Some k \<Rightarrow> find (\<lambda>r. te_idempotency_key r = Some k) rows)"

text \<open>The columns of \<open>RETURNING\<close> and the three fields copied from the input; \<open>ActorUserID\<close> stays nil.\<close>

definition returned_event :: "AppendEventInput \<Rightarrow> trace_row \<Rightarrow> bool \<Rightarrow> TraceEvent" where
  "returned_event i r ins = \<lparr>
     te_id = te_id r, te_occurred_at = te_occurred_at r, te_event_type = te_event_type r,
     te_entity_type = te_entity_type r, te_entity_business_id = te_entity_business_id r,
     te_entity_id = te_entity_id r, te_related_ids = or_empty (in_RelatedIDs i),
     te_actor_user_id = None, te_source_service = te_source_service r,
     te_payload = or_empty (in_Payload i), te_idempotency_key = in_IdempotencyKey i,
     te_created_at = te_created_at r, ev_Inserted = ins\<rparr>"

definition new_row :: "AppendEventInput \<Rightarrow> gmap \<Rightarrow> gmap \<Rightarrow> 'z db_scheme \<Rightarrow> trace_row" where
  "new_row i rel pay s = \<lparr>
     te_id = fresh_id s, te_occurred_at = in_OccurredAt i, te_event_type = in_EventType i,
     te_entity_type = in_EntityType i, te_entity_business_id = in_EntityBusinessID i,
     te_entity_id = in_EntityID i, te_related_ids = rel, te_actor_user_id = in_ActorUserID i,
     te_source_service = in_SourceService i, te_payload = pay,
     te_idempotency_key = in_IdempotencyKey i, te_created_at = now_us s\<rparr>"

text \<open>
  The \<open>INSERT ... ON CONFLICT (idempotency_key) DO UPDATE SET idempotency_key =
  EXCLUDED.idempotency_key RETURNING ..., (xmax = 0)\<close> of both append paths: on a conflict the
  stored row is rewritten to itself and returned with \<open>inserted = false\<close>.
\<close>

definition insert_event_sql ::
  "ext \<Rightarrow> AppendEventInput \<Rightarrow> 'z db_scheme \<Rightarrow> err + (TraceEvent \<times> 'z db_scheme)" where
  "insert_event_sql X i s =
     (case (enc_jsonb X (or_empty (in_RelatedIDs i)), enc_jsonb X (or_empty (in_Payload i))) of
        (Some rel, Some pay) \<Rightarrow>
          (case stored_under i (trace_events s) of
             Some r \<Rightarrow> Inr (returned_event i r False, s)
           | None \<Rightarrow>
               let r = new_row i rel pay s in
               Inr (returned_event i r True,
                    s\<lparr>trace_events := trace_events s @ [r], fresh_id := Suc (fresh_id s)\<rparr>))
      | _ \<Rightarrow> Inl ErrDB)"

section \<open>Lists\<close>

definition event_matches :: "EventFilter \<Rightarrow> trace_row \<Rightarrow> bool" where
  "event_matches f r \<longleftrightarrow>
     (fl_EntityType f \<noteq> [] \<longrightarrow> te_entity_type r = fl_EntityType f) \<and>
     (fl_EntityBusinessID f \<noteq> [] \<longrightarrow> te_entity_business_id r = fl_EntityBusinessID f) \<and>
     (fl_EventTypes f \<noteq> [] \<longrightarrow> te_event_type r \<in> set (fl_EventTypes f)) \<and>
     (case fl_From f of None \<Rightarrow> True | Some t \<Rightarrow> t \<le> te_occurred_at r) \<and>
     (case fl_To f of None \<Rightarrow> True | Some t \<Rightarrow> te_occurred_at r < t)"

definition clamp_limit :: "int \<Rightarrow> int \<Rightarrow> int \<Rightarrow> int" where
  "clamp_limit hi def limit = (if limit \<le> 0 \<or> limit > hi then def else limit)"

definition entity_scope :: "EventFilter \<Rightarrow> bool" where
  "entity_scope f \<longleftrightarrow> fl_EntityType f \<noteq> [] \<and> fl_EntityBusinessID f \<noteq> []"

text \<open>The sort key: ascending time for one entity, descending otherwise.\<close>

definition list_order :: "EventFilter \<Rightarrow> trace_row \<Rightarrow> int" where
  "list_order f r = (if entity_scope f then te_occurred_at r else - te_occurred_at r)"

definition listed_event :: "trace_row \<Rightarrow> TraceEvent" where
  "listed_event r = trace_row.extend (r\<lparr>te_idempotency_key := None\<rparr>) \<lparr>ev_Inserted = False\<rparr>"

definition select_events :: "EventFilter \<Rightarrow> 'z db_scheme \<Rightarrow> trace_row list" where
  "select_events f s =
     take (nat (clamp_limit 500 100 (fl_Limit f)))
       (sort_key (list_order f) (filter (event_matches f) (trace_events s)))"

definition ListEvents :: "EventFilter \<Rightarrow> ('z db_scheme, TraceEvent list) cmd" where
  "ListEvents f = queryC (\<lambda>s. map listed_event (select_events f s))"

definition no_filter :: EventFilter where
  "no_filter = \<lparr>fl_EventTypes = [], fl_EntityType = [], fl_EntityBusinessID = [],
     fl_From = None, fl_To = None, fl_Limit = 0\<rparr>"

definition listEvents :: "string \<Rightarrow> string \<Rightarrow> int \<Rightarrow> ('z db_scheme, TraceEvent list) cmd" where
  "listEvents entityType businessID limit =
     ListEvents (no_filter\<lparr>fl_EntityType := entityType, fl_EntityBusinessID := businessID,
                           fl_Limit := limit\<rparr>)"

definition ListEventsForEntity :: "string \<Rightarrow> string \<Rightarrow> int \<Rightarrow> ('z db_scheme, TraceEvent list) cmd" where
  "ListEventsForEntity entityType businessID limit = listEvents entityType businessID limit"

definition ListRecentEvents :: "int \<Rightarrow> ('z db_scheme, TraceEvent list) cmd" where
  "ListRecentEvents limit = listEvents [] [] limit"

section \<open>Certificates\<close>

definition coa_row :: "ext \<Rightarrow> string \<Rightarrow> trace_row \<Rightarrow> bool" where
  "coa_row X lot r \<longleftrightarrow>
     te_event_type r \<in> {''COA_ISSUED'', ''qc.coa.issued''} \<and>
     (te_entity_type r = ''lot'' \<and> te_entity_business_id r = lot \<or>
      jsonb_text X (te_related_ids r) ''lot_business_id'' = Some lot)"

definition LotHasCOA :: "ext \<Rightarrow> string \<Rightarrow> ('z db_scheme, bool) cmd" where
  "LotHasCOA X lot = queryC (\<lambda>s. list_ex (coa_row X lot) (trace_events s))"

definition Ping :: "('z db_scheme, unit) cmd" where
  "Ping = queryC (\<lambda>s. ())"

section \<open>Lemmas\<close>

text \<open>The ledger well-formed: ids are unique and already drawn, keys are unique.\<close>

definition ledger_ok :: "'z db_scheme \<Rightarrow> bool" where
  "ledger_ok s \<longleftrightarrow>
     distinct (map te_id (trace_events s)) \<and>
     (\<forall>r \<in> set (trace_events s). te_id r < fresh_id s) \<and>
     distinct (filter (\<lambda>k. k \<noteq> None) (map te_idempotency_key (trace_events s)))"

lemma insert_event_sql_Inr:
  assumes "insert_event_sql X i s = Inr (ev, s')"
  obtains (new) rel pay where "enc_jsonb X (or_empty (in_RelatedIDs i)) = Some rel"
      "enc_jsonb X (or_empty (in_Payload i)) = Some pay"
      "stored_under i (trace_events s) = None" "ev = returned_event i (new_row i rel pay s) True"
      "s' = s\<lparr>trace_events := trace_events s @ [new_row i rel pay s], fresh_id := Suc (fresh_id s)\<rparr>"
  | (replay) r where "stored_under i (trace_events s) = Some r" "ev = returned_event i r False" "s' = s"
  using assms
  by (auto simp: insert_event_sql_def Let_def split: option.splits)

lemma stored_under_None:
  "stored_under i rows = None \<Longrightarrow> in_IdempotencyKey i = Some k \<Longrightarrow> r \<in> set rows \<Longrightarrow>
   te_idempotency_key r \<noteq> Some k"
  by (auto simp: stored_under_def find_None_set split: option.splits)

lemma tables_only_ledger: "tables_only ledger_ok"
  by (auto simp: tables_only_def ledger_ok_def intro: order_less_le_trans)

lemma insert_event_ledger_ok:
  assumes "ledger_ok s" and "insert_event_sql X i s = Inr (ev, s')"
  shows "ledger_ok s'"
  using assms(2)
proof (cases rule: insert_event_sql_Inr)
  case (new rel pay)
  let ?r = "new_row i rel pay s"
  have id: "te_id ?r = fresh_id s" and key: "te_idempotency_key ?r = in_IdempotencyKey i"
    by (simp_all add: new_row_def)
  have "Some k \<notin> te_idempotency_key ` set (trace_events s)" if "in_IdempotencyKey i = Some k" for k
    using stored_under_None [OF new(3) that] by (auto dest: sym)
  with assms(1) id key new(5) show ?thesis
    by (cases "in_IdempotencyKey i") (auto simp: ledger_ok_def less_Suc_eq)
qed (use assms(1) in simp)

section \<open>Properties\<close>

text \<open>
  \<open>ListEvents\<close> returns the right window of the ledger: every event returned matches the filter,
  they are in the order of the list (oldest first for one entity, newest first otherwise), at most
  500 of them, and a matching event is left out only when the list is full and every event returned
  comes no later in that order.
\<close>

theorem list_events_window:
  assumes "ListEvents f s = (Inr evs, s')"
  shows "\<exists>rows. evs = map listed_event rows \<and>
    (\<forall>r \<in> set rows. r \<in> set (trace_events s) \<and> event_matches f r) \<and>
    sorted (map (list_order f) rows) \<and> length rows \<le> 500 \<and>
    (\<forall>r \<in> set (trace_events s). event_matches f r \<longrightarrow> r \<notin> set rows \<longrightarrow>
       int (length rows) = clamp_limit 500 100 (fl_Limit f) \<and> (\<forall>q \<in> set rows. list_order f q \<le> list_order f r))"
proof -
  define rows where "rows = select_events f (step_io s)"
  let ?n = "nat (clamp_limit 500 100 (fl_Limit f))"
  have n: "?n \<le> 500" "clamp_limit 500 100 (fl_Limit f) > 0" by (auto simp: clamp_limit_def)
  have "evs = map listed_event rows"
    using assms by (simp add: ListEvents_def queryC_Inr_iff rows_def)
  moreover have "\<forall>r \<in> set rows. r \<in> set (trace_events s) \<and> event_matches f r"
    by (auto simp: rows_def select_events_def dest: in_set_takeD)
  moreover have "sorted (map (list_order f) rows)"
    by (simp add: rows_def select_events_def sorted_take_sort_key)
  moreover have "length rows \<le> 500"
    using n by (simp add: rows_def select_events_def)
  moreover have "int (length rows) = clamp_limit 500 100 (fl_Limit f) \<and>
      (\<forall>q \<in> set rows. list_order f q \<le> list_order f r)"
    if "r \<in> set (trace_events s)" "event_matches f r" "r \<notin> set rows" for r
    using limit_keeps_least [of r "filter (event_matches f) (trace_events s)" ?n "list_order f"] that n
    by (simp add: rows_def select_events_def)
  ultimately show ?thesis by blast
qed

definition sample_ext :: ext where
  "sample_ext = \<lparr>x_fmt_float = (\<lambda>_. ''0''), x_jsonb = (\<lambda>m. m), x_pg_text = (\<lambda>_. []),
     x_uuid_parse = (\<lambda>_. None)\<rparr>"

lemma enc_sample [simp]: "enc_jsonb sample_ext [] = Some []"
  by (simp add: enc_jsonb_def sample_ext_def json_object_def sort_by_key_def)

definition sample_row :: "uuid \<Rightarrow> int \<Rightarrow> string \<Rightarrow> trace_row" where
  "sample_row u t key = \<lparr>te_id = u, te_occurred_at = t, te_event_type = ''CHERRY_RECEIVED'',
     te_entity_type = ''batch'', te_entity_business_id = ''B-1'', te_entity_id = None,
     te_related_ids = [], te_actor_user_id = None, te_source_service = ''iag-supply-chain'',
     te_payload = [], te_idempotency_key = Some key, te_created_at = t\<rparr>"

definition sample_ledger :: db where
  "sample_ledger = (empty_db [] 100)\<lparr>trace_events := [sample_row 1 5 ''k1'', sample_row 2 9 ''k2''],
     fresh_id := 3\<rparr>"

theorem list_events_window_witness:
  "ListEvents no_filter sample_ledger =
     (Inr (map listed_event [sample_row 2 9 ''k2'', sample_row 1 5 ''k1'']), sample_ledger) \<and>
   (\<exists>rows. map listed_event [sample_row 2 9 ''k2'', sample_row 1 5 ''k1''] = map listed_event rows \<and>
      sorted (map (list_order no_filter) rows) \<and> length rows \<le> 500)"
proof -
  have run: "ListEvents no_filter sample_ledger =
     (Inr (map listed_event [sample_row 2 9 ''k2'', sample_row 1 5 ''k1'']), sample_ledger)"
    by (simp add: ListEvents_def queryC_def sample_ledger_def empty_db_def next_io_def step_io_def
        select_events_def no_filter_def clamp_limit_def event_matches_def list_order_def
        entity_scope_def sample_row_def)
  from list_events_window [OF run] run show ?thesis by blast
qed

end
