(* ===== verification/GoCrypto.thy ===== *)
theory GoCrypto
  imports GoLib "HOL-Library.Word"
begin

unbundle bit_operations_syntax

text \<open>
  \<open>crypto/sha256\<close> and \<open>crypto/hmac\<close>: SHA-256 on 32-bit words and HMAC over it.  Everything the
  rest of the development knows of them is that a digest has 32 bytes; the security statements
  reduce to collisions between inputs that were really hashed.
\<close>

section \<open>SHA-256\<close>

definition rotr32 :: "nat \<Rightarrow> 32 word \<Rightarrow> 32 word" where
  "rotr32 n x = drop_bit n x OR push_bit (32 - n) x"

text \<open>
  The constants are the first 32 bits of the fractional parts of the cube roots (square roots, for
  the initial state) of the first primes.  \<open>root_bits k n b acc\<close> fixes the bits of the \<open>k\<close>-th root of
  \<open>n\<close> from bit \<open>b - 1\<close> down; the integer part falls off with the conversion to 32 bits.
\<close>

definition small_primes :: "nat list" where
  "small_primes = filter (\<lambda>n. list_all (\<lambda>d. n mod d \<noteq> 0) [2..<n]) [2..<312]"

fun root_bits :: "nat \<Rightarrow> nat \<Rightarrow> nat \<Rightarrow> nat \<Rightarrow> nat" where
  "root_bits k n 0 acc = acc"
| "root_bits k n (Suc b) acc = root_bits k n b (if (acc + 2 ^ b) ^ k \<le> n then acc + 2 ^ b else acc)"

definition frac_root :: "nat \<Rightarrow> nat \<Rightarrow> 32 word" where
  "frac_root k p = word_of_nat (root_bits k (p * 2 ^ (32 * k)) 40 0)"

definition sha_K :: "32 word list" where
  "sha_K = map (frac_root 3) small_primes"

record sha_state =
  st_a :: "32 word"
  st_b :: "32 word"
  st_c :: "32 word"
  st_d :: "32 word"
  st_e :: "32 word"
  st_f :: "32 word"
  st_g :: "32 word"
  st_h :: "32 word"

definition sha_init :: sha_state where
  "sha_init = (let h = map (frac_root 2) (take 8 small_primes) in
     \<lparr>st_a = h ! 0, st_b = h ! 1, st_c = h ! 2, st_d = h ! 3,
      st_e = h ! 4, st_f = h ! 5, st_g = h ! 6, st_h = h ! 7\<rparr>)"

definition be_bytes :: "nat \<Rightarrow> nat \<Rightarrow> string" where
  "be_bytes k n = map (\<lambda>i. byte (n div 256 ^ (k - 1 - i) mod 256)) [0..<k]"

text \<open>A 1 bit, zeros up to 8 bytes short of a multiple of 64, the bit length in 8 bytes.\<close>

definition sha_pad :: "string \<Rightarrow> string" where
  "sha_pad m = m @ [byte 0x80] @ replicate ((119 - length m mod 64) mod 64) (byte 0)
                 @ be_bytes 8 (8 * length m)"

fun words32 :: "string \<Rightarrow> 32 word list" where
  "words32 (a # b # c # d # xs) =
     word_of_nat (((of_char a * 256 + of_char b) * 256 + of_char c) * 256 + of_char d) # words32 xs"
| "words32 _ = []"

text \<open>The schedule grows at the end: word \<open>t\<close> from words \<open>t - 2\<close>, \<open>t - 7\<close>, \<open>t - 15\<close> and \<open>t - 16\<close>.\<close>

definition sched_step :: "32 word list \<Rightarrow> 32 word list" where
  "sched_step w = (let t = length w; x = w ! (t - 15); y = w ! (t - 2) in
     w @ [(rotr32 17 y XOR rotr32 19 y XOR drop_bit 10 y) + w ! (t - 7)
          + (rotr32 7 x XOR rotr32 18 x XOR drop_bit 3 x) + w ! (t - 16)])"

definition sha_round :: "32 word \<times> 32 word \<Rightarrow> sha_state \<Rightarrow> sha_state" where
  "sha_round kw s = (let
     t1 = st_h s + (rotr32 6 (st_e s) XOR rotr32 11 (st_e s) XOR rotr32 25 (st_e s))
            + ((st_e s AND st_f s) XOR (NOT (st_e s) AND st_g s)) + fst kw + snd kw;
     t2 = (rotr32 2 (st_a s) XOR rotr32 13 (st_a s) XOR rotr32 22 (st_a s))
            + ((st_a s AND st_b s) XOR (st_a s AND st_c s) XOR (st_b s AND st_c s))
     in \<lparr>st_a = t1 + t2, st_b = st_a s, st_c = st_b s, st_d = st_c s,
         st_e = st_d s + t1, st_f = st_e s, st_g = st_f s, st_h = st_g s\<rparr>)"

definition sha_block :: "32 word list \<Rightarrow> sha_state \<Rightarrow> sha_state" where
  "sha_block ws s = (let r = fold sha_round (zip sha_K ((sched_step ^^ 48) ws)) s in
     \<lparr>st_a = st_a s + st_a r, st_b = st_b s + st_b r, st_c = st_c s + st_c r, st_d = st_d s + st_d r,
      st_e = st_e s + st_e r, st_f = st_f s + st_f r, st_g = st_g s + st_g r, st_h = st_h s + st_h r\<rparr>)"

function sha_blocks :: "32 word list \<Rightarrow> sha_state \<Rightarrow> sha_state" where
  "sha_blocks ws s = (if length ws < 16 then s else sha_blocks (drop 16 ws) (sha_block (take 16 ws) s))"
  by pat_completeness auto
termination
  by (relation "measure (\<lambda>(ws, s). length ws)") auto

declare sha_blocks.simps [simp del]

definition sha256 :: "string \<Rightarrow> string" where
  "sha256 m = (let s = sha_blocks (words32 (sha_pad m)) sha_init in
     concat (map (\<lambda>w. be_bytes 4 (unat w)) [st_a s, st_b s, st_c s, st_d s, st_e s, st_f s, st_g s, st_h s]))"

lemma length_sha256 [simp]: "length (sha256 m) = 32"
  by (simp add: sha256_def Let_def be_bytes_def)

text \<open>
  Two inputs that were hashed, one for each of two computations, and that collide.  \<open>xs\<close> and \<open>ys\<close>
  are finite lists of inputs, so this is not the empty statement that SHA-256 has collisions.
\<close>

definition sha256_collision :: "string list \<Rightarrow> string list \<Rightarrow> bool" where
  "sha256_collision xs ys \<longleftrightarrow> (\<exists>x \<in> set xs. \<exists>y \<in> set ys. x \<noteq> y \<and> sha256 x = sha256 y)"

lemma sha256_collisionI:
  "x \<in> set xs \<Longrightarrow> y \<in> set ys \<Longrightarrow> sha256 x = sha256 y \<Longrightarrow> x \<noteq> y \<Longrightarrow> sha256_collision xs ys"
  by (auto simp: sha256_collision_def)

lemma sha256_collision_append:
  "sha256_collision (xs @ zs) ys \<longleftrightarrow> sha256_collision xs ys \<or> sha256_collision zs ys"
  "sha256_collision xs (ys @ zs) \<longleftrightarrow> sha256_collision xs ys \<or> sha256_collision xs zs"
  by (auto simp: sha256_collision_def)

lemma sha256_collision_mono:
  "sha256_collision xs ys \<Longrightarrow> set xs \<subseteq> set xs' \<Longrightarrow> set ys \<subseteq> set ys' \<Longrightarrow> sha256_collision xs' ys'"
  unfolding sha256_collision_def by blast

section \<open>HMAC-SHA256\<close>

definition xor_byte :: "nat \<Rightarrow> char \<Rightarrow> char" where
  "xor_byte k c = byte (k XOR of_char c)"

definition hmac_sha256 :: "string \<Rightarrow> string \<Rightarrow> string" where
  "hmac_sha256 key m = (let
     k0 = (if length key > 64 then sha256 key else key);
     k = k0 @ replicate (64 - length k0) (byte 0)
     in sha256 (map (xor_byte 0x5c) k @ sha256 (map (xor_byte 0x36) k @ m)))"

end
