(* ===== verification/HashChain.thy ===== *)
theory HashChain
  imports GoCrypto
begin

text \<open>
  \<open>internal/hashchain/hashchain.go\<close>: the hash of a custody block.  The block is rendered as seven
  fields joined by bars and hashed with SHA-256.  Shown here: the rendering can be read back, so two
  blocks with the same rendering agree in every field, as long as the batch id, the action and the
  actor contain no bar; with a bar they need not.
\<close>

definition GenesisHash :: string where
  "GenesisHash = replicate 64 (CHR ''0'')"

text \<open>The text that is hashed.  \<open>metricsJSON, _ := json.Marshal(...)\<close>: an error leaves it empty.\<close>

definition metrics_json :: "(f64 \<Rightarrow> string) \<Rightarrow> gmap \<Rightarrow> string" where
  "metrics_json ff qualityMetrics =
     (case json_marshal ff (GMap qualityMetrics) of None \<Rightarrow> [] | Some t \<Rightarrow> t)"

definition event_payload :: "int \<Rightarrow> int \<Rightarrow> string \<Rightarrow> string \<Rightarrow> string \<Rightarrow> string \<Rightarrow> string \<Rightarrow> string" where
  "event_payload index timestampUnixMilli batchID action actor metricsJSON prevHash =
     int_str index @ ''|'' @ int_str timestampUnixMilli @ ''|'' @ batchID @ ''|'' @ action @ ''|'' @
     actor @ ''|'' @ metricsJSON @ ''|'' @ prevHash"

definition EventHash ::
  "(f64 \<Rightarrow> string) \<Rightarrow> int \<Rightarrow> int \<Rightarrow> string \<Rightarrow> string \<Rightarrow> string \<Rightarrow> gmap \<Rightarrow> string \<Rightarrow> string" where
  "EventHash ff index timestampUnixMilli batchID action actor qualityMetrics prevHash =
     hex_encode (sha256 (event_payload index timestampUnixMilli batchID action actor
                           (metrics_json ff qualityMetrics) prevHash))"

abbreviation bar :: char where
  "bar \<equiv> CHR ''|''"

section \<open>Reading a rendered block back\<close>

lemma split_at_bar:
  assumes "xs @ bar # t = ys @ bar # u" and "bar \<notin> set xs" and "bar \<notin> set ys"
  shows "xs = ys \<and> t = u"
  using assms
proof (induction xs arbitrary: ys)
  case Nil
  then show ?case by (cases ys) auto
next
  case (Cons x xs)
  then show ?case by (cases ys) auto
qed

lemma length_GenesisHash [simp]: "length GenesisHash = 64"
  by (simp add: GenesisHash_def)

lemma length_EventHash [simp]: "length (EventHash ff i t b a c m p) = 64"
  by (simp add: EventHash_def)

lemma event_payload_index:
  assumes "event_payload i t b a c m p = event_payload i' t' b' a' c' m' p'"
  shows "i = i' \<and> t = t'"
proof -
  from assms have "int_str i = int_str i' \<and>
      int_str t @ bar # (b @ ''|'' @ a @ ''|'' @ c @ ''|'' @ m @ ''|'' @ p) =
      int_str t' @ bar # (b' @ ''|'' @ a' @ ''|'' @ c' @ ''|'' @ m' @ ''|'' @ p')"
    unfolding event_payload_def by (intro split_at_bar) (auto simp: int_str_no_bar)
  then show ?thesis
    using split_at_bar int_str_no_bar int_str_inject by blast
qed

lemma event_payload_prev:
  assumes "event_payload i t b a c m p = event_payload i' t' b' a' c' m' p'" and "length p = length p'"
  shows "p = p'"
proof -
  from assms(1) have "(int_str i @ ''|'' @ int_str t @ ''|'' @ b @ ''|'' @ a @ ''|'' @ c @ ''|'' @ m @ ''|'') @ p
      = (int_str i' @ ''|'' @ int_str t' @ ''|'' @ b' @ ''|'' @ a' @ ''|'' @ c' @ ''|'' @ m' @ ''|'') @ p'"
    by (simp add: event_payload_def)
  with assms(2) show ?thesis using append_eq_append_conv by blast
qed

lemma event_payload_fields:
  assumes eq: "event_payload i t b a c m p = event_payload i' t' b' a' c' m' p'"
    and len: "length p = length p'"
    and bars: "bar \<notin> set b" "bar \<notin> set a" "bar \<notin> set c" "bar \<notin> set b'" "bar \<notin> set a'" "bar \<notin> set c'"
  shows "i = i' \<and> t = t' \<and> b = b' \<and> a = a' \<and> c = c' \<and> m = m' \<and> p = p'"
proof -
  have it: "i = i'" "t = t'" using event_payload_index [OF eq] by auto
  have p: "p = p'" using event_payload_prev [OF eq len] .
  from eq it p have e1: "b @ bar # (a @ bar # (c @ bar # m)) = b' @ bar # (a' @ bar # (c' @ bar # m'))"
    by (simp add: event_payload_def)
  from split_at_bar [OF e1 bars(1,4)] have b: "b = b'" and
    e2: "a @ bar # (c @ bar # m) = a' @ bar # (c' @ bar # m')" by auto
  from split_at_bar [OF e2 bars(2,5)] have a: "a = a'" and e3: "c @ bar # m = c' @ bar # m'" by auto
  from split_at_bar [OF e3 bars(3,6)] it p b a show ?thesis by simp
qed

section \<open>Properties\<close>

text \<open>
  C28. The block hash commits to every field: two blocks with the same \<open>EventHash\<close>, whose batch ids,
  actions and actors contain no bar and whose previous hashes are equally long, agree in index, time,
  batch, action, actor, marshalled metrics and previous hash, or their two renderings are a SHA-256
  collision.
\<close>

theorem event_hash_binding:
  assumes "EventHash ff i t b a c m p = EventHash ff i' t' b' a' c' m' p'"
    and "length p = length p'"
    and "bar \<notin> set b" and "bar \<notin> set a" and "bar \<notin> set c"
    and "bar \<notin> set b'" and "bar \<notin> set a'" and "bar \<notin> set c'"
  shows "(i = i' \<and> t = t' \<and> b = b' \<and> a = a' \<and> c = c' \<and>
          metrics_json ff m = metrics_json ff m' \<and> p = p') \<or>
         sha256_collision [event_payload i t b a c (metrics_json ff m) p]
                          [event_payload i' t' b' a' c' (metrics_json ff m') p']"
proof (cases "event_payload i t b a c (metrics_json ff m) p =
              event_payload i' t' b' a' c' (metrics_json ff m') p'")
  case True
  from event_payload_fields [OF this assms(2-8)] show ?thesis by simp
next
  case False
  with assms(1) show ?thesis
    by (intro disjI2) (auto simp: EventHash_def hex_encode_inject sha256_collision_def)
qed

theorem event_hash_binding_witness:
  "(1 = (1::int) \<and> 5 = (5::int) \<and> ''B-1'' = ''B-1'' \<and> ''CHERRY_RECEIVED'' = ''CHERRY_RECEIVED'' \<and>
    [] = ([] :: string) \<and> metrics_json (\<lambda>_. []) [] = metrics_json (\<lambda>_. []) [] \<and> GenesisHash = GenesisHash) \<or>
   sha256_collision [event_payload 1 5 ''B-1'' ''CHERRY_RECEIVED'' [] (metrics_json (\<lambda>_. []) []) GenesisHash]
                    [event_payload 1 5 ''B-1'' ''CHERRY_RECEIVED'' [] (metrics_json (\<lambda>_. []) []) GenesisHash]"
  by (rule event_hash_binding [of "\<lambda>_. []" 1 5 "''B-1''" "''CHERRY_RECEIVED''" "[]" "[]" GenesisHash
        1 5 "''B-1''" "''CHERRY_RECEIVED''" "[]" "[]" GenesisHash]) simp_all

text \<open>
  The no-bar condition of the rendering is needed: a bar in the batch id can move the border
  between batch id and action without changing the hash, so the hash does not tell the event types
  of the two blocks apart.
\<close>

theorem event_hash_bar_ambiguous:
  "EventHash ff i t (b @ ''|'' @ x) a c m p = EventHash ff i t b (x @ ''|'' @ a) c m p"
  by (simp add: EventHash_def event_payload_def)

end
