(* ===== verification/CustodyChain.thy ===== *)
theory CustodyChain
  imports EventStore HashChain
begin

text \<open>
  The tamper-evident custody chain: \<open>internal/store/chain.go\<close> and \<open>AppendEvent\<close> of
  \<open>internal/store/store.go\<close>, which extends the chain for batch events.

  Appends and the backfill run in a transaction under the same advisory lock, so whole
  transactions are the steps that interleave.  The chain is kept in insertion order; queries
  sort it by \<open>seq_index\<close> as their \<open>ORDER BY\<close> says.  \<open>seq_index\<close> is an \<open>int\<close>: a BIGINT that grows
  by one per row cannot reach \<open>2^63\<close>.
\<close>

section \<open>Data\<close>

record ChainBlock =
  cb_Index :: int
  cb_Timestamp :: int
  cb_BatchID :: string
  cb_Action :: string
  cb_Actor :: string
  cb_QualityMetrics :: gmap
  cb_PreviousHash :: string
  cb_Hash :: string
  cb_Nonce :: int

record ChainVerifyResult =
  vr_IsValid :: bool
  vr_Anomalies :: "string list"
  vr_CheckedCount :: nat

section \<open>Appending\<close>

text \<open>\<open>SELECT pg_advisory_xact_lock($1)\<close>: waits for its turn, changes no table.\<close>

definition chain_lock :: "('z db_scheme, unit) cmd" where
  "chain_lock = queryC (\<lambda>s. ())"

definition by_seq :: "chain_row list \<Rightarrow> chain_row list" where
  "by_seq = sort_key cc_seq_index"

text \<open>\<open>SELECT seq_index, event_hash ... ORDER BY seq_index DESC LIMIT 1\<close>, and the genesis values
  when there is no row.\<close>

definition chain_head :: "'z db_scheme \<Rightarrow> int \<times> string" where
  "chain_head s = (case sort_key (\<lambda>b. - cc_seq_index b) (custody_chain s) of
     [] \<Rightarrow> (0, GenesisHash) | b # _ \<Rightarrow> (cc_seq_index b, cc_event_hash b))"

text \<open>
  \<open>INSERT INTO custody_chain\<close>: primary key on \<open>seq_index\<close>, unique \<open>trace_event_id\<close> and
  \<open>event_hash\<close>, a foreign key to \<open>trace_events\<close>.
\<close>

definition insert_chain_sql :: "ext \<Rightarrow> chain_row \<Rightarrow> 'z db_scheme \<Rightarrow> err + (unit \<times> 'z db_scheme)" where
  "insert_chain_sql X b s =
     (case enc_jsonb X (cc_quality_metrics b) of None \<Rightarrow> Inl ErrDB
      | Some m \<Rightarrow>
          if list_ex (\<lambda>c. cc_seq_index c = cc_seq_index b \<or> cc_trace_event_id c = cc_trace_event_id b \<or>
                          cc_event_hash c = cc_event_hash b) (custody_chain s) \<or>
             \<not> list_ex (\<lambda>r. te_id r = cc_trace_event_id b) (trace_events s)
          then Inl ErrConflict
          else Inr ((), s\<lparr>custody_chain := custody_chain s @ [b\<lparr>cc_quality_metrics := m\<rparr>]\<rparr>))"

text \<open>The block that follows a head, with its hash.\<close>

definition make_block ::
  "ext \<Rightarrow> int \<times> string \<Rightarrow> uuid \<Rightarrow> int \<Rightarrow> string \<Rightarrow> string \<Rightarrow> string \<Rightarrow> gmap \<Rightarrow> chain_row" where
  "make_block X head eventId occurred batch action actor payload =
     (let seq = fst head + 1; prevHash = snd head in
      \<lparr>cc_seq_index = seq, cc_trace_event_id = eventId, cc_occurred_at = occurred,
       cc_batch_business_id = batch, cc_action = action, cc_actor = actor,
       cc_quality_metrics = payload, cc_prev_hash = prevHash,
       cc_event_hash = EventHash (x_fmt_float X) seq (UnixMilli occurred) batch action actor
                         payload prevHash\<rparr>)"

definition actor_string :: "uuid option \<Rightarrow> string" where
  "actor_string a = (case a of None \<Rightarrow> [] | Some u \<Rightarrow> uuid_string u)"

definition append_body :: "ext \<Rightarrow> AppendEventInput \<Rightarrow> ('z db_scheme, TraceEvent) cmd" where
  "append_body X i =
     bindC (wrapC ''custody chain lock'' chain_lock) (\<lambda>_.
     bindC (execC (insert_event_sql X i)) (\<lambda>ev.
       if ev_Inserted ev then
         bindC (queryC chain_head) (\<lambda>head.
         bindC (execC (insert_chain_sql X
                  (make_block X head (te_id ev) (te_occurred_at ev) (te_entity_business_id ev)
                     (te_event_type ev) (actor_string (in_ActorUserID i)) (or_empty (in_Payload i)))))
           (\<lambda>_. retC ev))
       else retC ev))"

definition appendEventChained :: "ext \<Rightarrow> AppendEventInput \<Rightarrow> ('z db_scheme, TraceEvent) cmd" where
  "appendEventChained X i = txC (append_body X i)"

definition AppendEvent :: "ext \<Rightarrow> bool \<Rightarrow> AppendEventInput \<Rightarrow> ('z db_scheme, TraceEvent) cmd" where
  "AppendEvent X chainEnabled i =
     bindC (getC now_us) (\<lambda>now.
       let i' = append_defaults now i in
       if chainEnabled \<and> EqualFold (in_EntityType i') ''batch'' then appendEventChained X i'
       else execC (insert_event_sql X i'))"

section \<open>Reading and verifying\<close>

definition to_block :: "chain_row \<Rightarrow> ChainBlock" where
  "to_block b = \<lparr>cb_Index = cc_seq_index b, cb_Timestamp = cc_occurred_at b,
     cb_BatchID = cc_batch_business_id b, cb_Action = cc_action b, cb_Actor = cc_actor b,
     cb_QualityMetrics = cc_quality_metrics b, cb_PreviousHash = cc_prev_hash b,
     cb_Hash = cc_event_hash b, cb_Nonce = 0\<rparr>"

definition ListChain :: "string \<Rightarrow> int \<Rightarrow> ('z db_scheme, ChainBlock list) cmd" where
  "ListChain batchID limit = queryC (\<lambda>s.
     map to_block (take (nat (clamp_limit 1000 500 limit))
       (by_seq (if batchID \<noteq> [] then filter (\<lambda>b. cc_batch_business_id b = batchID) (custody_chain s)
                else custody_chain s))))"

definition block_digest :: "ext \<Rightarrow> chain_row \<Rightarrow> string" where
  "block_digest X b = EventHash (x_fmt_float X) (cc_seq_index b) (UnixMilli (cc_occurred_at b))
     (cc_batch_business_id b) (cc_action b) (cc_actor b) (cc_quality_metrics b) (cc_prev_hash b)"

definition block_anomalies :: "ext \<Rightarrow> string \<Rightarrow> chain_row \<Rightarrow> string list" where
  "block_anomalies X expectedPrev b =
     (if cc_prev_hash b \<noteq> expectedPrev
      then [''block '' @ int_str (cc_seq_index b) @ '': prev_hash breaks linkage''] else []) @
     (if block_digest X b \<noteq> cc_event_hash b
      then [''block '' @ int_str (cc_seq_index b) @ '': event_hash does not match content''] else [])"

fun verify_loop :: "ext \<Rightarrow> string \<Rightarrow> chain_row list \<Rightarrow> ChainVerifyResult \<Rightarrow> ChainVerifyResult" where
  "verify_loop X expectedPrev [] res = res"
| "verify_loop X expectedPrev (b # bs) res =
     verify_loop X (cc_event_hash b) bs
       (res\<lparr>vr_Anomalies := vr_Anomalies res @ block_anomalies X expectedPrev b,
            vr_CheckedCount := vr_CheckedCount res + 1\<rparr>)"

definition verify_rows :: "ext \<Rightarrow> chain_row list \<Rightarrow> ChainVerifyResult" where
  "verify_rows X rows =
     (let res = verify_loop X GenesisHash rows
                  \<lparr>vr_IsValid = True, vr_Anomalies = [], vr_CheckedCount = 0\<rparr>
      in res\<lparr>vr_IsValid := vr_Anomalies res = []\<rparr>)"

definition VerifyChain :: "ext \<Rightarrow> ('z db_scheme, ChainVerifyResult) cmd" where
  "VerifyChain X = queryC (\<lambda>s. verify_rows X (by_seq (custody_chain s)))"

section \<open>Hash-linked lists\<close>

text \<open>
  A list of blocks is linked from a hash when each block carries the hash of its predecessor and
  its own hash is the digest of its content.
\<close>

fun linked :: "('b \<Rightarrow> 'h) \<Rightarrow> ('b \<Rightarrow> 'h) \<Rightarrow> ('b \<Rightarrow> 'h) \<Rightarrow> 'h \<Rightarrow> 'b list \<Rightarrow> bool" where
  "linked prev own digest h [] = True"
| "linked prev own digest h (b # bs) =
     (prev b = h \<and> digest b = own b \<and> linked prev own digest (own b) bs)"

fun head_from :: "('b \<Rightarrow> 'h) \<Rightarrow> 'h \<Rightarrow> 'b list \<Rightarrow> 'h" where
  "head_from own h [] = h"
| "head_from own h (b # bs) = head_from own (own b) bs"

lemma head_from_snoc [simp]: "head_from own h (bs @ [b]) = own b"
  by (induction bs arbitrary: h) simp_all

lemma linked_append [simp]:
  "linked prev own digest h (xs @ ys) \<longleftrightarrow>
     linked prev own digest h xs \<and> linked prev own digest (head_from own h xs) ys"
  by (induction xs arbitrary: h) auto

lemma head_from_last: "head_from own h bs = (if bs = [] then h else own (last bs))"
  by (induction bs arbitrary: h) auto

lemma linked_nth:
  "linked prev own digest h bs \<longleftrightarrow>
     (\<forall>k < length bs. digest (bs ! k) = own (bs ! k) \<and>
        prev (bs ! k) = (if k = 0 then h else own (bs ! (k - 1))))"
proof (induction bs rule: rev_induct)
  case (snoc b bs)
  let ?P = "\<lambda>xs k. digest (xs ! k) = own (xs ! k) \<and> prev (xs ! k) = (if k = 0 then h else own (xs ! (k - 1)))"
  have "head_from own h bs = (if length bs = 0 then h else own ((bs @ [b]) ! (length bs - 1)))"
    by (auto simp: head_from_last last_conv_nth nth_append)
  then have "linked prev own digest h (bs @ [b]) \<longleftrightarrow>
      linked prev own digest h bs \<and> ?P (bs @ [b]) (length bs)" by auto
  moreover have "?P (bs @ [b]) k = ?P bs k" if "k < length bs" for k
    using that by (simp add: nth_append less_imp_diff_less)
  ultimately have "linked prev own digest h (bs @ [b]) \<longleftrightarrow>
      (\<forall>k < length bs. ?P (bs @ [b]) k) \<and> ?P (bs @ [b]) (length bs)"
    unfolding snoc by blast
  also have "\<dots> \<longleftrightarrow> (\<forall>k < length (bs @ [b]). ?P (bs @ [b]) k)"
    unfolding length_append_singleton All_less_Suc by blast
  finally show ?case .
qed simp

lemma linked_digest: "linked prev own digest h bs \<Longrightarrow> b \<in> set bs \<Longrightarrow> digest b = own b"
  by (induction bs arbitrary: h) auto

text \<open>
  The interface a chain needs of its hash: a block has the hash it claims, the hash of its
  predecessor and a text that is hashed; equal digests mean equal texts or a collision, and equal
  texts mean equal previous hashes, when those have the length of a hash.
\<close>

locale hash_linked =
  fixes prev own digest :: "'b \<Rightarrow> 'h" and content :: "'b \<Rightarrow> 'x" and genesis :: 'h and sized :: "'h \<Rightarrow> bool"
    and collision :: "'b list \<Rightarrow> 'b list \<Rightarrow> bool"
  assumes digest_sized: "sized (digest b)" and genesis_sized: "sized genesis"
    and digest_binds: "digest b = digest c \<Longrightarrow> content b = content c \<or> collision [b] [c]"
    and content_prev: "content b = content c \<Longrightarrow> sized (prev b) \<Longrightarrow> sized (prev c) \<Longrightarrow> prev b = prev c"
    and collision_mono: "collision xs ys \<Longrightarrow> set xs \<subseteq> set xs' \<Longrightarrow> set ys \<subseteq> set ys' \<Longrightarrow> collision xs' ys'"
begin

lemma linked_sized:
  "linked prev own digest h bs \<Longrightarrow> sized h \<Longrightarrow> sized (head_from own h bs)"
proof (induction bs arbitrary: h)
  case (Cons b bs)
  then have "sized (own b)" by (metis digest_sized linked.simps(2))
  with Cons show ?case by simp
qed simp

text \<open>
  Two chains with the same head tell the same story, block by block from the end, unless a hash
  was broken: a collision between them, or a block that hashes to the genesis value.
\<close>

lemma same_head_same_chain:
  assumes "linked prev own digest genesis xs" and "linked prev own digest genesis ys"
    and "head_from own genesis xs = head_from own genesis ys"
  shows "map content xs = map content ys \<or> collision xs ys \<or>
         (\<exists>b \<in> set xs \<union> set ys. digest b = genesis)"
  using assms
proof (induction xs arbitrary: ys rule: rev_induct)
  case Nil
  then show ?case
    by (cases ys rule: rev_cases) auto
next
  case (snoc x xs)
  show ?case
  proof (cases ys rule: rev_cases)
    case Nil
    with snoc.prems show ?thesis by auto
  next
    case (snoc ys' y)
    with snoc.prems have d: "digest x = digest y"
      and l: "linked prev own digest genesis xs" "linked prev own digest genesis ys'"
      and p: "prev x = head_from own genesis xs" "prev y = head_from own genesis ys'" by auto
    from digest_binds [OF d] show ?thesis
    proof
      assume "collision [x] [y]"
      then have "collision (xs @ [x]) (ys' @ [y])" by (rule collision_mono) auto
      with snoc show ?thesis by blast
    next
      assume t: "content x = content y"
      with p l linked_sized genesis_sized have "prev x = prev y" by (metis content_prev)
      with p snoc.IH [OF l] have "map content xs = map content ys' \<or> collision xs ys' \<or>
          (\<exists>b \<in> set xs \<union> set ys'. digest b = genesis)" by simp
      then show ?thesis
      proof (elim disjE)
        assume "collision xs ys'"
        then have "collision (xs @ [x]) (ys' @ [y])" by (rule collision_mono) auto
        with snoc show ?thesis by blast
      qed (use t snoc in auto)
    qed
  qed
qed

end

definition block_text :: "ext \<Rightarrow> chain_row \<Rightarrow> string" where
  "block_text X b = event_payload (cc_seq_index b) (UnixMilli (cc_occurred_at b))
     (cc_batch_business_id b) (cc_action b) (cc_actor b)
     (metrics_json (x_fmt_float X) (cc_quality_metrics b)) (cc_prev_hash b)"

lemma block_digest_text: "block_digest X b = hex_encode (sha256 (block_text X b))"
  by (simp add: block_digest_def block_text_def EventHash_def)

interpretation cc: hash_linked cc_prev_hash cc_event_hash "block_digest X" "block_text X"
  GenesisHash "\<lambda>h. length h = 64"
  "\<lambda>xs ys. sha256_collision (map (block_text X) xs) (map (block_text X) ys)" for X
proof unfold_locales
  show "length (block_digest X b) = 64" for b by (simp add: block_digest_text)
  show "length GenesisHash = 64" by simp
  show "block_text X b = block_text X c \<or> sha256_collision (map (block_text X) [b]) (map (block_text X) [c])"
    if "block_digest X b = block_digest X c" for b c
    using that by (auto simp: block_digest_text hex_encode_inject sha256_collision_def)
  show "cc_prev_hash b = cc_prev_hash c"
    if "block_text X b = block_text X c" "length (cc_prev_hash b) = 64" "length (cc_prev_hash c) = 64" for b c
    using that event_payload_prev unfolding block_text_def by metis
  show "sha256_collision (map (block_text X) xs') (map (block_text X) ys')"
    if "sha256_collision (map (block_text X) xs) (map (block_text X) ys)"
      "set xs \<subseteq> set xs'" "set ys \<subseteq> set ys'" for xs ys xs' ys'
    using that(1) by (rule sha256_collision_mono) (use that(2,3) in auto)
qed

abbreviation chain_linked :: "ext \<Rightarrow> string \<Rightarrow> chain_row list \<Rightarrow> bool" where
  "chain_linked X \<equiv> linked cc_prev_hash cc_event_hash (block_digest X)"

section \<open>Verification is linkage\<close>

lemma block_anomalies_Nil:
  "block_anomalies X h b = [] \<longleftrightarrow> cc_prev_hash b = h \<and> block_digest X b = cc_event_hash b"
  by (simp add: block_anomalies_def)

lemma verify_loop_anomalies:
  "vr_Anomalies (verify_loop X h bs res) = [] \<longleftrightarrow> vr_Anomalies res = [] \<and> chain_linked X h bs"
  by (induction X h bs res rule: verify_loop.induct) (auto simp: block_anomalies_Nil)

lemma verify_loop_count:
  "vr_CheckedCount (verify_loop X h bs res) = vr_CheckedCount res + length bs"
  by (induction X h bs res rule: verify_loop.induct) auto

lemma verify_rows_spec:
  "vr_IsValid (verify_rows X rows) \<longleftrightarrow> chain_linked X GenesisHash rows"
  "vr_CheckedCount (verify_rows X rows) = length rows"
  "vr_IsValid (verify_rows X rows) \<longleftrightarrow> vr_Anomalies (verify_rows X rows) = []"
  by (simp_all add: verify_rows_def Let_def verify_loop_anomalies verify_loop_count)

section \<open>The chain invariant\<close>

text \<open>
  Blocks are numbered from one without gaps in the order they were added, linked from the genesis
  hash, at most one per event, and each belongs to a stored event.
\<close>

definition chain_ok :: "ext \<Rightarrow> 'z db_scheme \<Rightarrow> bool" where
  "chain_ok X s \<longleftrightarrow>
     map cc_seq_index (custody_chain s) = [1..int (length (custody_chain s))] \<and>
     chain_linked X GenesisHash (custody_chain s) \<and>
     distinct (map cc_trace_event_id (custody_chain s)) \<and>
     cc_trace_event_id ` set (custody_chain s) \<subseteq> te_id ` set (trace_events s)"

definition block_count :: "'z db_scheme \<Rightarrow> int" where
  "block_count s = int (length (custody_chain s))"

lemma tables_only_chain_ok: "tables_only (chain_ok X)"
  by (simp add: tables_only_def chain_ok_def)

lemma chain_ok_step_io [simp]: "chain_ok X (step_io s) = chain_ok X s"
  by (simp add: chain_ok_def)

lemma chain_ok_sorted: "chain_ok X s \<Longrightarrow> by_seq (custody_chain s) = custody_chain s"
  unfolding by_seq_def chain_ok_def by (simp add: sort_key_id)

lemma chain_ok_seqs:
  assumes "chain_ok X s" and "b \<in> set (custody_chain s)"
  shows "1 \<le> cc_seq_index b" and "cc_seq_index b \<le> block_count s"
proof -
  from assms(1) have "set (map cc_seq_index (custody_chain s)) = set [1..block_count s]"
    by (simp only: chain_ok_def block_count_def)
  then have "cc_seq_index b \<in> {1..block_count s}" using assms(2) by auto
  then show "1 \<le> cc_seq_index b" and "cc_seq_index b \<le> block_count s" by simp_all
qed

lemma sort_key_descending:
  fixes f :: "'a \<Rightarrow> int"
  assumes "sorted (map f xs)" and "distinct (map f xs)"
  shows "sort_key (\<lambda>x. - f x) xs = rev xs"
proof (rule sort_key_inj_key_eq)
  show "inj_on (\<lambda>x. - f x) (set xs)"
    using assms(2) by (auto simp: distinct_map inj_on_def)
  have "sorted_wrt (\<lambda>x y. f x \<le> f y) xs" using assms(1) by (simp add: sorted_map)
  then show "sorted (map (\<lambda>x. - f x) (rev xs))" by (simp add: sorted_map sorted_wrt_rev)
qed simp

lemma chain_head_ok:
  assumes "chain_ok X s"
  shows "chain_head s = (block_count s, head_from cc_event_hash GenesisHash (custody_chain s))"
proof -
  let ?c = "custody_chain s"
  from assms have seqs: "map cc_seq_index ?c = [1..int (length ?c)]" by (simp add: chain_ok_def)
  then have "sort_key (\<lambda>b. - cc_seq_index b) ?c = rev ?c"
    by (intro sort_key_descending) simp_all
  then show ?thesis
  proof (cases ?c rule: rev_cases)
    case (snoc bs b)
    with seqs have "map cc_seq_index (bs @ [b]) = [1..int (length bs) + 1]" by (simp add: add.commute)
    then have "cc_seq_index b = int (length bs) + 1"
      by (simp add: upto_rec2)
    with snoc \<open>sort_key _ _ = rev ?c\<close> show ?thesis by (simp add: chain_head_def block_count_def)
  qed (simp add: chain_head_def block_count_def)
qed

lemma chain_head_cong: "custody_chain s = custody_chain t \<Longrightarrow> chain_head s = chain_head t"
  by (simp add: chain_head_def)

lemma chain_head_step_io [simp]: "chain_head (step_io s) = chain_head s"
  by (simp add: chain_head_def)

lemma insert_chain_sql_Inr:
  "insert_chain_sql X b s = Inr (u, s') \<longleftrightarrow>
     (\<exists>m. enc_jsonb X (cc_quality_metrics b) = Some m \<and>
        (\<forall>c \<in> set (custody_chain s). cc_seq_index c \<noteq> cc_seq_index b \<and>
           cc_trace_event_id c \<noteq> cc_trace_event_id b \<and> cc_event_hash c \<noteq> cc_event_hash b) \<and>
        cc_trace_event_id b \<in> te_id ` set (trace_events s) \<and>
        s' = s\<lparr>custody_chain := custody_chain s @ [b\<lparr>cc_quality_metrics := m\<rparr>]\<rparr>)"
  by (auto simp: insert_chain_sql_def list_ex_iff split: option.splits intro: rev_image_eqI)

text \<open>Adding the block made for the head keeps the invariant.\<close>

lemma enc_jsonb_Some: "enc_jsonb X m = Some m' \<Longrightarrow> m' = x_jsonb X m"
  by (auto simp: enc_jsonb_def split: option.splits)

lemma stable_metrics:
  "jsonb_stable X m \<Longrightarrow> metrics_json (x_fmt_float X) (x_jsonb X m) = metrics_json (x_fmt_float X) m"
  by (simp add: jsonb_stable_def metrics_json_def)

lemma chain_ok_snoc:
  assumes ok: "chain_ok X s"
    and b: "b = make_block X (chain_head s) eid occ batch action actor payload"
    and st: "jsonb_stable X payload"
    and ins: "insert_chain_sql X b s = Inr (u, s')"
  shows "chain_ok X s'"
proof -
  let ?c = "custody_chain s"
  from ins obtain m where m: "enc_jsonb X (cc_quality_metrics b) = Some m"
    and new: "\<forall>c \<in> set ?c. cc_trace_event_id c \<noteq> cc_trace_event_id b \<and> cc_event_hash c \<noteq> cc_event_hash b"
    and fk: "cc_trace_event_id b \<in> te_id ` set (trace_events s)"
    and s': "s' = s\<lparr>custody_chain := ?c @ [b\<lparr>cc_quality_metrics := m\<rparr>]\<rparr>"
    by (auto simp: insert_chain_sql_Inr)
  from b m st have dig: "block_digest X (b\<lparr>cc_quality_metrics := m\<rparr>) = cc_event_hash b"
    by (auto simp: make_block_def Let_def block_digest_def EventHash_def stable_metrics
        dest!: enc_jsonb_Some)
  have seq: "cc_seq_index b = int (length ?c) + 1" and pr: "cc_prev_hash b = head_from cc_event_hash GenesisHash ?c"
    using b chain_head_ok [OF ok] by (simp_all add: make_block_def Let_def block_count_def)
  have "[1..1 + int (length ?c)] = [1..int (length ?c)] @ [1 + int (length ?c)]"
    by (simp add: upto_rec2)
  with ok seq pr dig new fk show ?thesis
    unfolding s' chain_ok_def by (auto simp: add.commute)
qed

section \<open>What an append does\<close>

lemma draws_insert_event: "draws_ids (execC (insert_event_sql X i))"
  by (rule draws_execC) (auto elim!: insert_event_sql_Inr)

lemma draws_insert_chain: "draws_ids (execC (insert_chain_sql X b))"
  by (rule draws_execC) (auto simp: insert_chain_sql_Inr)

lemma draws_append_body: "draws_ids (append_body X i)"
  unfolding append_body_def chain_lock_def
  by (intro keeps_intros draws_insert_event draws_insert_chain)

text \<open>The block an input gets on a head.\<close>

definition input_block :: "ext \<Rightarrow> int \<times> string \<Rightarrow> AppendEventInput \<Rightarrow> trace_row \<Rightarrow> chain_row" where
  "input_block X head i r =
     make_block X head (te_id r) (te_occurred_at r) (te_entity_business_id r) (te_event_type r)
       (actor_string (in_ActorUserID i)) (or_empty (in_Payload i))"

lemma append_body_Inr:
  assumes "append_body X i s = (Inr ev, s')"
  obtains (replay) r where "stored_under i (trace_events s) = Some r" "ev = returned_event i r False"
      "ticks s s'"
  | (new) rel pay r t s1 where "stored_under i (trace_events s) = None"
      "r = new_row i rel pay t" "ticks s t" "fresh_id t = fresh_id s"
      "ev = returned_event i r True"
      "ticks (t\<lparr>trace_events := trace_events s @ [r], fresh_id := Suc (fresh_id s)\<rparr>) s1"
      "insert_chain_sql X (input_block X (chain_head s) i r) s1 = Inr ((), s')"
      "pay = x_jsonb X (or_empty (in_Payload i))"
proof -
  from assms obtain s1 where
    ex: "execC (insert_event_sql X i) (step_io s) = (Inr ev, s1)" and
    rest: "(if ev_Inserted ev then
         bindC (queryC chain_head) (\<lambda>head.
         bindC (execC (insert_chain_sql X
                  (make_block X head (te_id ev) (te_occurred_at ev) (te_entity_business_id ev)
                     (te_event_type ev) (actor_string (in_ActorUserID i)) (or_empty (in_Payload i)))))
           (\<lambda>_. retC ev))
       else retC ev) s1 = (Inr ev, s')"
    unfolding append_body_def chain_lock_def
    by (auto simp: bindC_Inr_iff queryC_Inr_iff retC_def split: if_splits)
  from ex have sql: "insert_event_sql X i (step_io (step_io s)) = Inr (ev, s1)"
    by (simp add: execC_Inr_iff)
  have tt: "ticks s (step_io (step_io s))" by (rule ticks_trans [OF ticks_step_io ticks_step_io])
  from sql show thesis
  proof (cases rule: insert_event_sql_Inr)
    case (replay r)
    with rest tt show ?thesis by (intro that(1) [of r]) (auto simp: returned_event_def retC_def)
  next
    case (new rel pay)
    let ?t = "step_io (step_io s)" and ?r = "new_row i rel pay (step_io (step_io s))"
    have hd: "chain_head s1 = chain_head s" by (rule chain_head_cong) (simp add: new(5))
    have ev: "ev_Inserted ev" "te_id ev = te_id ?r" "te_occurred_at ev = te_occurred_at ?r"
      "te_entity_business_id ev = te_entity_business_id ?r" "te_event_type ev = te_event_type ?r"
      by (simp_all add: new(4) returned_event_def)
    from rest have "insert_chain_sql X (input_block X (chain_head s) i ?r) (step_io (step_io s1)) = Inr ((), s')"
      by (simp add: bindC_Inr_iff queryC_Inr_iff execC_Inr_iff retC_def input_block_def hd ev)
    moreover have "ticks s1 (step_io (step_io s1))" by (rule ticks_trans [OF ticks_step_io ticks_step_io])
    ultimately show ?thesis using new tt
      by (intro that(2) [of ?r rel pay ?t "step_io (step_io s1)"])
         (auto dest: enc_jsonb_Some)
  qed
qed

lemma ledger_grows:
  assumes "ledger_ok s" and "stored_under i (trace_events s) = None" and "r = new_row i rel pay t"
    and "fresh_id t = fresh_id s" and "trace_events s' = trace_events s @ [r]" and "Suc (fresh_id s) \<le> fresh_id s'"
  shows "ledger_ok s'"
proof -
  have "Some k \<notin> te_idempotency_key ` set (trace_events s)" if "in_IdempotencyKey i = Some k" for k
    using stored_under_None [OF assms(2) that] by (auto dest: sym)
  with assms show ?thesis
    by (cases "in_IdempotencyKey i") (auto simp: ledger_ok_def new_row_def intro: less_trans)
qed

text \<open>
  The outcome of \<open>appendEventChained\<close> under any script: nothing stored, or one event and one block,
  linked to each other and to the head.
\<close>

lemma appendEventChained_effect:
  obtains (same) "ticks s (snd (appendEventChained X i s))"
      "\<And>ev. fst (appendEventChained X i s) = Inr ev \<Longrightarrow>
         \<exists>r. stored_under i (trace_events s) = Some r \<and> ev = returned_event i r False"
  | (grown) r rel t pay s1 s' where "stored_under i (trace_events s) = None"
      "r = new_row i rel pay t" "pay = x_jsonb X (or_empty (in_Payload i))"
      "ticks s t" "fresh_id t = fresh_id s"
      "ticks (t\<lparr>trace_events := trace_events s @ [r], fresh_id := Suc (fresh_id s)\<rparr>) s1"
      "insert_chain_sql X (input_block X (chain_head s) i r) s1 = Inr ((), s')"
      "ticks s' (snd (appendEventChained X i s))"
      "fst (appendEventChained X i s) \<in> {Inl ErrDB, Inr (returned_event i r True)}"
proof (cases rule: txC_effect [OF draws_append_body, of X i s, case_names none all])
  case (none e)
  then show ?thesis by (intro that(1)) (simp_all add: appendEventChained_def)
next
  case (all ev s2)
  from all(1) show ?thesis
  proof (cases rule: append_body_Inr)
    case (replay r)
    then have "ticks s (step_io s2)" by (meson ticks_step_io ticks_trans)
    with all replay show ?thesis by (intro that(1)) (auto simp: appendEventChained_def)
  next
    case (new rel pay r t s1)
    have hd: "chain_head (step_io s) = chain_head s" by (rule chain_head_cong) simp
    from new all show ?thesis
      by (intro that(2) [of r rel pay t s1 s2])
         (auto simp: appendEventChained_def hd intro: ticks_trans [OF ticks_step_io])
  qed
qed

lemma or_empty_defaults [simp]:
  "or_empty (in_Payload (append_defaults now i)) = or_empty (in_Payload i)"
  "or_empty (in_RelatedIDs (append_defaults now i)) = or_empty (in_RelatedIDs i)"
  "in_IdempotencyKey (append_defaults now i) = in_IdempotencyKey i"
  "in_EntityType (append_defaults now i) = in_EntityType i"
  "in_ActorUserID (append_defaults now i) = in_ActorUserID i"
  by (simp_all add: append_defaults_def or_empty_def)

lemma stored_under_defaults [simp]: "stored_under (append_defaults now i) = stored_under i"
  by (rule ext) (simp add: stored_under_def)

definition store_ok :: "ext \<Rightarrow> 'z db_scheme \<Rightarrow> bool" where
  "store_ok X s \<longleftrightarrow> ledger_ok s \<and> chain_ok X s"

lemma tables_only_store_ok: "tables_only (store_ok X)"
  using tables_only_ledger tables_only_chain_ok [of X] unfolding tables_only_def store_ok_def by blast

lemma store_ok_ticks: "ticks s s' \<Longrightarrow> store_ok X s \<Longrightarrow> store_ok X s'"
  by (rule tables_only_ticks [OF tables_only_store_ok])

lemma store_ok_grows:
  assumes "store_ok X s" and "stored_under i (trace_events s) = None" and "r = new_row i rel pay t"
    and "fresh_id t = fresh_id s" and "trace_events s' = trace_events s @ [r]" and "Suc (fresh_id s) \<le> fresh_id s'"
    and "custody_chain s' = custody_chain s"
  shows "store_ok X s'"
  using assms ledger_grows [OF _ assms(2-6)] by (auto simp: store_ok_def chain_ok_def)

lemma keeps_appendEventChained:
  assumes "jsonb_stable X (or_empty (in_Payload i))"
  shows "keeps (store_ok X) (appendEventChained X i)"
proof (rule keepsI)
  fix s :: "'a db_scheme" assume ok: "store_ok X s"
  show "store_ok X (snd (appendEventChained X i s))"
  proof (cases rule: appendEventChained_effect [of s X i, case_names same grown])
    case same
    with ok show ?thesis using store_ok_ticks by blast
  next
    case (grown r rel t pay s1 s')
    have tr: "trace_events s1 = trace_events s @ [r]" "custody_chain s1 = custody_chain s"
      "Suc (fresh_id s) \<le> fresh_id s1"
      using ticks_db(1,2,13) [OF grown(6)] ticks_db(2) [OF grown(4)] by simp_all
    have s1: "store_ok X s1" by (rule store_ok_grows [OF ok grown(1,2,5) tr(1,3,2)])
    have "input_block X (chain_head s) i r = input_block X (chain_head s1) i r"
      by (simp add: chain_head_cong [OF tr(2)])
    with s1 grown(7) assms have "chain_ok X s'"
      by (metis chain_ok_snoc input_block_def store_ok_def)
    moreover from s1 grown(7) have "ledger_ok s'"
      by (auto simp: insert_chain_sql_Inr store_ok_def ledger_ok_def)
    ultimately show ?thesis using grown(8) store_ok_ticks by (auto simp: store_ok_def)
  qed
qed

lemma insert_event_store_ok:
  assumes "store_ok X s" and "insert_event_sql X' i s = Inr (ev, s')"
  shows "store_ok X s'"
  using assms(2)
proof (cases rule: insert_event_sql_Inr)
  case (new rel pay)
  then show ?thesis by (intro store_ok_grows [OF assms(1) new(3) refl refl]) simp_all
qed (use assms(1) in simp)

lemma keeps_AppendEvent:
  assumes "jsonb_stable X (or_empty (in_Payload i))"
  shows "keeps (store_ok X) (AppendEvent X ce i)"
  unfolding AppendEvent_def Let_def
  using assms
  by (intro keeps_intros keeps_appendEventChained keeps_execC tables_only_store_ok)
     (simp_all add: insert_event_store_ok)

section \<open>Properties of appends and of verification\<close>

text \<open>
  C1. Appending keeps the custody chain intact: from a state with a well-formed ledger and chain,
  \<open>AppendEvent\<close> leaves a well-formed ledger and chain whatever the database does (statements failing,
  acknowledgements lost, the transaction rolled back) and whatever it returns, and \<open>VerifyChain\<close>
  then reports a valid chain with every block checked, provided the payload survives JSONB.
\<close>

theorem append_keeps_chain:
  assumes "ledger_ok s" and "chain_ok X s" and "jsonb_stable X (or_empty (in_Payload i))"
    and "AppendEvent X ce i s = (r, s')" and "VerifyChain X s' = (Inr res, s'')"
  shows "ledger_ok s' \<and> chain_ok X s' \<and> vr_IsValid res \<and> vr_Anomalies res = [] \<and>
         vr_CheckedCount res = length (custody_chain s')"
proof -
  from assms have ok: "ledger_ok s'" "chain_ok X s'"
    using keepsD [OF keeps_AppendEvent [OF assms(3)], of s ce] by (auto simp: store_ok_def)
  from assms(5) have "res = verify_rows X (custody_chain s')"
    by (simp add: VerifyChain_def queryC_Inr_iff chain_ok_sorted [OF ok(2)])
  with ok show ?thesis
    using verify_rows_spec [of X "custody_chain s'"] by (simp add: chain_ok_def)
qed

definition sample_input :: AppendEventInput where
  "sample_input = \<lparr>in_OccurredAt = 5, in_EventType = ''CHERRY_RECEIVED'', in_EntityType = ''batch'',
     in_EntityBusinessID = ''B-1'', in_EntityID = None, in_RelatedIDs = None,
     in_ActorUserID = Some 7, in_SourceService = [], in_Payload = None,
     in_IdempotencyKey = Some ''k1''\<rparr>"

lemma empty_store_ok: "ledger_ok (empty_db sc t)" "chain_ok X (empty_db sc t)"
  by (simp_all add: ledger_ok_def chain_ok_def empty_db_def)

lemma sample_stable: "jsonb_stable sample_ext m"
  by (simp add: jsonb_stable_def sample_ext_def)

lemma sample_idem: "jsonb_idem sample_ext"
  by (simp add: jsonb_idem_def sample_ext_def)

text \<open>The state after one chained append to an empty database.\<close>

definition sample_event :: trace_row where
  "sample_event = new_row (append_defaults 100 sample_input) [] [] (empty_db [] 100)"

definition sample_state :: db where
  "sample_state = (empty_db [] 100)\<lparr>fresh_id := 2, trace_events := [sample_event],
     custody_chain := [input_block sample_ext (0, GenesisHash) sample_input sample_event]\<rparr>"

lemma sample_append:
  "AppendEvent sample_ext True sample_input (empty_db [] 100) =
     (Inr (returned_event (append_defaults 100 sample_input) sample_event True), sample_state)"
proof -
  let ?i = "append_defaults 100 sample_input" and ?s = "empty_db [] 100"
  have i: "or_empty (in_Payload sample_input) = []" "or_empty (in_RelatedIDs sample_input) = []"
    "in_EntityType sample_input = ''batch''"
    by (simp_all add: or_empty_def sample_input_def)
  have s: "script ?s = []" "now_us ?s = 100" "trace_events ?s = []" "custody_chain ?s = []" "fresh_id ?s = 1"
    by (simp_all add: empty_db_def)
  have st: "stored_under sample_input [] = None"
    by (simp add: stored_under_def split: option.split)
  have b: "append_body sample_ext ?i ?s = (Inr (returned_event ?i sample_event True), sample_state)"
    by (simp add: append_body_def chain_lock_def bindC_def handleC_def wrapC_def retC_def healthy s st i
        insert_event_sql_def sample_event_def Let_def insert_chain_sql_def chain_head_def
        returned_event_def sample_state_def input_block_def make_block_def empty_db_def new_row_def)
  have "script sample_state = []" by (simp add: sample_state_def s)
  with b show ?thesis
    by (simp add: AppendEvent_def bindC_def handleC_def getC_def s i EqualFold_def appendEventChained_def
        healthy_txC)
qed

lemma sample_store_ok: "store_ok sample_ext sample_state"
  using keepsD [OF keeps_AppendEvent [OF sample_stable], of "empty_db [] 100" True] sample_append
    empty_store_ok by (metis snd_conv store_ok_def)

theorem append_keeps_chain_witness:
  "\<exists>r s' res s''. AppendEvent sample_ext True sample_input (empty_db [] 100) = (r, s') \<and>
     VerifyChain sample_ext s' = (Inr res, s'') \<and> vr_IsValid res \<and>
     vr_CheckedCount res = length (custody_chain s') \<and> length (custody_chain s') = 1"
proof -
  have v: "VerifyChain sample_ext sample_state =
      (Inr (verify_rows sample_ext (by_seq (custody_chain sample_state))), sample_state)"
    by (simp add: VerifyChain_def healthy sample_state_def empty_db_def)
  have "length (custody_chain sample_state) = 1" by (simp add: sample_state_def)
  with append_keeps_chain [OF empty_store_ok sample_stable sample_append v] sample_append v
  show ?thesis by blast
qed

text \<open>
  The verdict of \<open>VerifyChain\<close> is exact, on any table whatever was done to it: it counts every
  block, and it says valid if and only if, in sequence order, every block carries the hash of the
  one before it (the first the genesis hash) and the hash of its own content.
\<close>

theorem verify_chain_exact:
  assumes "VerifyChain X s = (Inr res, s')"
  shows "vr_CheckedCount res = length (custody_chain s) \<and>
         (vr_IsValid res \<longleftrightarrow>
            (\<forall>k < length (custody_chain s).
               let b = by_seq (custody_chain s) ! k in
               block_digest X b = cc_event_hash b \<and>
               cc_prev_hash b = (if k = 0 then GenesisHash
                                 else cc_event_hash (by_seq (custody_chain s) ! (k - 1)))))"
proof -
  from assms have "res = verify_rows X (by_seq (custody_chain s))"
    by (simp add: VerifyChain_def queryC_Inr_iff)
  then show ?thesis
    using verify_rows_spec(1,2) [of X "by_seq (custody_chain s)"]
    by (simp add: linked_nth Let_def by_seq_def)
qed

theorem verify_chain_exact_witness:
  "\<exists>res. VerifyChain sample_ext sample_state = (Inr res, sample_state) \<and>
     vr_CheckedCount res = length (custody_chain sample_state) \<and> length (custody_chain sample_state) = 1"
proof -
  have v: "VerifyChain sample_ext sample_state =
      (Inr (verify_rows sample_ext (by_seq (custody_chain sample_state))), sample_state)"
    by (simp add: VerifyChain_def healthy sample_state_def empty_db_def)
  from verify_chain_exact [OF v] v show ?thesis by (simp add: sample_state_def)
qed

text \<open>
  C2. Tampering shows: if two states of the custody table both pass \<open>VerifyChain\<close> and have the same
  head hash, then block by block they render to the same text (index, time, batch, action, actor,
  metrics and previous hash), unless SHA-256 was broken on one of the blocks at hand: two different
  renderings collide, or a rendering hashes to the all-zero genesis value.
\<close>

theorem chain_tamper_evident:
  assumes "VerifyChain X s = (Inr r1, s')" and "vr_IsValid r1"
    and "VerifyChain X t = (Inr r2, t')" and "vr_IsValid r2"
    and "head_from cc_event_hash GenesisHash (by_seq (custody_chain s)) =
         head_from cc_event_hash GenesisHash (by_seq (custody_chain t))"
  shows "map (block_text X) (by_seq (custody_chain s)) = map (block_text X) (by_seq (custody_chain t)) \<or>
         sha256_collision (map (block_text X) (by_seq (custody_chain s)))
                          (map (block_text X) (by_seq (custody_chain t))) \<or>
         (\<exists>b \<in> set (custody_chain s) \<union> set (custody_chain t). block_digest X b = GenesisHash)"
proof -
  have "chain_linked X GenesisHash (by_seq (custody_chain s))"
    and "chain_linked X GenesisHash (by_seq (custody_chain t))"
    using assms(1-4) verify_rows_spec(1) by (auto simp: VerifyChain_def queryC_Inr_iff)
  from cc.same_head_same_chain [OF this assms(5)] show ?thesis by (simp add: by_seq_def)
qed

theorem chain_tamper_evident_witness:
  "map (block_text sample_ext) (by_seq (custody_chain sample_state)) =
     map (block_text sample_ext) (by_seq (custody_chain sample_state)) \<or>
   sha256_collision (map (block_text sample_ext) (by_seq (custody_chain sample_state)))
                    (map (block_text sample_ext) (by_seq (custody_chain sample_state))) \<or>
   (\<exists>b \<in> set (custody_chain sample_state) \<union> set (custody_chain sample_state).
      block_digest sample_ext b = GenesisHash)"
proof -
  have v: "VerifyChain sample_ext sample_state =
      (Inr (verify_rows sample_ext (by_seq (custody_chain sample_state))), sample_state)"
    by (simp add: VerifyChain_def healthy sample_state_def empty_db_def)
  have ok: "chain_ok sample_ext sample_state" using sample_store_ok by (simp add: store_ok_def)
  then have "vr_IsValid (verify_rows sample_ext (by_seq (custody_chain sample_state)))"
    unfolding verify_rows_spec(1) chain_ok_sorted [OF ok] by (simp add: chain_ok_def)
  from chain_tamper_evident [OF v this v this refl] show ?thesis .
qed

text \<open>
  What \<open>VerifyChain\<close> alone cannot see, and why heads are anchored: deleting any number of the
  newest blocks of a well-formed chain leaves a chain that still verifies.
\<close>

theorem chain_truncation_passes:
  assumes "chain_ok X s" and "VerifyChain X (s\<lparr>custody_chain := take n (custody_chain s)\<rparr>) = (Inr res, s')"
  shows "vr_IsValid res"
proof -
  let ?c = "custody_chain s"
  have "chain_linked X GenesisHash (take n ?c @ drop n ?c)" using assms(1) by (simp add: chain_ok_def)
  then have "chain_linked X GenesisHash (take n ?c)" by (simp only: linked_append)
  moreover have "sorted (map cc_seq_index (take n ?c))"
    using assms(1) by (simp add: chain_ok_def take_map [symmetric] sorted_wrt_take)
  ultimately show ?thesis
    using assms(2) verify_rows_spec(1) by (auto simp: VerifyChain_def queryC_Inr_iff by_seq_def sort_key_id)
qed

theorem chain_truncation_passes_witness:
  "\<exists>res. VerifyChain sample_ext (sample_state\<lparr>custody_chain := take 0 (custody_chain sample_state)\<rparr>) =
      (Inr res, sample_state\<lparr>custody_chain := take 0 (custody_chain sample_state)\<rparr>) \<and> vr_IsValid res \<and>
     custody_chain sample_state \<noteq> []"
proof -
  let ?t = "sample_state\<lparr>custody_chain := take 0 (custody_chain sample_state)\<rparr>"
  have v: "VerifyChain sample_ext ?t = (Inr (verify_rows sample_ext (by_seq (custody_chain ?t))), ?t)"
    by (simp add: VerifyChain_def healthy sample_state_def empty_db_def)
  have "chain_ok sample_ext sample_state" using sample_store_ok by (simp add: store_ok_def)
  from chain_truncation_passes [OF this v] v show ?thesis by (auto simp: sample_state_def)
qed

lemma AppendEvent_batch:
  "EqualFold (in_EntityType i) ''batch'' \<Longrightarrow>
   AppendEvent X True i s = appendEventChained X (append_defaults (now_us s) i) s"
  by (simp add: AppendEvent_def bindC_def handleC_def getC_def)

lemma AppendEvent_plain:
  "\<not> (ce \<and> EqualFold (in_EntityType i) ''batch'') \<Longrightarrow>
   AppendEvent X ce i s = execC (insert_event_sql X (append_defaults (now_us s) i)) s"
  by (auto simp: AppendEvent_def bindC_def handleC_def getC_def)

text \<open>
  C11. The event and its block are written together or not at all.  With the chain enabled, an
  append of a batch event, however the database behaves, either leaves both tables alone or adds
  exactly one event and exactly one block, the block for that event on the head of the chain, and
  no other table changes; and a call that returns an event says \<open>Inserted\<close> exactly when it added them.
\<close>

theorem append_atomic:
  assumes "EqualFold (in_EntityType i) ''batch''" and "AppendEvent X True i s = (res, s')"
  shows "(trace_events s' = trace_events s \<and> custody_chain s' = custody_chain s \<and>
          (\<forall>ev. res = Inr ev \<longrightarrow> \<not> ev_Inserted ev) \<or>
          (\<exists>r b. trace_events s' = trace_events s @ [r] \<and> custody_chain s' = custody_chain s @ [b] \<and>
             cc_trace_event_id b = te_id r \<and> cc_occurred_at b = te_occurred_at r \<and>
             cc_batch_business_id b = in_EntityBusinessID i \<and> cc_action b = in_EventType i \<and>
             (cc_seq_index b, cc_prev_hash b) = (fst (chain_head s) + 1, snd (chain_head s)) \<and>
             (\<forall>ev. res = Inr ev \<longrightarrow> ev_Inserted ev \<and> te_id ev = te_id r))) \<and>
         anchor_batches s' = anchor_batches s \<and> lot_qr_codes s' = lot_qr_codes s \<and>
         event_outbox s' = event_outbox s"
proof -
  let ?i = "append_defaults (now_us s) i"
  have run: "res = fst (appendEventChained X ?i s)" "s' = snd (appendEventChained X ?i s)"
    using assms by (simp_all add: AppendEvent_batch)
  show ?thesis
  proof (cases rule: appendEventChained_effect [of s X ?i, case_names same grown])
    case same
    then show ?thesis using run ticks_db [OF same(1)] by (auto simp: returned_event_def)
  next
    case (grown r rel t pay s1 s2)
    let ?b = "input_block X (chain_head s) ?i r"
    from grown(7) obtain m where s2: "s2 = s1\<lparr>custody_chain := custody_chain s1 @ [?b\<lparr>cc_quality_metrics := m\<rparr>]\<rparr>"
      by (auto simp: insert_chain_sql_Inr)
    have tables: "trace_events s' = trace_events s @ [r]" "custody_chain s' = custody_chain s @ [?b\<lparr>cc_quality_metrics := m\<rparr>]"
      "anchor_batches s' = anchor_batches s" "lot_qr_codes s' = lot_qr_codes s" "event_outbox s' = event_outbox s"
      using ticks_db [OF grown(8)] ticks_db [OF grown(6)] ticks_db [OF grown(4)] by (simp_all add: s2 run)
    have "cc_trace_event_id ?b = te_id r" "cc_occurred_at ?b = te_occurred_at r"
      "cc_batch_business_id ?b = in_EntityBusinessID i" "cc_action ?b = in_EventType i"
      "cc_seq_index ?b = fst (chain_head s) + 1" "cc_prev_hash ?b = snd (chain_head s)"
      using grown(2) by (simp_all add: input_block_def make_block_def Let_def new_row_def append_defaults_def)
    moreover have "\<forall>ev. res = Inr ev \<longrightarrow> ev_Inserted ev \<and> te_id ev = te_id r"
      using grown(9) run by (auto simp: returned_event_def)
    ultimately show ?thesis using tables by auto
  qed
qed

theorem append_atomic_witness:
  "\<exists>r b. trace_events sample_state = trace_events (empty_db [] 100) @ [r] \<and>
     custody_chain sample_state = custody_chain (empty_db [] 100) @ [b] \<and> cc_trace_event_id b = te_id r"
proof -
  have "EqualFold (in_EntityType sample_input) ''batch''"
    by (simp add: EqualFold_def sample_input_def)
  from append_atomic [OF this sample_append] show ?thesis
    by (auto simp: returned_event_def)
qed

lemma AppendEvent_stored:
  assumes "AppendEvent X ce i s = (Inr ev, s')" and "in_IdempotencyKey i = Some k"
  shows "\<exists>r. find (\<lambda>r. te_idempotency_key r = Some k) (trace_events s') = Some r \<and> te_id ev = te_id r"
    and "find (\<lambda>r. te_idempotency_key r = Some k) (trace_events s) = Some r \<Longrightarrow>
         ticks s s' \<and> ev = returned_event (append_defaults (now_us s) i) r False"
proof -
  let ?i = "append_defaults (now_us s) i" and ?f = "find (\<lambda>r. te_idempotency_key r = Some k)"
  have st: "stored_under ?i rows = ?f rows" "stored_under i rows = ?f rows" for rows
    using assms(2) by (simp_all add: stored_under_def)
  have snoc: "?f (trace_events s @ [r]) = Some r" if "?f (trace_events s) = None" "r = new_row ?i rel pay t" for r rel pay t
    using that assms(2) by (simp add: find_append new_row_def)
  have "(\<exists>r. ?f (trace_events s') = Some r \<and> te_id ev = te_id r) \<and>
        (\<forall>r. ?f (trace_events s) = Some r \<longrightarrow> ticks s s' \<and> ev = returned_event ?i r False)"
  proof (cases "ce \<and> EqualFold (in_EntityType i) ''batch''")
    case True
    with assms(1) have run: "fst (appendEventChained X ?i s) = Inr ev" "snd (appendEventChained X ?i s) = s'"
      by (simp_all add: AppendEvent_batch)
    show ?thesis
    proof (cases rule: appendEventChained_effect [of s X ?i, case_names same grown])
      case same
      then show ?thesis using run ticks_db(1) [OF same(1)] by (auto simp: returned_event_def st)
    next
      case (grown r rel t pay s1 s2)
      then have "trace_events s' = trace_events s @ [r]"
        using ticks_db(1) [OF grown(8)] ticks_db(1) [OF grown(6)] run by (auto simp: insert_chain_sql_Inr)
      with grown run snoc [OF _ grown(2)] show ?thesis by (auto simp: returned_event_def st)
    qed
  next
    case False
    with assms(1) have "insert_event_sql X ?i (step_io s) = Inr (ev, s')"
      by (simp add: AppendEvent_plain execC_Inr_iff)
    then show ?thesis
    proof (cases rule: insert_event_sql_Inr)
      case (new rel pay)
      then have "?f (trace_events s) = None" by (simp add: st)
      from snoc [OF this refl] have "?f (trace_events s') = Some (new_row ?i rel pay (step_io s))"
        by (simp add: new(5))
      with \<open>?f (trace_events s) = None\<close> new(4) show ?thesis by (simp add: returned_event_def)
    qed (auto simp: returned_event_def st)
  qed
  then show "\<exists>r. ?f (trace_events s') = Some r \<and> te_id ev = te_id r"
    and "?f (trace_events s) = Some r \<Longrightarrow> ticks s s' \<and> ev = returned_event ?i r False" by auto
qed

text \<open>
  C23. Replays are harmless: once an append with an idempotency key has returned an event, every
  later append with that key, for any input, on either path and after any events were added in
  between, changes no table, so in particular no second block is chained; and what it returns is, with
  \<open>Inserted\<close> false, the id, time, type, entity and source of the row stored under the key, and the
  replay's own related ids, payload and key (not the stored ones).
\<close>

theorem append_idempotent:
  assumes "AppendEvent X ce i s = (Inr ev, s1)" and "in_IdempotencyKey i = Some k"
    and "trace_events s2 = trace_events s1 @ later"
    and "AppendEvent X ce' i' s2 = (Inr ev', s3)" and "in_IdempotencyKey i' = Some k"
  shows "\<exists>r. r \<in> set (trace_events s1) \<and> te_idempotency_key r = Some k \<and> te_id r = te_id ev \<and>
      ev' = returned_event (append_defaults (now_us s2) i') r False \<and> te_id ev' = te_id ev \<and>
      \<not> ev_Inserted ev' \<and> ticks s2 s3"
proof -
  obtain r where r: "find (\<lambda>r. te_idempotency_key r = Some k) (trace_events s1) = Some r" "te_id ev = te_id r"
    using AppendEvent_stored(1) [OF assms(1,2)] by blast
  then have stored: "r \<in> set (trace_events s1)" "te_idempotency_key r = Some k"
    by (auto simp: find_Some_iff)
  from r(1) have "find (\<lambda>r. te_idempotency_key r = Some k) (trace_events s2) = Some r"
    by (simp add: assms(3) find_append)
  note replay = AppendEvent_stored(2) [OF assms(4,5) this]
  have "te_id ev' = te_id ev" "\<not> ev_Inserted ev'"
    using conjunct2 [OF replay] r(2) by (simp_all add: returned_event_def)
  with stored replay r(2) show ?thesis by (intro exI [of _ r]) simp
qed

definition replay_input :: AppendEventInput where
  "replay_input = sample_input\<lparr>in_EventType := ''OTHER'', in_Payload := Some [(''x'', GNil)]\<rparr>"

lemma sample_replay:
  "AppendEvent sample_ext False replay_input sample_state =
     (Inr (returned_event (append_defaults 100 replay_input) sample_event False), sample_state)"
proof -
  have "stored_under replay_input [sample_event] = Some sample_event"
    by (simp add: stored_under_def replay_input_def sample_event_def new_row_def sample_input_def append_defaults_def)
  moreover have "enc_jsonb sample_ext (or_empty (in_Payload replay_input)) = Some [(''x'', GNil)]"
    "enc_jsonb sample_ext (or_empty (in_RelatedIDs replay_input)) = Some []"
    by (simp_all add: replay_input_def sample_input_def or_empty_def enc_jsonb_def sample_ext_def json_object_def sort_by_key_def)
  ultimately show ?thesis
    by (simp add: AppendEvent_plain healthy sample_state_def empty_db_def insert_event_sql_def)
qed

theorem append_idempotent_witness:
  "\<exists>ev'. AppendEvent sample_ext False replay_input sample_state = (Inr ev', sample_state) \<and>
     te_id ev' = 1 \<and> te_event_type ev' = te_event_type sample_event \<and> te_payload ev' = [(''x'', GNil)] \<and>
     \<not> ev_Inserted ev'"
proof -
  have key: "in_IdempotencyKey sample_input = Some ''k1''" "in_IdempotencyKey replay_input = Some ''k1''"
    by (simp_all add: replay_input_def sample_input_def)
  let ?ev = "returned_event (append_defaults 100 replay_input) sample_event False"
  have "te_id ?ev = te_id sample_event \<and> \<not> ev_Inserted ?ev"
    using append_idempotent [OF sample_append key(1) _ sample_replay key(2), of "[]"]
    by (simp add: returned_event_def)
  moreover have "te_id sample_event = 1" by (simp add: sample_event_def new_row_def empty_db_def)
  moreover have "te_payload ?ev = [(''x'', GNil)]" "te_event_type ?ev = te_event_type sample_event"
    by (simp_all add: returned_event_def append_defaults_def or_empty_def replay_input_def sample_input_def)
  ultimately show ?thesis using sample_replay by auto
qed

text \<open>The insert of the next block can only be refused because its hash is already taken.\<close>

lemma block_text_index: "block_text X b = block_text X c \<Longrightarrow> cc_seq_index b = cc_seq_index c"
  unfolding block_text_def by (drule event_payload_index) simp

lemma insert_next_block:
  assumes ok: "chain_ok X s" and b: "b = make_block X (chain_head s) eid occ batch action actor payload"
    and m: "enc_jsonb X payload = Some m"
    and eid: "eid \<in> te_id ` set (trace_events s)" "eid \<notin> cc_trace_event_id ` set (custody_chain s)"
    and nc: "\<not> sha256_collision (map (block_text X) (custody_chain s)) [block_text X b]"
  shows "insert_chain_sql X b s =
     Inr ((), s\<lparr>custody_chain := custody_chain s @ [b\<lparr>cc_quality_metrics := m\<rparr>]\<rparr>)"
proof -
  have seq: "cc_seq_index b = int (length (custody_chain s)) + 1"
    using b chain_head_ok [OF ok] by (simp add: make_block_def Let_def block_count_def)
  have own: "cc_event_hash b = hex_encode (sha256 (block_text X b))"
    by (simp add: b make_block_def Let_def EventHash_def block_text_def)
  have "cc_seq_index c \<noteq> cc_seq_index b \<and> cc_event_hash c \<noteq> cc_event_hash b"
    if c: "c \<in> set (custody_chain s)" for c
  proof -
    from chain_ok_seqs [OF ok c] have "cc_seq_index c \<noteq> cc_seq_index b"
      by (simp add: seq block_count_def)
    moreover from this have "block_text X c \<noteq> block_text X b" using block_text_index by blast
    then have "sha256 (block_text X c) \<noteq> sha256 (block_text X b)"
      using nc c sha256_collisionI [of "block_text X c" "map (block_text X) (custody_chain s)" "block_text X b"
        "[block_text X b]"] by auto
    moreover have "block_digest X c = cc_event_hash c"
      using ok c linked_digest [of cc_prev_hash cc_event_hash "block_digest X" GenesisHash "custody_chain s" c]
      by (simp add: chain_ok_def)
    then have "cc_event_hash c = hex_encode (sha256 (block_text X c))" by (simp add: block_digest_text)
    ultimately show ?thesis by (simp add: own hex_encode_inject)
  qed
  moreover have "\<forall>c \<in> set (custody_chain s). cc_trace_event_id c \<noteq> eid" using eid(2) by auto
  ultimately show ?thesis
    using eid(1) m by (auto simp: insert_chain_sql_Inr b make_block_def Let_def)
qed



end
