(* ===== verification/ChainBackfill.thy ===== *)
theory ChainBackfill
  imports CustodyChain "HOL-Library.Product_Lexorder"
begin

text \<open>
  \<open>cmd/chain-backfill/main.go\<close>: the job that chains the batch events of a ledger that was filled
  before the chain was switched on.  Shown here: it keeps the chain well-formed under any database
  behaviour, chains every batch event exactly once or none at all, finds nothing to do when run
  again, and writes the block the runtime path would have written.
\<close>

section \<open>The job\<close>

text \<open>\<open>entity_type ILIKE 'batch'\<close>; the pattern has no wild cards.\<close>

definition ilike_batch :: "string \<Rightarrow> bool" where
  "ilike_batch s \<longleftrightarrow> map lower_ascii s = ''batch''"

definition unchained :: "'z db_scheme \<Rightarrow> trace_row list" where
  "unchained s =
     sort_key (\<lambda>r. (te_occurred_at r, te_created_at r, te_id r))
       (filter (\<lambda>r. ilike_batch (te_entity_type r) \<and>
                    \<not> list_ex (\<lambda>b. cc_trace_event_id b = te_id r) (custody_chain s)) (trace_events s))"

fun backfill_loop :: "ext \<Rightarrow> int \<times> string \<Rightarrow> trace_row list \<Rightarrow> ('z db_scheme, unit) cmd" where
  "backfill_loop X head [] = retC ()"
| "backfill_loop X head (p # ps) =
     (let b = make_block X head (te_id p) (te_occurred_at p) (te_entity_business_id p)
                (te_event_type p) (actor_string (te_actor_user_id p)) (te_payload p)
      in bindC (execC (insert_chain_sql X b))
           (\<lambda>_. backfill_loop X (cc_seq_index b, cc_event_hash b) ps))"

definition backfill_body :: "ext \<Rightarrow> bool \<Rightarrow> ('z db_scheme, bool \<times> nat) cmd" where
  "backfill_body X dryRun =
     bindC chain_lock (\<lambda>_.
     bindC (queryC chain_head) (\<lambda>head.
     bindC (queryC unchained) (\<lambda>batch.
       if dryRun then retC (False, length batch)
       else bindC (backfill_loop X head batch) (\<lambda>_. retC (True, length batch)))))"

definition backfill :: "ext \<Rightarrow> bool \<Rightarrow> ('z db_scheme, nat) cmd" where
  "backfill X dryRun = tx_earlyC (backfill_body X dryRun)"

section \<open>The loop\<close>

lemma draws_backfill_loop: "draws_ids (backfill_loop X head ps)"
  by (induction X head ps rule: backfill_loop.induct)
     (auto simp: Let_def intro!: keeps_intros draws_insert_chain)

definition stored_payloads_ok :: "ext \<Rightarrow> 'z db_scheme \<Rightarrow> bool" where
  "stored_payloads_ok X s \<longleftrightarrow> (\<forall>r \<in> set (trace_events s). x_jsonb X (te_payload r) = te_payload r)"

lemma stored_stable: "x_jsonb X m = m \<Longrightarrow> jsonb_stable X m"
  by (simp add: jsonb_stable_def)

text \<open>
  A run of the loop from the head of a well-formed chain that comes to its end has added one block
  per pending event, in order, and kept the chain well-formed.
\<close>

lemma backfill_loop_Inr:
  assumes "backfill_loop X head ps s = (Inr u, s')" and "chain_ok X s" and "head = chain_head s"
    and "\<forall>p \<in> set ps. x_jsonb X (te_payload p) = te_payload p"
  shows "chain_ok X s' \<and> trace_events s' = trace_events s \<and> fresh_id s' = fresh_id s \<and>
         map cc_trace_event_id (custody_chain s') = map cc_trace_event_id (custody_chain s) @ map te_id ps"
  using assms
proof (induction X head ps arbitrary: s rule: backfill_loop.induct)
  case (1 X head)
  then show ?case by (simp add: retC_def)
next
  case (2 X head p ps)
  define b where "b = make_block X head (te_id p) (te_occurred_at p) (te_entity_business_id p)
    (te_event_type p) (actor_string (te_actor_user_id p)) (te_payload p)"
  from "2.prems"(1) obtain s1 where ins: "insert_chain_sql X b (step_io s) = Inr ((), s1)"
    and rest: "backfill_loop X (cc_seq_index b, cc_event_hash b) ps s1 = (Inr u, s')"
    by (auto simp: Let_def bindC_Inr_iff execC_Inr_iff b_def)
  have ok: "chain_ok X (step_io s)" by (rule tables_only_step_io [OF tables_only_chain_ok "2.prems"(2)])
  have hd: "chain_head (step_io s) = head" using "2.prems"(3) by simp
  have ok1: "chain_ok X s1"
    using chain_ok_snoc [OF ok _ _ ins] "2.prems"(4) hd by (simp add: b_def stored_stable)
  from ins obtain m where s1: "s1 = (step_io s)\<lparr>custody_chain := custody_chain s @ [b\<lparr>cc_quality_metrics := m\<rparr>]\<rparr>"
    by (auto simp: insert_chain_sql_Inr)
  have "fst head = int (length (custody_chain s))"
    using arg_cong [OF chain_head_ok [OF ok], of fst] hd by (simp add: block_count_def)
  then have "chain_head s1 = (cc_seq_index b, cc_event_hash b)"
    using chain_head_ok [OF ok1]
    by (simp add: s1 block_count_def b_def make_block_def Let_def)
  from "2.IH" [OF b_def rest ok1 this [symmetric]] "2.prems"(4) show ?case
    by (simp add: s1 b_def make_block_def Let_def)
qed

lemma backfill_body_Inr:
  assumes "backfill_body X dry s = (Inr (c, n), s')" and "chain_ok X s" and "stored_payloads_ok X s"
  shows "n = length (unchained s) \<and> c = (\<not> dry) \<and> chain_ok X s' \<and> trace_events s' = trace_events s \<and>
         fresh_id s' = fresh_id s \<and>
         map cc_trace_event_id (custody_chain s') =
           map cc_trace_event_id (custody_chain s) @ (if dry then [] else map te_id (unchained s))"
proof -
  let ?t = "step_io (step_io (step_io s))"
  have un: "unchained t = unchained s" if "custody_chain t = custody_chain s" "trace_events t = trace_events s" for t :: "'a db_scheme"
    using that by (simp add: unchained_def)
  have hd: "chain_head ?t = chain_head s" "chain_head (step_io (step_io s)) = chain_head s"
    by simp_all
  have ok: "chain_ok X ?t" by (intro tables_only_step_io [OF tables_only_chain_ok] assms(2))
  show ?thesis
  proof (cases dry)
    case True
    with assms(1) ok un [of ?t] show ?thesis
      by (auto simp: backfill_body_def chain_lock_def bindC_Inr_iff queryC_Inr_iff retC_def)
  next
    case False
    with assms(1) un [of ?t] hd(2) have n: "c" "n = length (unchained s)"
      and loop: "backfill_loop X (chain_head s) (unchained s) ?t = (Inr (), s')"
      by (auto simp: backfill_body_def chain_lock_def bindC_Inr_iff queryC_Inr_iff retC_def)
    have "\<forall>p \<in> set (unchained s). x_jsonb X (te_payload p) = te_payload p"
      using assms(3) by (auto simp: unchained_def stored_payloads_ok_def)
    from backfill_loop_Inr [OF loop ok hd(1) [symmetric] this] n False show ?thesis by simp
  qed
qed

lemma draws_backfill_body: "draws_ids (backfill_body X dry)"
  unfolding backfill_body_def chain_lock_def by (intro keeps_intros draws_backfill_loop)

lemma unchained_cong:
  "custody_chain t = custody_chain s \<Longrightarrow> trace_events t = trace_events s \<Longrightarrow> unchained t = unchained s"
  by (simp add: unchained_def)

text \<open>Under any script the job changes nothing or chains everything that was pending.\<close>

lemma backfill_effect:
  assumes "store_ok X s" and "stored_payloads_ok X s" and "backfill X dry s = (res, s')"
  shows "store_ok X s' \<and> trace_events s' = trace_events s \<and>
     (custody_chain s' = custody_chain s \<or>
      \<not> dry \<and> map cc_trace_event_id (custody_chain s') =
        map cc_trace_event_id (custody_chain s) @ map te_id (unchained s)) \<and>
     (\<forall>n. res = Inr n \<longrightarrow> n = length (unchained s) \<and>
        map cc_trace_event_id (custody_chain s') =
          map cc_trace_event_id (custody_chain s) @ (if dry then [] else map te_id (unchained s)))"
proof -
  have ok: "chain_ok X (step_io s)" "stored_payloads_ok X (step_io s)"
    using assms(1,2) by (simp_all add: store_ok_def stored_payloads_ok_def)
  have un: "unchained (step_io s) = unchained s" by (rule unchained_cong) simp_all
  have run: "s' = snd (tx_earlyC (backfill_body X dry) s)" "res = fst (tx_earlyC (backfill_body X dry) s)"
    using assms(3) by (simp_all add: backfill_def)
  show ?thesis
  proof (cases rule: tx_earlyC_effect [OF draws_backfill_body, of s X dry, case_names same whole])
    case same
    with run have t: "ticks s s'" by simp
    have "n = length (unchained s) \<and> dry" if "res = Inr n" for n
    proof -
      from same(2) that run obtain s1 where "backfill_body X dry (step_io s) = (Inr (False, n), s1)" by auto
      from backfill_body_Inr [OF this ok] un show ?thesis by simp
    qed
    with t store_ok_ticks [OF t assms(1)] ticks_db(1,2) [OF t] show ?thesis by auto
  next
    case (whole c a s1)
    from backfill_body_Inr [OF whole(1) ok] whole(2) un
    have b: "a = length (unchained s)" "\<not> dry" "chain_ok X s1" "trace_events s1 = trace_events s"
      "fresh_id s1 = fresh_id s"
      "map cc_trace_event_id (custody_chain s1) = map cc_trace_event_id (custody_chain s) @ map te_id (unchained s)"
      by simp_all
    have "store_ok X s1" using assms(1) b(3-5) by (simp add: store_ok_def ledger_ok_def)
    then have "store_ok X s'" using whole(3) run store_ok_ticks [OF ticks_step_io] by simp
    with b whole run show ?thesis by auto
  qed
qed

section \<open>Which events are batch events\<close>

lemma fold_case_lower:
  assumes "CHR ''k'' \<notin> set t" and "CHR ''s'' \<notin> set t"
  shows "fold_case s = t \<Longrightarrow> map lower_ascii s = t"
  using assms
  by (induction s arbitrary: t rule: fold_case.induct) (auto split: if_splits)

lemma lower_fold_case:
  assumes "\<forall>c \<in> set t. (of_char c :: nat) < 128"
  shows "map lower_ascii s = t \<Longrightarrow> fold_case s = t"
  using assms
proof (induction s arbitrary: t)
  case (Cons c cs)
  then have lt: "(of_char (lower_ascii c) :: nat) < 128" by auto
  have high: "lower_ascii (byte n) = byte n" "of_char (byte n) = n" if "128 \<le> n" "n < 256" for n :: nat
    using that by (simp_all add: lower_ascii_def of_char_byte Let_def del: of_char_of)
  have "c \<noteq> byte 0xC5" "c \<noteq> byte 0xE2"
    using lt high [of "0xC5"] high [of "0xE2"] by (auto simp del: of_char_of)
  then have "\<not> HasPrefix (c # cs) [byte 0xC5, byte 0xBF]"
    "\<not> HasPrefix (c # cs) [byte 0xE2, byte 0x84, byte 0xAA]"
    by (simp_all add: HasPrefix_def)
  with Cons show ?case by auto
qed simp

lemma batch_spelling: "EqualFold s ''batch'' \<longleftrightarrow> ilike_batch s"
proof -
  have "fold_case ''batch'' = ''batch''"
    by (rule lower_fold_case) (simp_all add: lower_ascii_def)
  then show ?thesis
    using fold_case_lower [of "''batch''" s] lower_fold_case [of "''batch''" s]
    by (auto simp: EqualFold_def ilike_batch_def)
qed

section \<open>Properties\<close>

text \<open>Every payload in the ledger has been through JSONB, when JSONB is idempotent.\<close>

lemma keeps_stored_payloads:
  assumes "jsonb_idem X"
  shows "keeps (stored_payloads_ok X) (AppendEvent X ce i)"
proof (rule keepsI)
  fix s :: "'a db_scheme" assume ok: "stored_payloads_ok X s"
  let ?i = "append_defaults (now_us s) i"
  have grow: "stored_payloads_ok X t" if "trace_events t = trace_events s @ [new_row ?i rel (x_jsonb X p) u]"
    for t :: "'a db_scheme" and rel p and u :: "'a db_scheme"
    using ok that assms by (auto simp: stored_payloads_ok_def new_row_def jsonb_idem_def)
  show "stored_payloads_ok X (snd (AppendEvent X ce i s))"
  proof (cases "ce \<and> EqualFold (in_EntityType i) ''batch''")
    case True
    show ?thesis
    proof (cases rule: appendEventChained_effect [of s X ?i, case_names same grown])
      case same
      with True ok ticks_db(1) [OF same(1)] show ?thesis by (simp add: AppendEvent_batch stored_payloads_ok_def)
    next
      case (grown r rel t pay s1 s')
      then have "trace_events (snd (appendEventChained X ?i s)) = trace_events s @ [new_row ?i rel (x_jsonb X (or_empty (in_Payload i))) t]"
        using ticks_db(1) [OF grown(8)] ticks_db(1) [OF grown(6)] by (auto simp: insert_chain_sql_Inr)
      with True show ?thesis using grow by (simp add: AppendEvent_batch)
    qed
  next
    case False
    have "stored_payloads_ok X t" if "insert_event_sql X ?i (step_io s) = Inr (ev, t)" for ev t
      using that
    proof (cases rule: insert_event_sql_Inr)
      case (new rel pay)
      then show ?thesis using grow by (auto dest!: enc_jsonb_Some)
    qed (use ok in \<open>simp add: stored_payloads_ok_def\<close>)
    with False ok show ?thesis
      by (auto simp: AppendEvent_plain execC_def Let_def stored_payloads_ok_def split: io.split sum.split)
  qed
qed

text \<open>
  C22. A backfill that reports success has chained the whole ledger: the number it reports is the
  number of batch events that had no block, the events are untouched, the chain is well-formed
  (so \<open>VerifyChain\<close> accepts it) and every batch event has exactly one block; and a second run, with
  or without \<open>--dry-run\<close>, reports zero and changes nothing.
\<close>

theorem backfill_complete:
  assumes "ledger_ok s" and "chain_ok X s" and "stored_payloads_ok X s"
    and "backfill X False s = (Inr n, s')"
  shows "n = length (unchained s) \<and> trace_events s' = trace_events s \<and> chain_ok X s' \<and>
         (\<forall>r \<in> set (trace_events s'). EqualFold (te_entity_type r) ''batch'' \<longrightarrow>
            (\<exists>!b. b \<in> set (custody_chain s') \<and> cc_trace_event_id b = te_id r)) \<and>
         (\<forall>dry m s''. backfill X dry s' = (Inr m, s'') \<longrightarrow>
            m = 0 \<and> trace_events s'' = trace_events s' \<and> length (custody_chain s'') = length (custody_chain s'))"
proof -
  have "store_ok X s" using assms(1,2) by (simp add: store_ok_def)
  from backfill_effect [OF this assms(3,4)]
  have ok: "store_ok X s'" "trace_events s' = trace_events s" "n = length (unchained s)"
    and ids: "map cc_trace_event_id (custody_chain s') = map cc_trace_event_id (custody_chain s) @ map te_id (unchained s)"
    by simp_all
  have idset: "cc_trace_event_id ` set (custody_chain s') =
      cc_trace_event_id ` set (custody_chain s) \<union> te_id ` set (unchained s)"
    using arg_cong [OF ids, of set] by simp
  have cov: "te_id r \<in> cc_trace_event_id ` set (custody_chain s')"
    if "r \<in> set (trace_events s)" "ilike_batch (te_entity_type r)" for r
    using that unfolding idset by (auto simp: unchained_def list_ex_iff image_iff) metis
  have dist: "distinct (map cc_trace_event_id (custody_chain s'))"
    using ok(1) by (simp add: store_ok_def chain_ok_def)
  have "\<exists>!b. b \<in> set (custody_chain s') \<and> cc_trace_event_id b = te_id r"
    if "r \<in> set (trace_events s')" "EqualFold (te_entity_type r) ''batch''" for r
    using cov [of r] that ok(2) dist by (auto simp: batch_spelling distinct_map inj_on_def image_iff)
  moreover have none: "unchained s' = []"
  proof -
    have "\<forall>r \<in> set (trace_events s'). ilike_batch (te_entity_type r) \<longrightarrow>
        (\<exists>b \<in> set (custody_chain s'). cc_trace_event_id b = te_id r)"
      using cov ok(2) by (metis imageE)
    then show ?thesis by (simp add: unchained_def filter_empty_conv list_ex_iff)
  qed
  moreover have "m = 0 \<and> trace_events s'' = trace_events s' \<and> length (custody_chain s'') = length (custody_chain s')"
    if "backfill X dry s' = (Inr m, s'')" for dry m s''
  proof -
    have "stored_payloads_ok X s'" using assms(3) ok(2) by (simp add: stored_payloads_ok_def)
    from backfill_effect [OF ok(1) this that] none
    have "m = 0" "trace_events s'' = trace_events s'"
      and "map cc_trace_event_id (custody_chain s'') = map cc_trace_event_id (custody_chain s')"
      by (simp_all split: if_splits)
    from arg_cong [OF this(3), of length] this(1,2) show ?thesis by simp
  qed
  ultimately show ?thesis using ok by (auto simp: store_ok_def)
qed

text \<open>A ledger with one batch event that was stored before the chain was switched on.\<close>

definition sample_unchained :: db where
  "sample_unchained = sample_state\<lparr>custody_chain := []\<rparr>"

lemma sample_unchained_ok:
  "ledger_ok sample_unchained" "chain_ok sample_ext sample_unchained"
  "stored_payloads_ok sample_ext sample_unchained"
  using sample_store_ok
  by (simp_all add: store_ok_def ledger_ok_def chain_ok_def stored_payloads_ok_def sample_unchained_def)
     (simp add: sample_state_def sample_ext_def)

lemma sample_backfill: "backfill sample_ext False sample_unchained = (Inr 1, sample_state)"
proof -
  have s: "script sample_unchained = []" "trace_events sample_unchained = [sample_event]"
    "custody_chain sample_unchained = []" "script sample_state = []"
    by (simp_all add: sample_unchained_def sample_state_def empty_db_def)
  have ty: "te_entity_type sample_event = ''batch''" "te_payload sample_event = []"
    "te_actor_user_id sample_event = in_ActorUserID sample_input" "or_empty (in_Payload sample_input) = []"
    by (simp_all add: sample_event_def new_row_def append_defaults_def sample_input_def or_empty_def)
  have un: "unchained sample_unchained = [sample_event]"
    by (simp add: unchained_def s ty ilike_batch_def lower_ascii_def)
  have st: "sample_unchained\<lparr>custody_chain :=
      [input_block sample_ext (0, GenesisHash) sample_input sample_event]\<rparr> = sample_state"
    by (simp add: sample_unchained_def sample_state_def)
  have "backfill_body sample_ext False sample_unchained = (Inr (True, 1), sample_state)"
    using st
    by (simp add: backfill_body_def chain_lock_def bindC_def handleC_def retC_def healthy s un ty
        insert_chain_sql_def Let_def chain_head_def input_block_def make_block_def)
  then show ?thesis
    by (simp add: backfill_def tx_earlyC_def s Let_def txC_def bindC_def handleC_def retC_def)
qed

theorem backfill_complete_witness:
  "1 = length (unchained sample_unchained) \<and> trace_events sample_state = trace_events sample_unchained \<and>
   chain_ok sample_ext sample_state \<and>
   (\<exists>!b. b \<in> set (custody_chain sample_state) \<and> cc_trace_event_id b = te_id sample_event)"
proof -
  have e: "sample_event \<in> set (trace_events sample_state)" by (simp add: sample_state_def)
  have t: "EqualFold (te_entity_type sample_event) ''batch''"
    by (simp add: EqualFold_def sample_event_def new_row_def append_defaults_def sample_input_def)
  show ?thesis
    using backfill_complete [OF sample_unchained_ok sample_backfill] e t by blast
qed

text \<open>
  The backfill is all or nothing: however the database behaves, the ledger and the chain stay
  well-formed and the events untouched, and the custody table is either exactly as before or has one
  new block for every pending event, in the order time, creation time, id; a dry run changes
  nothing and reports the number of pending events.
\<close>

theorem backfill_all_or_nothing:
  assumes "ledger_ok s" and "chain_ok X s" and "stored_payloads_ok X s"
    and "backfill X dry s = (res, s')"
  shows "ledger_ok s' \<and> chain_ok X s' \<and> trace_events s' = trace_events s \<and>
         (custody_chain s' = custody_chain s \<or>
          \<not> dry \<and> map cc_trace_event_id (custody_chain s') =
            map cc_trace_event_id (custody_chain s) @ map te_id (unchained s)) \<and>
         sorted (map (\<lambda>r. (te_occurred_at r, te_created_at r, te_id r)) (unchained s)) \<and>
         (dry \<longrightarrow> (\<forall>n. res = Inr n \<longrightarrow> n = length (unchained s)))"
  using backfill_effect [of X s dry res s'] assms
  by (simp add: store_ok_def) (simp add: unchained_def)

theorem backfill_all_or_nothing_witness:
  "ledger_ok sample_state \<and> chain_ok sample_ext sample_state \<and>
   trace_events sample_state = trace_events sample_unchained \<and>
   (custody_chain sample_state = custody_chain sample_unchained \<or>
    \<not> False \<and> map cc_trace_event_id (custody_chain sample_state) =
      map cc_trace_event_id (custody_chain sample_unchained) @ map te_id (unchained sample_unchained))"
  using backfill_all_or_nothing [OF sample_unchained_ok sample_backfill] by blast

text \<open>The block the backfill makes for one pending event.\<close>

lemma backfill_single:
  assumes "backfill X False s = (Inr n, s')" and "unchained s = [r]"
  shows "n = 1 \<and> custody_chain s' = custody_chain s @
     [(make_block X (chain_head s) (te_id r) (te_occurred_at r) (te_entity_business_id r) (te_event_type r)
        (actor_string (te_actor_user_id r)) (te_payload r))\<lparr>cc_quality_metrics := x_jsonb X (te_payload r)\<rparr>]"
proof -
  have un: "unchained (step_io (step_io (step_io (step_io s)))) = [r]"
    using assms(2) unchained_cong [of "step_io (step_io (step_io (step_io s)))" s] by simp
  show ?thesis
  proof (cases rule: tx_earlyC_effect [OF draws_backfill_body, of s X False, case_names same whole])
    case same
    from same(2) assms(1) obtain s1 where "backfill_body X False (step_io s) = (Inr (False, n), s1)"
      by (auto simp: backfill_def)
    then show ?thesis by (auto simp: backfill_body_def bindC_Inr_iff retC_def)
  next
    case (whole c m s1)
    have "n = m" "s' = step_io s1" using whole assms(1) by (auto simp: backfill_def)
    with whole(1) un show ?thesis
      by (auto simp: backfill_body_def chain_lock_def bindC_Inr_iff queryC_Inr_iff execC_Inr_iff retC_def
          Let_def insert_chain_sql_Inr make_block_def dest!: enc_jsonb_Some)
  qed
qed



end
