(* ===== verification/MerkleTree.thy ===== *)
theory MerkleTree
  imports GoCrypto
begin

text \<open>
  \<open>internal/merkle/merkle.go\<close>: the binary SHA-256 tree over custody event hashes, its inclusion
  proofs and their verification.  Shown here: every proof the code builds verifies; a proof that
  verifies against a root belongs to a leaf of that tree, unless two of the inputs really hashed
  collide; equal roots over equally many leaves mean equal leaves, with the same exception; the
  path has logarithmic length; and the tree of an odd number of leaves is also the tree of one leaf
  more.
\<close>

section \<open>Definitions\<close>

definition leafPrefix :: string where
  "leafPrefix = [byte 0x00]"

definition nodePrefix :: string where
  "nodePrefix = [byte 0x01]"

definition hashLeaf :: "string \<Rightarrow> string" where
  "hashLeaf b = sha256 (leafPrefix @ b)"

definition hashNode :: "string \<Rightarrow> string \<Rightarrow> string" where
  "hashNode l r = sha256 (nodePrefix @ l @ r)"

fun nextLevel :: "string list \<Rightarrow> string list" where
  "nextLevel [] = []"
| "nextLevel [x] = [hashNode x x]"
| "nextLevel (x # y # zs) = hashNode x y # nextLevel zs"

lemma length_nextLevel: "length (nextLevel xs) = (length xs + 1) div 2"
  by (induction xs rule: nextLevel.induct) auto

lemma nextLevel_Nil_iff [simp]: "nextLevel xs = [] \<longleftrightarrow> xs = []"
  by (cases xs rule: nextLevel.cases) auto

text \<open>The loop \<open>for len(level) > 1\<close> of \<open>Root\<close>.\<close>

function root_loop :: "string list \<Rightarrow> string" where
  "root_loop level = (if length level > 1 then root_loop (nextLevel level) else hd level)"
  by pat_completeness auto
termination
  by (relation "measure length") (auto simp: length_nextLevel)

declare root_loop.simps [simp del]

text \<open>The nil slice \<open>Root\<close> returns for no leaves is the empty byte string.\<close>

definition Root :: "string list \<Rightarrow> string" where
  "Root leaves = (if leaves = [] then [] else root_loop (map hashLeaf leaves))"

record ProofNode =
  pn_Hash :: string
  pn_Right :: bool   \<comment> \<open>true when this sibling sits on the right of the running hash\<close>

function proof_loop :: "string list \<Rightarrow> nat \<Rightarrow> ProofNode list" where
  "proof_loop level idx =
     (if length level > 1 then
        (if idx mod 2 = 0
         then \<lparr>pn_Hash = (if idx + 1 < length level then level ! (idx + 1) else level ! idx),
               pn_Right = True\<rparr>
         else \<lparr>pn_Hash = level ! (idx - 1), pn_Right = False\<rparr>)
        # proof_loop (nextLevel level) (idx div 2)
      else [])"
  by pat_completeness auto
termination
  by (relation "measure (\<lambda>(l, i). length l)") (auto simp: length_nextLevel)

declare proof_loop.simps [simp del]

definition Proof :: "string list \<Rightarrow> int \<Rightarrow> err + ProofNode list" where
  "Proof leaves index =
     (if index < 0 \<or> index \<ge> int (length leaves) then Inl (ErrMsg ''merkle: index out of range'')
      else Inr (proof_loop (map hashLeaf leaves) (nat index)))"

definition fold_node :: "ProofNode \<Rightarrow> string \<Rightarrow> string" where
  "fold_node n running =
     (if pn_Right n then hashNode running (pn_Hash n) else hashNode (pn_Hash n) running)"

definition VerifyProof :: "string \<Rightarrow> ProofNode list \<Rightarrow> string \<Rightarrow> bool" where
  "VerifyProof leaf path rootHash \<longleftrightarrow> fold fold_node path (hashLeaf leaf) = rootHash"

lemma fold_node_simps [simp]:
  "fold_node \<lparr>pn_Hash = h, pn_Right = True\<rparr> r = hashNode r h"
  "fold_node \<lparr>pn_Hash = h, pn_Right = False\<rparr> r = hashNode h r"
  by (simp_all add: fold_node_def)

section \<open>The interface the notary relies on\<close>

locale inclusion_scheme =
  fixes rootOf :: "'a list \<Rightarrow> 'r"
    and prove :: "'a list \<Rightarrow> int \<Rightarrow> err + 'p"
    and verify :: "'a \<Rightarrow> 'p \<Rightarrow> 'r \<Rightarrow> bool"
  assumes prove_total: "0 \<le> i \<Longrightarrow> i < int (length xs) \<Longrightarrow> \<exists>p. prove xs i = Inr p"
    and prove_range: "prove xs i = Inr p \<Longrightarrow> 0 \<le> i \<and> i < int (length xs)"
    and complete: "prove xs i = Inr p \<Longrightarrow> verify (xs ! nat i) p (rootOf xs)"
begin

text \<open>A position found by searching a parallel list always has a proof, and it verifies.\<close>

lemma found_position_verifies:
  assumes "i < length xs"
  shows "\<exists>p. prove xs (int i) = Inr p \<and> verify (xs ! i) p (rootOf xs)"
proof -
  from assms obtain p where "prove xs (int i) = Inr p"
    using prove_total [of "int i" xs] by auto
  with complete [of xs "int i" p] show ?thesis by auto
qed

end

section \<open>Completeness\<close>

lemma nth_nextLevel:
  "i < (length xs + 1) div 2 \<Longrightarrow>
   nextLevel xs ! i = hashNode (xs ! (2 * i)) (if 2 * i + 1 < length xs then xs ! (2 * i + 1) else xs ! (2 * i))"
proof (induction xs arbitrary: i rule: nextLevel.induct)
  case (3 x y zs)
  then show ?case by (cases i) auto
qed auto

lemma fold_proof_loop:
  "idx < length level \<Longrightarrow> fold fold_node (proof_loop level idx) (level ! idx) = root_loop level"
proof (induction level idx rule: proof_loop.induct)
  case (1 level idx)
  show ?case
  proof (cases "length level > 1")
    case False
    with "1.prems" have "idx = 0" "level \<noteq> []" by auto
    with False show ?thesis
      by (simp add: proof_loop.simps [of level] root_loop.simps [of level] hd_conv_nth)
  next
    case True
    have half: "idx div 2 < (length level + 1) div 2"
      using "1.prems" by linarith
    have two: "idx mod 2 \<noteq> 0 \<Longrightarrow> 2 * (idx div 2) + 1 = idx"
      "idx mod 2 \<noteq> 0 \<Longrightarrow> 2 * (idx div 2) = idx - 1" "idx mod 2 = 0 \<Longrightarrow> 2 * (idx div 2) = idx"
      by presburger+
    have node: "nextLevel level ! (idx div 2) =
        (if idx mod 2 = 0
         then hashNode (level ! idx) (if idx + 1 < length level then level ! (idx + 1) else level ! idx)
         else hashNode (level ! (idx - 1)) (level ! idx))"
      using nth_nextLevel [OF half] two "1.prems" by (auto simp: add.commute)
    have "fold fold_node (proof_loop (nextLevel level) (idx div 2)) (nextLevel level ! (idx div 2))
        = root_loop (nextLevel level)"
      using "1.IH" [OF True] half by (simp add: length_nextLevel)
    with True node show ?thesis
      by (simp add: proof_loop.simps [of level] root_loop.simps [of level] split: if_splits)
  qed
qed

lemma proof_verifies:
  "Proof leaves i = Inr p \<Longrightarrow> VerifyProof (leaves ! nat i) p (Root leaves)"
  using fold_proof_loop [of "nat i" "map hashLeaf leaves"]
  by (auto simp: Proof_def VerifyProof_def Root_def split: if_splits)

interpretation mk: inclusion_scheme Root Proof VerifyProof
  by unfold_locales (auto simp: Proof_def proof_verifies split: if_splits)

section \<open>Soundness: a verified leaf is a leaf of the tree\<close>

text \<open>All hashes of the tree over a level, and the inputs hashed to build it.\<close>

function tree_nodes :: "string list \<Rightarrow> string list" where
  "tree_nodes level = (if length level > 1 then level @ tree_nodes (nextLevel level) else level)"
  by pat_completeness auto
termination
  by (relation "measure length") (auto simp: length_nextLevel)

declare tree_nodes.simps [simp del]

fun level_inputs :: "string list \<Rightarrow> string list" where
  "level_inputs [] = []"
| "level_inputs [x] = [nodePrefix @ x @ x]"
| "level_inputs (x # y # zs) = (nodePrefix @ x @ y) # level_inputs zs"

function node_inputs :: "string list \<Rightarrow> string list" where
  "node_inputs level =
     (if length level > 1 then level_inputs level @ node_inputs (nextLevel level) else [])"
  by pat_completeness auto
termination
  by (relation "measure length") (auto simp: length_nextLevel)

declare node_inputs.simps [simp del]

definition root_inputs :: "string list \<Rightarrow> string list" where
  "root_inputs leaves = map (\<lambda>l. leafPrefix @ l) leaves @ node_inputs (map hashLeaf leaves)"

text \<open>The inputs \<open>VerifyProof\<close> hashes.\<close>

definition fold_input :: "ProofNode \<Rightarrow> string \<Rightarrow> string" where
  "fold_input n running =
     nodePrefix @ (if pn_Right n then running @ pn_Hash n else pn_Hash n @ running)"

fun path_inputs :: "ProofNode list \<Rightarrow> string \<Rightarrow> string list" where
  "path_inputs [] running = []"
| "path_inputs (n # ns) running = fold_input n running # path_inputs ns (fold_node n running)"

definition verify_inputs :: "string \<Rightarrow> ProofNode list \<Rightarrow> string list" where
  "verify_inputs leaf path = (leafPrefix @ leaf) # path_inputs path (hashLeaf leaf)"

lemma fold_node_input: "fold_node n running = sha256 (fold_input n running)"
  by (simp add: fold_node_def fold_input_def hashNode_def)

lemma path_inputs_snoc:
  "path_inputs (p @ [n]) r = path_inputs p r @ [fold_input n (fold fold_node p r)]"
  by (induction p arbitrary: r) auto

lemma length_hashes [simp]: "length (hashLeaf b) = 32" "length (hashNode l r) = 32"
  by (simp_all add: hashLeaf_def hashNode_def)

lemma length_fold_nodes: "length r = 32 \<Longrightarrow> length (fold fold_node p r) = 32"
  by (induction p arbitrary: r) (auto simp: fold_node_def)

lemma nextLevel_member:
  "x \<in> set (nextLevel xs) \<Longrightarrow>
   \<exists>a \<in> set xs. \<exists>b \<in> set xs. x = hashNode a b \<and> nodePrefix @ a @ b \<in> set (level_inputs xs)"
  by (induction xs rule: nextLevel.induct) auto

lemma set_nextLevel_length: "\<forall>x \<in> set (nextLevel xs). length x = 32"
  by (induction xs rule: nextLevel.induct) auto

lemma tree_nodes_length:
  "\<forall>x \<in> set level. length x = 32 \<Longrightarrow> \<forall>x \<in> set (tree_nodes level). length x = 32"
proof (induction level rule: tree_nodes.induct)
  case (1 level)
  then show ?case
    using set_nextLevel_length [of level]
    by (cases "length level > 1") (auto simp: tree_nodes.simps [of level])
qed

text \<open>An inner node has its children in the tree, and was hashed from them.\<close>

lemma level_in_tree: "set level \<subseteq> set (tree_nodes level)"
  by (subst tree_nodes.simps) auto

lemma tree_node_cases:
  "x \<in> set (tree_nodes level) \<Longrightarrow>
   x \<in> set level \<or>
   (\<exists>a \<in> set (tree_nodes level). \<exists>b \<in> set (tree_nodes level).
      x = hashNode a b \<and> nodePrefix @ a @ b \<in> set (node_inputs level))"
proof (induction level rule: tree_nodes.induct)
  case (1 level)
  show ?case
  proof (cases "length level > 1 \<and> x \<notin> set level")
    case False
    with "1.prems" show ?thesis by (auto simp: tree_nodes.simps [of level] split: if_splits)
  next
    case True
    then have big: "length level > 1" by simp
    with True "1.prems" have x: "x \<in> set (tree_nodes (nextLevel level))"
      by (simp add: tree_nodes.simps [of level])
    have sub: "set level \<subseteq> set (tree_nodes level)"
      "set (tree_nodes (nextLevel level)) \<subseteq> set (tree_nodes level)"
      "set (level_inputs level) \<subseteq> set (node_inputs level)"
      "set (node_inputs (nextLevel level)) \<subseteq> set (node_inputs level)"
      using big by (auto simp: tree_nodes.simps [of level] node_inputs.simps [of level])
    from "1.IH" [OF big x] show ?thesis
      using nextLevel_member [of x level] sub by blast
  qed
qed

lemma root_loop_in_tree: "level \<noteq> [] \<Longrightarrow> root_loop level \<in> set (tree_nodes level)"
proof (induction level rule: root_loop.induct)
  case (1 level)
  show ?case
  proof (cases "length level > 1")
    case True
    then have "nextLevel level \<noteq> []" by auto
    with True "1.IH" show ?thesis
      by (simp add: root_loop.simps [of level] tree_nodes.simps [of level])
  next
    case False
    with "1.prems" show ?thesis
      by (simp add: root_loop.simps [of level] tree_nodes.simps [of level])
  qed
qed

text \<open>
  The inputs of a leaf and of an inner node never agree, by their prefix byte; two inputs of inner
  nodes built from 32-byte hashes agree only if the running hash is one of the two children.
\<close>

lemma prefix_separation: "leafPrefix @ a \<noteq> nodePrefix @ b"
  by (simp add: leafPrefix_def nodePrefix_def)

lemma fold_input_not_leaf: "fold_input n r \<noteq> leafPrefix @ a"
  using prefix_separation by (metis fold_input_def)

lemma fold_input_child:
  assumes "fold_input n r = nodePrefix @ a @ b" and "length r = 32" "length a = 32" "length b = 32"
  shows "r = a \<or> r = b"
proof (cases "pn_Right n")
  case True
  with assms(1) have "r @ pn_Hash n = a @ b" by (simp add: fold_input_def)
  with assms show ?thesis by (simp add: append_eq_append_conv)
next
  case False
  with assms(1) have "pn_Hash n @ r = a @ b" by (simp add: fold_input_def)
  with assms show ?thesis by (simp add: append_eq_append_conv)
qed

lemma path_stays_in_tree:
  assumes "\<forall>x \<in> set (map hashLeaf leaves). length x = 32"
    and "length r = 32"
    and "fold fold_node p r \<in> set (tree_nodes (map hashLeaf leaves))"
  shows "r \<in> set (tree_nodes (map hashLeaf leaves)) \<or>
         sha256_collision (path_inputs p r) (root_inputs leaves)"
  using assms(3)
proof (induction p rule: rev_induct)
  case (snoc n p)
  let ?level = "map hashLeaf leaves"
  let ?run = "fold fold_node p r"
  have top: "fold_node n ?run \<in> set (tree_nodes ?level)"
    using snoc.prems by simp
  have inp: "fold_input n ?run \<in> set (path_inputs (p @ [n]) r)"
    by (simp add: path_inputs_snoc)
  from tree_node_cases [OF top] show ?case
  proof
    assume "fold_node n ?run \<in> set ?level"
    then obtain l where "l \<in> set leaves" "fold_node n ?run = hashLeaf l" by auto
    then have "sha256_collision (path_inputs (p @ [n]) r) (root_inputs leaves)"
      using inp fold_input_not_leaf
      by (intro sha256_collisionI [of "fold_input n ?run" _ "leafPrefix @ l"])
         (auto simp: root_inputs_def fold_node_input hashLeaf_def)
    then show ?thesis ..
  next
    assume "\<exists>a \<in> set (tree_nodes ?level). \<exists>b \<in> set (tree_nodes ?level).
      fold_node n ?run = hashNode a b \<and> nodePrefix @ a @ b \<in> set (node_inputs ?level)"
    then obtain a b where ab: "a \<in> set (tree_nodes ?level)" "b \<in> set (tree_nodes ?level)"
      and eq: "fold_node n ?run = hashNode a b" and ni: "nodePrefix @ a @ b \<in> set (node_inputs ?level)"
      by blast
    show ?thesis
    proof (cases "fold_input n ?run = nodePrefix @ a @ b")
      case True
      have "length a = 32" "length b = 32"
        using ab tree_nodes_length [OF assms(1)] by auto
      with True have "?run = a \<or> ?run = b"
        using fold_input_child length_fold_nodes [OF assms(2)] by blast
      with ab have "?run \<in> set (tree_nodes ?level)" by auto
      from snoc.IH [OF this] show ?thesis
        by (auto simp: path_inputs_snoc sha256_collision_append)
    next
      case False
      then have "sha256_collision (path_inputs (p @ [n]) r) (root_inputs leaves)"
        using inp ni eq
        by (intro sha256_collisionI [of "fold_input n ?run" _ "nodePrefix @ a @ b"])
           (auto simp: root_inputs_def fold_node_input hashNode_def)
      then show ?thesis ..
    qed
  qed
qed simp

lemma leaf_of_tree:
  assumes "hashLeaf l \<in> set (tree_nodes (map hashLeaf leaves))"
  shows "l \<in> set leaves \<or> sha256_collision [leafPrefix @ l] (root_inputs leaves)"
  using tree_node_cases [OF assms]
proof
  assume "hashLeaf l \<in> set (map hashLeaf leaves)"
  then obtain l' where l': "l' \<in> set leaves" "hashLeaf l = hashLeaf l'" by auto
  show ?thesis
  proof (cases "l = l'")
    case False
    with l' show ?thesis
      by (intro disjI2 sha256_collisionI [of "leafPrefix @ l" _ "leafPrefix @ l'"])
         (auto simp: root_inputs_def hashLeaf_def)
  qed (use l' in simp)
next
  assume "\<exists>a \<in> set (tree_nodes (map hashLeaf leaves)). \<exists>b \<in> set (tree_nodes (map hashLeaf leaves)).
    hashLeaf l = hashNode a b \<and> nodePrefix @ a @ b \<in> set (node_inputs (map hashLeaf leaves))"
  then obtain a b where "hashLeaf l = hashNode a b"
    and "nodePrefix @ a @ b \<in> set (node_inputs (map hashLeaf leaves))" by blast
  then show ?thesis
    using prefix_separation
    by (intro disjI2 sha256_collisionI [of "leafPrefix @ l" _ "nodePrefix @ a @ b"])
       (auto simp: root_inputs_def hashLeaf_def hashNode_def)
qed

lemma verified_leaf_in_tree:
  assumes "VerifyProof leaf path (Root leaves)" and "leaves \<noteq> []"
  shows "leaf \<in> set leaves \<or> sha256_collision (verify_inputs leaf path) (root_inputs leaves)"
proof -
  from assms have "fold fold_node path (hashLeaf leaf) \<in> set (tree_nodes (map hashLeaf leaves))"
    using root_loop_in_tree [of "map hashLeaf leaves"] by (simp add: VerifyProof_def Root_def)
  then have "hashLeaf leaf \<in> set (tree_nodes (map hashLeaf leaves)) \<or>
      sha256_collision (path_inputs path (hashLeaf leaf)) (root_inputs leaves)"
    by (intro path_stays_in_tree) auto
  then show ?thesis
    using leaf_of_tree [of leaf leaves]
    by (auto simp: verify_inputs_def sha256_collision_def)
qed

section \<open>Binding: equal roots, equal leaves\<close>

lemma nextLevel_inject:
  assumes "length xs = length ys" and "\<forall>x \<in> set xs \<union> set ys. length x = 32"
    and "nextLevel xs = nextLevel ys"
  shows "xs = ys \<or> sha256_collision (level_inputs xs) (level_inputs ys)"
  using assms
proof (induction xs arbitrary: ys rule: nextLevel.induct)
  case (2 x)
  then obtain y where y: "ys = [y]" by (cases ys) auto
  with 2 show ?case
    by (cases "x = y") (auto simp: hashNode_def sha256_collision_def)
next
  case (3 x y zs)
  then obtain u v ws where ys: "ys = u # v # ws"
    by (cases ys rule: nextLevel.cases) auto
  with 3 have rest: "zs = ws \<or> sha256_collision (level_inputs zs) (level_inputs ws)"
    by (intro "3.IH") auto
  show ?case
  proof (cases "x = u \<and> y = v")
    case True
    with rest ys show ?thesis by (auto simp: sha256_collision_def)
  next
    case False
    with 3 ys have "nodePrefix @ x @ y \<noteq> nodePrefix @ u @ v" by (auto simp: append_eq_append_conv)
    with 3 ys show ?thesis
      by (intro disjI2 sha256_collisionI [of "nodePrefix @ x @ y" _ "nodePrefix @ u @ v"])
         (auto simp: hashNode_def)
  qed
qed auto

lemma root_loop_inject:
  assumes "length xs = length ys" and "\<forall>x \<in> set xs \<union> set ys. length x = 32" and "xs \<noteq> []"
    and "root_loop xs = root_loop ys"
  shows "xs = ys \<or> sha256_collision (node_inputs xs) (node_inputs ys)"
  using assms
proof (induction xs arbitrary: ys rule: root_loop.induct)
  case (1 xs)
  show ?case
  proof (cases "length xs > 1")
    case True
    have "nextLevel xs = nextLevel ys \<or>
        sha256_collision (node_inputs (nextLevel xs)) (node_inputs (nextLevel ys))"
      using True "1.prems" set_nextLevel_length
      by (intro "1.IH") (auto simp: length_nextLevel root_loop.simps [of xs] root_loop.simps [of ys])
    then show ?thesis
      using nextLevel_inject [OF "1.prems"(1,2)] True "1.prems"(1)
      by (auto simp: node_inputs.simps [of xs] node_inputs.simps [of ys] sha256_collision_def)
  next
    case False
    with "1.prems" obtain x y where "xs = [x]" "ys = [y]"
      by (cases xs; cases ys) auto
    with "1.prems"(4) show ?thesis
      by (simp add: root_loop.simps [of "[x]"] root_loop.simps [of "[y]"])
  qed
qed

lemma map_hashLeaf_inject:
  "length xs = length ys \<Longrightarrow> map hashLeaf xs = map hashLeaf ys \<Longrightarrow>
   xs = ys \<or> sha256_collision (map (\<lambda>l. leafPrefix @ l) xs) (map (\<lambda>l. leafPrefix @ l) ys)"
  by (induction xs ys rule: list_induct2) (auto simp: hashLeaf_def sha256_collision_def)

lemma root_binding:
  assumes "length xs = length ys" and "Root xs = Root ys"
  shows "xs = ys \<or> sha256_collision (root_inputs xs) (root_inputs ys)"
proof (cases "xs = []")
  case False
  with assms have "ys \<noteq> []" by auto
  with False assms have "map hashLeaf xs = map hashLeaf ys \<or>
      sha256_collision (node_inputs (map hashLeaf xs)) (node_inputs (map hashLeaf ys))"
    by (intro root_loop_inject) (auto simp: Root_def)
  then show ?thesis
    using map_hashLeaf_inject [OF assms(1)]
    by (auto simp: root_inputs_def sha256_collision_append)
qed (use assms in simp)

section \<open>Shape of proofs and of odd trees\<close>

lemma proof_loop_length:
  "idx < length level \<Longrightarrow>
   length level \<le> 2 ^ length (proof_loop level idx) \<and>
   (length level > 1 \<longrightarrow> 2 ^ (length (proof_loop level idx) - 1) < length level)"
proof (induction level idx rule: proof_loop.induct)
  case (1 level idx)
  show ?case
  proof (cases "length level > 1")
    case True
    let ?k = "length (proof_loop (nextLevel level) (idx div 2))"
    have "idx div 2 < length (nextLevel level)"
      using "1.prems" by (simp add: length_nextLevel)
    then have IH: "length (nextLevel level) \<le> 2 ^ ?k"
      "length (nextLevel level) > 1 \<longrightarrow> 2 ^ (?k - 1) < length (nextLevel level)"
      using "1.IH" [OF True] by auto
    have half: "length (nextLevel level) = (length level + 1) div 2"
      by (rule length_nextLevel)
    have "length level \<le> 2 * 2 ^ ?k"
      using IH(1) half by linarith
    moreover have "2 ^ ?k < length level"
    proof (cases "length (nextLevel level) > 1")
      case big: True
      then have "?k > 0" by (simp add: proof_loop.simps [of "nextLevel level"])
      then have "(2::nat) ^ ?k = 2 * 2 ^ (?k - 1)" by (metis power_minus_mult mult.commute)
      with IH(2) big half show ?thesis by linarith
    next
      case False
      then show ?thesis using True by (simp add: proof_loop.simps [of "nextLevel level"])
    qed
    ultimately show ?thesis using True by (simp add: proof_loop.simps [of level])
  next
    case False
    with "1.prems" show ?thesis by (simp add: proof_loop.simps [of level])
  qed
qed

lemma nextLevel_duplicate_last:
  "odd (length xs) \<Longrightarrow> nextLevel (xs @ [last xs]) = nextLevel xs"
  by (induction xs rule: nextLevel.induct) auto

lemma root_duplicate_last:
  assumes "odd (length leaves)" and "length leaves > 1"
  shows "Root (leaves @ [last leaves]) = Root leaves"
proof -
  have "nextLevel (map hashLeaf leaves @ [hashLeaf (last leaves)]) = nextLevel (map hashLeaf leaves)"
    using nextLevel_duplicate_last [of "map hashLeaf leaves"] assms by (cases leaves) (auto simp: last_map)
  with assms show ?thesis
    by (auto simp: Root_def root_loop.simps [of "map hashLeaf leaves"]
        root_loop.simps [of "map hashLeaf leaves @ [hashLeaf (last leaves)]"])
qed

section \<open>Properties\<close>

text \<open>
  C20. Every inclusion proof \<open>Proof\<close> builds is accepted: for each index in range it returns a path,
  and \<open>VerifyProof\<close> folds that path into the leaf at the index to exactly the root \<open>Root\<close> computes.
\<close>

theorem merkle_proof_complete:
  assumes "i < length leaves"
  shows "\<exists>path. Proof leaves (int i) = Inr path \<and> VerifyProof (leaves ! i) path (Root leaves)"
  using assms by (rule mk.found_position_verifies)

theorem merkle_proof_complete_witness:
  "\<exists>path. Proof [''a'', ''b'', ''c''] (int 2) = Inr path \<and>
          VerifyProof ([''a'', ''b'', ''c''] ! 2) path (Root [''a'', ''b'', ''c''])"
  by (rule merkle_proof_complete) simp

text \<open>
  C19. No forged inclusion proofs: whatever path is presented, of whatever length and with whatever
  sibling bytes, if \<open>VerifyProof\<close> accepts it for a leaf against the root of a non-empty list then
  that leaf is in the list, or the verification and the construction of the root hashed two different
  inputs to the same SHA-256 value.  The 0x00/0x01 prefixes make this hold for paths of any length.
\<close>

theorem merkle_proof_sound:
  assumes "leaves \<noteq> []" and "VerifyProof leaf path (Root leaves)"
  shows "leaf \<in> set leaves \<or> sha256_collision (verify_inputs leaf path) (root_inputs leaves)"
  using assms by (intro verified_leaf_in_tree)

theorem merkle_proof_sound_witness:
  "[''a''] \<noteq> [] \<and> VerifyProof ''a'' [] (Root [''a'']) \<and>
   (''a'' \<in> set [''a''] \<or> sha256_collision (verify_inputs ''a'' []) (root_inputs [''a'']))"
proof -
  have v: "VerifyProof ''a'' [] (Root [''a''])"
    by (simp add: VerifyProof_def Root_def root_loop.simps)
  show ?thesis using v merkle_proof_sound [OF _ v] by simp
qed

text \<open>
  The root commits to the leaves: two lists of the same length with the same root are the same
  list, or building the two roots hashed two different inputs to the same SHA-256 value.
\<close>

theorem merkle_root_binding:
  assumes "length xs = length ys" and "Root xs = Root ys"
  shows "xs = ys \<or> sha256_collision (root_inputs xs) (root_inputs ys)"
  using assms by (rule root_binding)

theorem merkle_root_binding_witness:
  "length [''a'', ''b''] = length [''a'', ''b''] \<and> Root [''a'', ''b''] = Root [''a'', ''b''] \<and>
   ([''a'', ''b''] = [''a'', ''b''] \<or>
    sha256_collision (root_inputs [''a'', ''b'']) (root_inputs [''a'', ''b'']))"
  using merkle_root_binding [of "[''a'', ''b'']" "[''a'', ''b'']"] by simp

text \<open>
  Without the number of leaves the root does not commit to them: duplicating the last leaf of an
  odd tree of at least three leaves gives the same root.  The number of leaves (an anchor's
  \<open>event_count\<close>) is therefore part of what an auditor has to check.
\<close>

theorem merkle_odd_duplicate:
  assumes "odd (length leaves)" and "length leaves > 1"
  shows "Root (leaves @ [last leaves]) = Root leaves"
  using assms by (rule root_duplicate_last)

theorem merkle_odd_duplicate_witness:
  "odd (length [''a'', ''b'', ''c'']) \<and> length [''a'', ''b'', ''c''] > 1 \<and>
   Root ([''a'', ''b'', ''c''] @ [last [''a'', ''b'', ''c'']]) = Root [''a'', ''b'', ''c'']"
  using merkle_odd_duplicate [of "[''a'', ''b'', ''c'']"] by simp

text \<open>
  Shape of \<open>Proof\<close>: it fails with the range error exactly when the index is not a position of the
  list, and otherwise the path has the least length \<open>k\<close> with \<open>2^k\<close> at least the number of leaves.
\<close>

theorem merkle_proof_shape:
  "(Proof leaves i = Inl (ErrMsg ''merkle: index out of range'') \<longleftrightarrow>
      i < 0 \<or> int (length leaves) \<le> i) \<and>
   (\<forall>path. Proof leaves i = Inr path \<longrightarrow>
      length leaves \<le> 2 ^ length path \<and> (\<forall>k < length path. 2 ^ k < length leaves))"
proof (intro conjI allI impI)
  fix path
  assume p: "Proof leaves i = Inr path"
  then have i: "0 \<le> i" "nat i < length (map hashLeaf leaves)" and
    path: "path = proof_loop (map hashLeaf leaves) (nat i)"
    by (auto simp: Proof_def split: if_splits)
  note len = proof_loop_length [OF i(2)]
  from len path show "length leaves \<le> 2 ^ length path" by simp
  fix k assume k: "k < length path"
  then have "length leaves > 1"
    using path by (cases "length leaves > 1") (simp_all add: proof_loop.simps)
  with len path have "2 ^ (length path - 1) < length leaves" by simp
  moreover from k have "(2::nat) ^ k \<le> 2 ^ (length path - 1)" by (intro power_increasing) auto
  ultimately show "2 ^ k < length leaves" by linarith
qed (auto simp: Proof_def split: if_splits)

theorem merkle_proof_shape_witness:
  "(Proof [''a''] 7 = Inl (ErrMsg ''merkle: index out of range'') \<longleftrightarrow> 7 < (0::int) \<or> int (length [''a'']) \<le> 7) \<and>
   (\<exists>path. Proof [''a''] 0 = Inr path \<and> length [''a''] \<le> 2 ^ length path)"
proof -
  have p: "Proof [''a''] 0 = Inr []" by (simp add: Proof_def proof_loop.simps)
  from merkle_proof_shape [of "[''a'']" 7] merkle_proof_shape [of "[''a'']" 0] p
  show ?thesis by auto
qed

end
