(* ===== verification/Anchoring.thy ===== *)
theory Anchoring
  imports ChainBackfill MerkleTree
begin

text \<open>
  Notarization of the custody chain: \<open>internal/store/anchor.go\<close> (the \<open>anchor_batches\<close> table) and
  \<open>internal/anchor/service.go\<close> (\<open>CreateAnchor\<close>, \<open>Proof\<close>).  A signer and a public-ledger provider are
  Go interfaces, here records of their methods; the implementations are in \<open>AnchorKeys\<close>.  Log lines
  are not modelled.
\<close>

section \<open>The anchor table\<close>

definition ChainHeadSeq :: "('z db_scheme, int \<times> bool) cmd" where
  "ChainHeadSeq = queryC (\<lambda>s. case sort_key (\<lambda>b. - cc_seq_index b) (custody_chain s) of
     [] \<Rightarrow> (0, False) | b # _ \<Rightarrow> (cc_seq_index b, True))"

definition newest_anchors :: "'z db_scheme \<Rightarrow> AnchorRow list" where
  "newest_anchors s = sort_key (\<lambda>a. - an_ToSeq a) (anchor_batches s)"

definition LastAnchoredSeq :: "('z db_scheme, int \<times> bool) cmd" where
  "LastAnchoredSeq = queryC (\<lambda>s. case newest_anchors s of [] \<Rightarrow> (0, False) | a # _ \<Rightarrow> (an_ToSeq a, True))"

record LeafRange =
  lr_leaves :: "string list"
  lr_seqs :: "int list"
  lr_start :: int
  lr_end :: int

fun leaf_loop :: "chain_row list \<Rightarrow> LeafRange \<Rightarrow> err + LeafRange" where
  "leaf_loop [] acc = Inr acc"
| "leaf_loop (b # bs) acc =
     (case hex_decode (cc_event_hash b) of
        None \<Rightarrow> Inl (ErrMsg (''decode event_hash at seq '' @ int_str (cc_seq_index b)))
      | Some raw \<Rightarrow>
          leaf_loop bs \<lparr>lr_leaves = lr_leaves acc @ [raw], lr_seqs = lr_seqs acc @ [cc_seq_index b],
                        lr_start = (if lr_leaves acc = [] then cc_occurred_at b else lr_start acc),
                        lr_end = cc_occurred_at b\<rparr>)"

definition chain_range :: "int \<Rightarrow> int \<Rightarrow> 'z db_scheme \<Rightarrow> chain_row list" where
  "chain_range afterSeq toSeq s =
     by_seq (filter (\<lambda>b. cc_seq_index b > afterSeq \<and> cc_seq_index b \<le> toSeq) (custody_chain s))"

definition ChainLeafRange :: "int \<Rightarrow> int \<Rightarrow> ('z db_scheme, LeafRange) cmd" where
  "ChainLeafRange afterSeq toSeq =
     bindC (queryC (chain_range afterSeq toSeq)) (\<lambda>rows.
       liftC (leaf_loop rows \<lparr>lr_leaves = [], lr_seqs = [], lr_start = zero_time, lr_end = zero_time\<rparr>))"

text \<open>\<open>UNIQUE (to_seq)\<close>, the range check, and \<open>event_count INTEGER\<close>.\<close>

definition insert_anchor_sql :: "AnchorRow \<Rightarrow> 'z db_scheme \<Rightarrow> err + (AnchorRow \<times> 'z db_scheme)" where
  "insert_anchor_sql a s =
     (if an_EventCount a \<ge> 2 ^ 31 then Inl ErrDB
      else if list_ex (\<lambda>b. an_ToSeq b = an_ToSeq a) (anchor_batches s) \<or>
              \<not> (an_ToSeq a \<ge> an_FromSeq a \<and> an_EventCount a > 0) then Inl ErrConflict
      else let row = a\<lparr>an_ID := fresh_id s, an_CreatedAt := now_us s\<rparr>
           in Inr (row, s\<lparr>anchor_batches := anchor_batches s @ [row], fresh_id := Suc (fresh_id s)\<rparr>))"

definition InsertAnchor :: "AnchorRow \<Rightarrow> ('z db_scheme, AnchorRow) cmd" where
  "InsertAnchor a = execC (insert_anchor_sql a)"

definition scanAnchor :: "AnchorRow list \<Rightarrow> ('s, AnchorRow) cmd" where
  "scanAnchor rows = (case rows of [] \<Rightarrow> failC ErrNotFound | a # _ \<Rightarrow> retC a)"

definition LatestAnchor :: "('z db_scheme, AnchorRow) cmd" where
  "LatestAnchor = bindC (queryC newest_anchors) scanAnchor"

definition ListAnchors :: "int \<Rightarrow> ('z db_scheme, AnchorRow list) cmd" where
  "ListAnchors limit = queryC (\<lambda>s. take (nat (clamp_limit 500 100 limit)) (newest_anchors s))"

definition AnchorCoveringSeq :: "int \<Rightarrow> ('z db_scheme, AnchorRow) cmd" where
  "AnchorCoveringSeq seq =
     bindC (queryC (\<lambda>s. filter (\<lambda>a. an_FromSeq a \<le> seq \<and> seq \<le> an_ToSeq a) (newest_anchors s))) scanAnchor"

section \<open>The service\<close>

record Signer =
  sg_Algo :: string
  sg_KeyID :: string
  sg_Sign :: "string \<Rightarrow> err + string"
  sg_PublicKeyHex :: string

record AnchorMeta =
  am_Schema :: string
  am_EventCount :: int
  am_FromSeq :: int
  am_ToSeq :: int
  am_PeriodEnd :: int       \<comment> \<open>the instant; the code renders it with \<open>time.RFC3339\<close>\<close>
  am_KeyID :: string

record AnchorProvider =
  pv_Name :: string
  pv_PublishRoot :: "string \<Rightarrow> AnchorMeta \<Rightarrow> err + string"
  pv_VerifyRoot :: "string \<Rightarrow> string \<Rightarrow> err + bool"

definition noneSigner :: Signer where
  "noneSigner = \<lparr>sg_Algo = ''none'', sg_KeyID = [], sg_Sign = (\<lambda>_. Inr []), sg_PublicKeyHex = []\<rparr>"

definition noopProvider :: AnchorProvider where
  "noopProvider = \<lparr>pv_Name = ''none'', pv_PublishRoot = (\<lambda>_ _. Inl ErrProviderDisabled),
     pv_VerifyRoot = (\<lambda>_ _. Inl ErrProviderDisabled)\<rparr>"

record Service =
  sv_signer :: Signer
  sv_provider :: AnchorProvider

definition NewService :: "Signer option \<Rightarrow> AnchorProvider option \<Rightarrow> Service" where
  "NewService signer provider = \<lparr>
     sv_signer = (case signer of None \<Rightarrow> noneSigner | Some g \<Rightarrow> g),
     sv_provider = (case provider of None \<Rightarrow> noopProvider | Some p \<Rightarrow> p)\<rparr>"

definition SignerInfo :: "Service \<Rightarrow> string \<times> string \<times> string" where
  "SignerInfo sv = (sg_Algo (sv_signer sv), sg_KeyID (sv_signer sv), sg_PublicKeyHex (sv_signer sv))"

text \<open>\<open>CreateAnchor\<close> up to the signed row: head, last anchor, leaves, root, signature.\<close>

definition anchor_row :: "Signer \<Rightarrow> int \<Rightarrow> LeafRange \<Rightarrow> string \<Rightarrow> AnchorRow" where
  "anchor_row sg head lr sig = \<lparr>an_ID = 0, an_FromSeq = hd (lr_seqs lr), an_ToSeq = head,
     an_EventCount = int (length (lr_leaves lr)), an_MerkleRoot = hex_encode (Root (lr_leaves lr)),
     an_Algo = sg_Algo sg, an_KeyID = sg_KeyID sg, an_Signature = sig,
     an_PeriodStart = lr_start lr, an_PeriodEnd = lr_end lr, an_Provider = ''none'',
     an_TxRef = None, an_AnchoredAt = None, an_CreatedAt = zero_time\<rparr>"

definition plan_anchor :: "Signer \<Rightarrow> ('z db_scheme, string \<times> AnchorRow) cmd" where
  "plan_anchor sg =
     bindC ChainHeadSeq (\<lambda>(head, ok).
       if \<not> ok then failC ErrNothingToAnchor
       else bindC LastAnchoredSeq (\<lambda>(last, _).
         if head \<le> last then failC ErrNothingToAnchor
         else bindC (ChainLeafRange last head) (\<lambda>lr.
           if lr_leaves lr = [] then failC ErrNothingToAnchor
           else let mroot = Root (lr_leaves lr) in
             case sg_Sign sg mroot of
               Inl e \<Rightarrow> failC (ErrWrap ''sign root'' e)
             | Inr sig \<Rightarrow> retC (mroot, anchor_row sg head lr sig))))"

text \<open>The optional public anchor: any provider error leaves the row as it is.\<close>

definition publish_anchor :: "Service \<Rightarrow> string \<Rightarrow> AnchorRow \<Rightarrow> ('z db_scheme, AnchorRow) cmd" where
  "publish_anchor sv mroot row =
     (if pv_Name (sv_provider sv) \<noteq> ''none'' then
        case pv_PublishRoot (sv_provider sv) mroot
               \<lparr>am_Schema = ''iag.custody.anchor.v1'', am_EventCount = an_EventCount row,
                am_FromSeq = an_FromSeq row, am_ToSeq = an_ToSeq row, am_PeriodEnd = an_PeriodEnd row,
                am_KeyID = sg_KeyID (sv_signer sv)\<rparr> of
          Inr txRef \<Rightarrow>
            if txRef \<noteq> [] then
              bindC (getC now_us) (\<lambda>now. retC (row\<lparr>an_Provider := pv_Name (sv_provider sv),
                 an_TxRef := Some txRef, an_AnchoredAt := Some now\<rparr>))
            else retC row
        | Inl e \<Rightarrow> retC row
      else retC row)"

definition CreateAnchor :: "Service \<Rightarrow> ('z db_scheme, AnchorRow) cmd" where
  "CreateAnchor sv =
     bindC (plan_anchor (sv_signer sv)) (\<lambda>(mroot, row).
     bindC (publish_anchor sv mroot row) InsertAnchor)"

definition Latest :: "Service \<Rightarrow> ('z db_scheme, AnchorRow) cmd" where
  "Latest sv = LatestAnchor"

definition List :: "Service \<Rightarrow> int \<Rightarrow> ('z db_scheme, AnchorRow list) cmd" where
  "List sv limit = ListAnchors limit"

record ProofNodeDTO =
  pd_Hash :: string
  pd_Side :: string

record ProofResult =
  pf_SeqIndex :: int
  pf_Leaf :: string
  pf_MerkleRoot :: string
  pf_Path :: "ProofNodeDTO list"
  pf_Verified :: bool
  pf_Anchor :: AnchorRow

text \<open>\<open>raw, _ := hex.DecodeString(s)\<close>: the bytes decoded before the first error.\<close>

fun hex_decoded :: "string \<Rightarrow> string" where
  "hex_decoded (a # b # cs) =
     (case (unhex_char a, unhex_char b) of
        (Some x, Some y) \<Rightarrow> byte (16 * x + y) # hex_decoded cs | _ \<Rightarrow> [])"
| "hex_decoded _ = []"

fun index_of :: "int \<Rightarrow> int list \<Rightarrow> int" where
  "index_of x [] = - 1"
| "index_of x (y # ys) = (if y = x then 0 else let r = index_of x ys in if r < 0 then - 1 else r + 1)"

definition to_dto :: "ProofNode \<Rightarrow> ProofNodeDTO" where
  "to_dto n = \<lparr>pd_Hash = hex_encode (pn_Hash n), pd_Side = (if pn_Right n then ''right'' else ''left'')\<rparr>"

definition Service_Proof :: "Service \<Rightarrow> int \<Rightarrow> ('z db_scheme, ProofResult) cmd" where
  "Service_Proof sv seq =
     bindC (AnchorCoveringSeq seq) (\<lambda>anchor.
     bindC (ChainLeafRange (an_FromSeq anchor - 1) (an_ToSeq anchor)) (\<lambda>lr.
       let idx = index_of seq (lr_seqs lr) in
       if idx < 0 then failC ErrNotFound
       else bindC (liftC (Proof (lr_leaves lr) idx)) (\<lambda>path.
         let rootBytes = hex_decoded (an_MerkleRoot anchor);
             leaf = lr_leaves lr ! nat idx in
         retC \<lparr>pf_SeqIndex = seq, pf_Leaf = hex_encode leaf, pf_MerkleRoot = an_MerkleRoot anchor,
               pf_Path = map to_dto path, pf_Verified = VerifyProof leaf path rootBytes,
               pf_Anchor = anchor\<rparr>)))"

section \<open>What the leaves of a range are\<close>

lemma hex_decoded_decode: "hex_decode t = Some r \<Longrightarrow> hex_decoded t = r"
  by (induction t arbitrary: r rule: hex_decode.induct) (auto split: option.splits)

definition leaf_of :: "chain_row \<Rightarrow> string" where
  "leaf_of b = hex_decoded (cc_event_hash b)"

definition hex_ok :: "chain_row \<Rightarrow> bool" where
  "hex_ok b \<longleftrightarrow> hex_decode (cc_event_hash b) = Some (leaf_of b)"

lemma leaf_loop_ok:
  "\<forall>b \<in> set bs. hex_ok b \<Longrightarrow>
   \<exists>lr. leaf_loop bs acc = Inr lr \<and> lr_leaves lr = lr_leaves acc @ map leaf_of bs \<and>
        lr_seqs lr = lr_seqs acc @ map cc_seq_index bs"
  by (induction bs acc rule: leaf_loop.induct) (auto simp: hex_ok_def)

lemma chain_ok_hex: 
  assumes "chain_ok X s" and "b \<in> set (custody_chain s)"
  shows "hex_ok b"
proof -
  have "block_digest X b = cc_event_hash b"
    using assms linked_digest [of cc_prev_hash cc_event_hash "block_digest X" GenesisHash "custody_chain s" b]
    by (simp add: chain_ok_def)
  then have "cc_event_hash b = hex_encode (sha256 (block_text X b))" by (simp add: block_digest_text)
  then have "hex_decode (cc_event_hash b) = Some (sha256 (block_text X b))" by simp
  then show ?thesis by (simp add: hex_ok_def leaf_of_def hex_decoded_decode)
qed

text \<open>The blocks numbered \<open>fr..to\<close>.\<close>

definition blocks :: "int \<Rightarrow> int \<Rightarrow> chain_row list \<Rightarrow> chain_row list" where
  "blocks fr to c = filter (\<lambda>b. fr \<le> cc_seq_index b \<and> cc_seq_index b \<le> to) c"

lemma filter_upto: "filter (\<lambda>i. a \<le> i \<and> i \<le> b) [l..u :: int] = [max l a..min u b]"
  by (rule sorted_distinct_set_unique) (auto simp: sorted_wrt_filter)

lemma chain_range_blocks:
  assumes "chain_ok X s"
  shows "chain_range (fr - 1) to s = blocks fr to (custody_chain s)"
proof -
  have eq: "(fr - 1 < cc_seq_index b \<and> cc_seq_index b \<le> to) = (fr \<le> cc_seq_index b \<and> cc_seq_index b \<le> to)" for b
    by linarith
  have "sorted (map cc_seq_index (custody_chain s))" using assms by (simp add: chain_ok_def)
  then have "sorted (map cc_seq_index (blocks fr to (custody_chain s)))"
    unfolding blocks_def by (rule sorted_filter)
  then show ?thesis by (simp add: chain_range_def by_seq_def eq blocks_def [symmetric] sort_key_id)
qed

lemma blocks_seqs:
  assumes "chain_ok X s" and "1 \<le> fr" and "to \<le> block_count s"
  shows "map cc_seq_index (blocks fr to (custody_chain s)) = [fr..to]"
proof -
  have "map cc_seq_index (blocks fr to (custody_chain s)) =
      filter (\<lambda>i. fr \<le> i \<and> i \<le> to) (map cc_seq_index (custody_chain s))"
    by (simp add: blocks_def filter_map o_def)
  also have "\<dots> = [fr..to]"
    using assms by (simp add: chain_ok_def block_count_def filter_upto)
  finally show ?thesis .
qed

lemma blocks_grow:
  "\<forall>b \<in> set new. to < cc_seq_index b \<Longrightarrow> blocks fr to (c @ new) = blocks fr to c"
  by (auto simp: blocks_def filter_empty_conv)

text \<open>In a well-formed chain the leaves of a range can always be read.\<close>

lemma ChainLeafRange_ok:
  assumes "chain_ok X s"
  obtains (io) s' where "ChainLeafRange (fr - 1) to s = (Inl ErrDB, s')" "ticks s s'"
  | (ok) lr s' where "ChainLeafRange (fr - 1) to s = (Inr lr, s')" "ticks s s'"
      "lr_leaves lr = map leaf_of (blocks fr to (custody_chain s))"
      "lr_seqs lr = map cc_seq_index (blocks fr to (custody_chain s))"
proof (cases "next_io s = IoOk")
  case False
  then show ?thesis
    by (intro io [of "step_io s"]) (simp_all add: ChainLeafRange_def bindC_def handleC_def queryC_def failC_def)
next
  case True
  have "chain_range (fr - 1) to (step_io s) = blocks fr to (custody_chain s)"
    using chain_range_blocks [of X "step_io s"] assms by simp
  moreover obtain lr where "leaf_loop (blocks fr to (custody_chain s))
      \<lparr>lr_leaves = [], lr_seqs = [], lr_start = zero_time, lr_end = zero_time\<rparr> = Inr lr"
    "lr_leaves lr = map leaf_of (blocks fr to (custody_chain s))"
    "lr_seqs lr = map cc_seq_index (blocks fr to (custody_chain s))"
    using leaf_loop_ok [of "blocks fr to (custody_chain s)"
        "\<lparr>lr_leaves = [], lr_seqs = [], lr_start = zero_time, lr_end = zero_time\<rparr>"] chain_ok_hex [OF assms]
    by (auto simp: blocks_def)
  ultimately show ?thesis using True
    by (intro ok [of lr "step_io s"])
       (simp_all add: ChainLeafRange_def bindC_def handleC_def queryC_def liftC_def retC_def)
qed

section \<open>The anchor invariant\<close>

text \<open>
  An anchor is sound when it commits to blocks \<open>FromSeq..ToSeq\<close> of the chain, all of which exist,
  by the Merkle root of their hashes.
\<close>

definition anchor_sound :: "'z db_scheme \<Rightarrow> AnchorRow \<Rightarrow> bool" where
  "anchor_sound s a \<longleftrightarrow>
     1 \<le> an_FromSeq a \<and> an_FromSeq a \<le> an_ToSeq a \<and> an_ToSeq a \<le> block_count s \<and>
     an_EventCount a = an_ToSeq a - an_FromSeq a + 1 \<and>
     an_MerkleRoot a =
       hex_encode (Root (map leaf_of (blocks (an_FromSeq a) (an_ToSeq a) (custody_chain s))))"

text \<open>\<open>anchored s k\<close>: some anchor covers block \<open>k\<close>.\<close>

definition anchored :: "'z db_scheme \<Rightarrow> int \<Rightarrow> bool" where
  "anchored s k \<longleftrightarrow> (\<exists>a \<in> set (anchor_batches s). an_FromSeq a \<le> k \<and> k \<le> an_ToSeq a)"

definition anchors_ok :: "'z db_scheme \<Rightarrow> bool" where
  "anchors_ok s \<longleftrightarrow>
     (\<forall>a \<in> set (anchor_batches s). anchor_sound s a \<and> (\<forall>k. 1 \<le> k \<longrightarrow> k \<le> an_ToSeq a \<longrightarrow> anchored s k)) \<and>
     distinct (map an_ToSeq (anchor_batches s))"

text \<open>What appending to the chain does to it.\<close>

definition chain_extends :: "'z db_scheme \<Rightarrow> 'z db_scheme \<Rightarrow> bool" where
  "chain_extends s s' \<longleftrightarrow> (\<exists>new. custody_chain s' = custody_chain s @ new)"

lemma anchor_sound_extends:
  assumes "anchor_sound s a" and "chain_extends s s'" and "chain_ok X s'"
  shows "anchor_sound s' a"
proof -
  from assms(2) obtain new where c: "custody_chain s' = custody_chain s @ new"
    by (auto simp: chain_extends_def)
  have "an_ToSeq a < cc_seq_index b" if "b \<in> set new" for b
  proof -
    have "map cc_seq_index (custody_chain s') = [1..block_count s']" using assms(3) by (simp add: chain_ok_def block_count_def)
    also have "\<dots> = [1..block_count s] @ [block_count s + 1..block_count s']"
      using upto_split1 [of 1 "block_count s + 1" "block_count s'"] by (cases new) (simp_all add: block_count_def c)
    finally have "map cc_seq_index (custody_chain s) @ map cc_seq_index new =
        [1..block_count s] @ [block_count s + 1..block_count s']" by (simp add: c)
    then have "map cc_seq_index new = [block_count s + 1..block_count s']"
      by (subst (asm) append_eq_append_conv) (simp_all add: block_count_def)
    then have "cc_seq_index b \<in> set [block_count s + 1..block_count s']" using that by (metis imageI list.set_map)
    then show ?thesis using assms(1) by (simp add: anchor_sound_def)
  qed
  then have "blocks (an_FromSeq a) (an_ToSeq a) (custody_chain s') = blocks (an_FromSeq a) (an_ToSeq a) (custody_chain s)"
    unfolding c by (intro blocks_grow) blast
  with assms(1) show ?thesis by (simp add: anchor_sound_def block_count_def c)
qed

lemma chain_extends_refl [simp]: "chain_extends s s"
  by (simp add: chain_extends_def)

lemma chain_extends_ticks: "ticks s s' \<Longrightarrow> chain_extends s s'"
  by (simp add: chain_extends_def ticks_db)

text \<open>Commands that only add to the chain and leave the anchors alone.\<close>

definition grown_from :: "chain_row list \<Rightarrow> AnchorRow list \<Rightarrow> 'z db_scheme \<Rightarrow> bool" where
  "grown_from c as s \<longleftrightarrow> (\<exists>new. custody_chain s = c @ new) \<and> anchor_batches s = as"

lemma tables_only_grown: "tables_only (grown_from c as)"
  by (simp add: tables_only_def grown_from_def)

lemma keeps_grown_event: "keeps (grown_from c as) (execC (insert_event_sql X i))"
  by (rule keeps_execC [OF tables_only_grown]) (auto elim!: insert_event_sql_Inr simp: grown_from_def)

lemma keeps_grown_chain: "keeps (grown_from c as) (execC (insert_chain_sql X b))"
  by (rule keeps_execC [OF tables_only_grown]) (auto simp: insert_chain_sql_Inr grown_from_def)

lemma keeps_grown_loop: "keeps (grown_from c as) (backfill_loop X head ps)"
  by (induction X head ps rule: backfill_loop.induct)
     (auto simp: Let_def intro!: keeps_intros keeps_grown_chain)

lemma keeps_grown_AppendEvent: "keeps (grown_from c as) (AppendEvent X ce i)"
  unfolding AppendEvent_def Let_def appendEventChained_def append_body_def chain_lock_def
  by (intro keeps_intros keeps_grown_event keeps_txC tables_only_grown keeps_grown_chain
      draws_insert_event draws_insert_chain)

lemma keeps_tx_earlyC:
  assumes "tables_only P" and "keeps P body" and "draws_ids body"
  shows "keeps P (tx_earlyC body)"
proof (rule keepsI)
  fix s assume s: "P s"
  then have s0: "P (step_io s)" by (rule tables_only_step_io [OF assms(1)])
  show "P (snd (tx_earlyC body s))"
  proof (cases rule: tx_earlyC_effect [OF assms(3), of s, case_names same whole])
    case same
    then show ?thesis using tables_only_ticks [OF assms(1) _ s] by blast
  next
    case (whole c a s1)
    have "P s1" using keepsD [OF assms(2) s0] whole(1) by simp
    then show ?thesis using whole(3) tables_only_step_io [OF assms(1)] by simp
  qed
qed

lemma keeps_grown_backfill: "keeps (grown_from c as) (backfill X dry)"
  unfolding backfill_def
  by (rule keeps_tx_earlyC [OF tables_only_grown _ draws_backfill_body])
     (auto simp: backfill_body_def chain_lock_def intro!: keeps_intros keeps_grown_loop tables_only_grown)

lemma anchors_ok_grown:
  assumes "anchors_ok s" and "grown_from (custody_chain s) (anchor_batches s) s'" and "chain_ok X s'"
  shows "anchors_ok s'" and "chain_extends s s'"
proof -
  from assms(2) show e: "chain_extends s s'" by (simp add: grown_from_def chain_extends_def)
  from assms show "anchors_ok s'"
    using anchor_sound_extends [OF _ e assms(3)]
    by (auto simp: anchors_ok_def grown_from_def anchored_def)
qed

lemma grown_refl: "grown_from (custody_chain s) (anchor_batches s) s"
  by (simp add: grown_from_def)

section \<open>What planning and inserting an anchor do\<close>

definition covered_below :: "'z db_scheme \<Rightarrow> AnchorRow \<Rightarrow> bool" where
  "covered_below s a \<longleftrightarrow> (\<forall>k. 1 \<le> k \<longrightarrow> k < an_FromSeq a \<longrightarrow> anchored s k)"

lemma newest_anchors_max:
  assumes "newest_anchors s = a # rest"
  shows "a \<in> set (anchor_batches s)" and "b \<in> set (anchor_batches s) \<Longrightarrow> an_ToSeq b \<le> an_ToSeq a"
proof -
  have set: "set (newest_anchors s) = set (anchor_batches s)" by (simp add: newest_anchors_def)
  with assms show "a \<in> set (anchor_batches s)" by auto
  have "sorted (map (\<lambda>a. - an_ToSeq a) (a # rest))"
    unfolding assms [symmetric] newest_anchors_def by simp
  then show "an_ToSeq b \<le> an_ToSeq a" if "b \<in> set (anchor_batches s)"
    using that set assms by auto
qed

definition last_anchored :: "'z db_scheme \<Rightarrow> int" where
  "last_anchored s = (case newest_anchors s of [] \<Rightarrow> 0 | a # _ \<Rightarrow> an_ToSeq a)"

lemma last_anchored_bounds:
  assumes "anchors_ok s"
  shows "0 \<le> last_anchored s" and "b \<in> set (anchor_batches s) \<Longrightarrow> an_ToSeq b \<le> last_anchored s"
    and "1 \<le> k \<Longrightarrow> k \<le> last_anchored s \<Longrightarrow> anchored s k"
proof -
  have "0 \<le> last_anchored s \<and> (b \<in> set (anchor_batches s) \<longrightarrow> an_ToSeq b \<le> last_anchored s) \<and>
      (1 \<le> k \<longrightarrow> k \<le> last_anchored s \<longrightarrow> anchored s k)"
  proof (cases "newest_anchors s")
    case Nil
    then have "anchor_batches s = []"
      using length_sort [of "\<lambda>a. - an_ToSeq a" "anchor_batches s"] by (simp add: newest_anchors_def)
    with Nil show ?thesis by (simp add: last_anchored_def)
  next
    case (Cons a rest)
    from newest_anchors_max [OF Cons] assms show ?thesis
      by (fastforce simp: last_anchored_def Cons anchors_ok_def anchor_sound_def)
  qed
  then show "0 \<le> last_anchored s" and "b \<in> set (anchor_batches s) \<Longrightarrow> an_ToSeq b \<le> last_anchored s"
    and "1 \<le> k \<Longrightarrow> k \<le> last_anchored s \<Longrightarrow> anchored s k" by auto
qed

lemma ChainHeadSeq_Inr:
  assumes "chain_ok X s" and "ChainHeadSeq s = (Inr (head, ok), s')"
  shows "s' = step_io s" and "head = block_count s" and "ok \<longleftrightarrow> custody_chain s \<noteq> []"
proof -
  from assms(2) show "s' = step_io s" by (simp add: ChainHeadSeq_def queryC_Inr_iff)
  have "fst (chain_head s) = block_count s" by (simp add: chain_head_ok [OF assms(1)])
  moreover have "sort_key (\<lambda>b. - cc_seq_index b) (custody_chain s) = [] \<longleftrightarrow> custody_chain s = []"
    using length_sort [of "\<lambda>b. - cc_seq_index b" "custody_chain s"] by (metis length_0_conv)
  ultimately show "head = block_count s" and "ok \<longleftrightarrow> custody_chain s \<noteq> []"
    using assms(2) by (auto simp: ChainHeadSeq_def queryC_Inr_iff chain_head_def split: list.splits)
qed

lemma LastAnchoredSeq_Inr:
  "LastAnchoredSeq s = (Inr (n, ok), s') \<Longrightarrow> s' = step_io s \<and> n = last_anchored s"
  by (auto simp: LastAnchoredSeq_def queryC_Inr_iff last_anchored_def newest_anchors_def split: list.splits)

text \<open>A planned row is sound, starts right after the last anchor and ends at the head.\<close>

lemma plan_anchor_Inr:
  assumes ok: "chain_ok X s" "anchors_ok s" and plan: "plan_anchor sg s = (Inr (mroot, row), s')"
  shows "ticks s s'" and "anchor_sound s row" and "covered_below s row"
    and "an_FromSeq row = last_anchored s + 1" and "an_ToSeq row = block_count s"
    and "mroot = Root (map leaf_of (blocks (an_FromSeq row) (an_ToSeq row) (custody_chain s)))"
    and "an_Provider row = ''none'' \<and> an_TxRef row = None" and "sg_Sign sg mroot = Inr (an_Signature row)"
proof -
  from plan obtain head hok lst lok lr s1 s2 s3 where
    h: "ChainHeadSeq s = (Inr (head, hok), s1)" and l: "LastAnchoredSeq s1 = (Inr (lst, lok), s2)"
    and lt: "lst < head" and r3: "ChainLeafRange lst head s2 = (Inr lr, s3)" and ne: "lr_leaves lr \<noteq> []"
    and last: "(case sg_Sign sg (Root (lr_leaves lr)) of Inl e \<Rightarrow> failC (ErrWrap ''sign root'' e)
             | Inr sig \<Rightarrow> retC (Root (lr_leaves lr), anchor_row sg head lr sig)) s3 = (Inr (mroot, row), s')"
    unfolding plan_anchor_def
    by (fastforce simp: bindC_Inr_iff failC_def Let_def split: if_splits)
  from last have sig: "sg_Sign sg mroot = Inr (an_Signature row)" and m: "mroot = Root (lr_leaves lr)"
    and row: "row = anchor_row sg head lr (an_Signature row)" and s3: "s3 = s'"
    by (auto simp: failC_def retC_def anchor_row_def split: sum.splits)
  note r = r3 [unfolded s3]
  have s1: "s1 = step_io s" "head = block_count s" using ChainHeadSeq_Inr [OF ok(1) h] by simp_all
  have s2: "s2 = step_io s1" "lst = last_anchored s"
    using LastAnchoredSeq_Inr [OF l] by (simp_all add: s1 last_anchored_def newest_anchors_def)
  have ok2: "chain_ok X s2" using ok(1) by (simp add: s2 s1)
  let ?bs = "blocks (lst + 1) head (custody_chain s)"
  have "lr_leaves lr = map leaf_of ?bs \<and> lr_seqs lr = map cc_seq_index ?bs \<and> ticks s2 s'"
    using r by (cases rule: ChainLeafRange_ok [OF ok2, of "lst + 1" head, case_names io ok])
      (auto simp: s1 s2)
  then have lr: "lr_leaves lr = map leaf_of ?bs" "lr_seqs lr = map cc_seq_index ?bs" "ticks s2 s'" by auto
  have t: "ticks s s2" unfolding s2 s1 by (rule ticks_trans [OF ticks_step_io ticks_step_io])
  show "ticks s s'" by (rule ticks_trans [OF t lr(3)])
  have ge: "0 \<le> lst" using last_anchored_bounds(1) [OF ok(2)] by (simp add: s2)
  have seqs: "lr_seqs lr = [lst + 1..head]"
    unfolding lr(2) using blocks_seqs [OF ok(1)] ge by (simp add: s1)
  have "length (lr_leaves lr) = length (lr_seqs lr)" by (simp add: lr)
  then have len: "int (length (lr_leaves lr)) = head - lst" using lt by (simp add: seqs)
  have fr: "an_FromSeq row = lst + 1" and "an_ToSeq row = head" "an_EventCount row = head - lst"
    "an_MerkleRoot row = hex_encode mroot"
    using seqs lt len by (simp_all add: arg_cong [OF row, of an_FromSeq] arg_cong [OF row, of an_ToSeq]
        arg_cong [OF row, of an_EventCount] arg_cong [OF row, of an_MerkleRoot] anchor_row_def m upto_rec1)
  then show "an_FromSeq row = last_anchored s + 1" "an_ToSeq row = block_count s"
    and "anchor_sound s row"
    and "mroot = Root (map leaf_of (blocks (an_FromSeq row) (an_ToSeq row) (custody_chain s)))"
    using ge lt by (simp_all add: s1 s2 anchor_sound_def m lr(1))
  show "covered_below s row"
    using fr last_anchored_bounds(3) [OF ok(2)] by (simp add: covered_below_def s2)
  show "an_Provider row = ''none'' \<and> an_TxRef row = None"
    by (simp add: arg_cong [OF row, of an_Provider] arg_cong [OF row, of an_TxRef] anchor_row_def)
  show "sg_Sign sg mroot = Inr (an_Signature row)" by (rule sig)
qed

lemma insert_anchor_sql_Inr:
  "insert_anchor_sql a s = Inr (row, s') \<longleftrightarrow>
     an_EventCount a < 2 ^ 31 \<and> (\<forall>b \<in> set (anchor_batches s). an_ToSeq b \<noteq> an_ToSeq a) \<and>
     an_FromSeq a \<le> an_ToSeq a \<and> 0 < an_EventCount a \<and>
     row = a\<lparr>an_ID := fresh_id s, an_CreatedAt := now_us s\<rparr> \<and>
     s' = s\<lparr>anchor_batches := anchor_batches s @ [row], fresh_id := Suc (fresh_id s)\<rparr>"
  by (auto simp: insert_anchor_sql_def Let_def list_ex_iff)

text \<open>
  Inserting a sound row keeps the anchors in order even if the row was planned earlier, as long as
  the blocks below it are anchored: the chain only grows and anchors are never taken back.
\<close>

lemma insert_anchor_ok:
  assumes "anchors_ok s" and "anchor_sound s a" and "covered_below s a"
    and "insert_anchor_sql a s = Inr (row, s')"
  shows "anchors_ok s'"
proof -
  let ?row = "a\<lparr>an_ID := fresh_id s, an_CreatedAt := now_us s\<rparr>"
  have s': "s' = s\<lparr>anchor_batches := anchor_batches s @ [?row], fresh_id := Suc (fresh_id s)\<rparr>"
    and new: "an_ToSeq a \<notin> an_ToSeq ` set (anchor_batches s)"
    using assms(4) by (simp_all add: insert_anchor_sql_Inr image_iff) metis
  have sound: "anchor_sound s' b = anchor_sound s b" for b
    by (simp add: anchor_sound_def s' block_count_def)
  have row: "anchor_sound s ?row" using assms(2) by (simp add: anchor_sound_def)
  have anch: "anchored s' k \<longleftrightarrow> anchored s k \<or> an_FromSeq a \<le> k \<and> k \<le> an_ToSeq a" for k
    by (auto simp: anchored_def s')
  show ?thesis
    using assms(1,3) row new
    by (auto simp: anchors_ok_def sound anch covered_below_def) (auto simp: s')
qed

lemma publish_anchor_Inr:
  assumes "publish_anchor sv mroot row s = (res, s')"
  shows "s' = s" and "\<exists>row'. res = Inr row' \<and>
    row' = row\<lparr>an_Provider := an_Provider row', an_TxRef := an_TxRef row', an_AnchoredAt := an_AnchoredAt row'\<rparr>"
  using assms
  by (auto simp: publish_anchor_def bindC_def handleC_def getC_def retC_def split: if_splits sum.splits)

lemma sound_same_claim:
  assumes "row' = row\<lparr>an_Provider := p, an_TxRef := t, an_AnchoredAt := d\<rparr>"
  shows "anchor_sound s row' = anchor_sound s row" and "covered_below s row' = covered_below s row"
  by (simp_all add: assms anchor_sound_def covered_below_def)

lemma anchors_ok_ticks: "ticks s s' \<Longrightarrow> anchors_ok s \<Longrightarrow> anchors_ok s'"
  by (simp add: anchors_ok_def anchor_sound_def anchored_def block_count_def ticks_db)

lemma anchor_sound_ticks:
  "ticks s s' \<Longrightarrow> anchor_sound s' a = anchor_sound s a" "ticks s s' \<Longrightarrow> covered_below s' a = covered_below s a"
  by (simp_all add: anchor_sound_def covered_below_def anchored_def block_count_def ticks_db)

lemma plan_anchor_ticks: "ticks s (snd (plan_anchor sg s))"
proof -
  have "keeps (ticks s) (plan_anchor sg)"
    unfolding plan_anchor_def ChainHeadSeq_def LastAnchoredSeq_def ChainLeafRange_def Let_def
    by (intro keeps_intros tables_only_ticks_from)
  then show ?thesis by (rule keepsD) simp
qed

lemma CreateAnchor_effect:
  assumes ok: "chain_ok X s" "anchors_ok s" and run: "CreateAnchor sv s = (res, s')"
  obtains (none) e where "res = Inl e" "ticks s s'"
  | (row) row row0 t p tx d where "res = Inl ErrDB \<or> res = Inr row"
      "plan_anchor (sv_signer sv) s = (Inr (Root (map leaf_of (blocks (an_FromSeq row0) (an_ToSeq row0) (custody_chain s))), row0), t)"
      "ticks s t" "insert_anchor_sql (row0\<lparr>an_Provider := p, an_TxRef := tx, an_AnchoredAt := d\<rparr>) (step_io t) = Inr (row, s')"
proof -
  obtain r t where plan: "plan_anchor (sv_signer sv) s = (r, t)" by (cases "plan_anchor (sv_signer sv) s")
  have t: "ticks s t" using plan_anchor_ticks [of s "sv_signer sv"] plan by simp
  show thesis
  proof (cases r)
    case (Inl e)
    with plan run t show ?thesis by (intro none [of e]) (auto simp: CreateAnchor_def bindC_def handleC_def failC_def)
  next
    case (Inr mr)
    obtain mroot row0 where mr: "mr = (mroot, row0)" by (cases mr)
    obtain res1 t1 where pub: "publish_anchor sv mroot row0 t = (res1, t1)" by (cases "publish_anchor sv mroot row0 t")
    from publish_anchor_Inr [OF pub] obtain row1 where t1: "t1 = t" and r1: "res1 = Inr row1"
      and row1: "row1 = row0\<lparr>an_Provider := an_Provider row1, an_TxRef := an_TxRef row1, an_AnchoredAt := an_AnchoredAt row1\<rparr>"
      by blast
    have ins: "InsertAnchor row1 t = (res, s')"
      using run by (simp add: CreateAnchor_def bindC_def handleC_def plan Inr mr pub t1 r1)
    have m: "mroot = Root (map leaf_of (blocks (an_FromSeq row0) (an_ToSeq row0) (custody_chain s)))"
      using plan_anchor_Inr(6) [OF ok, of "sv_signer sv" mroot row0 t] plan Inr mr by simp
    have tt: "ticks s (step_io t)" by (rule ticks_trans [OF t ticks_step_io])
    show ?thesis
    proof (cases "next_io t \<noteq> IoErr \<and> (\<exists>row. insert_anchor_sql row1 (step_io t) = Inr (row, s'))")
      case False
      then have "ticks s s' \<and> (\<exists>e. res = Inl e)"
        using ins tt by (auto simp: InsertAnchor_def execC_def Let_def split: io.splits sum.splits prod.splits)
      then show ?thesis using none by blast
    next
      case True
      then obtain row where "insert_anchor_sql row1 (step_io t) = Inr (row, s')" by blast
      with ins True t plan Inr mr m row1 show ?thesis
        by (intro row [of row row0 t "an_AnchoredAt row1" "an_TxRef row1" "an_Provider row1"])
           (auto simp: InsertAnchor_def execC_def Let_def split: io.splits)
    qed
  qed
qed

lemma ChainLeafRange_healthy:
  assumes "chain_ok X s" and "script s = []"
  obtains lr where "ChainLeafRange (fr - 1) to s = (Inr lr, s)"
    "lr_leaves lr = map leaf_of (blocks fr to (custody_chain s))"
    "lr_seqs lr = map cc_seq_index (blocks fr to (custody_chain s))"
proof -
  obtain lr where "leaf_loop (blocks fr to (custody_chain s))
      \<lparr>lr_leaves = [], lr_seqs = [], lr_start = zero_time, lr_end = zero_time\<rparr> = Inr lr"
    "lr_leaves lr = map leaf_of (blocks fr to (custody_chain s))"
    "lr_seqs lr = map cc_seq_index (blocks fr to (custody_chain s))"
    using leaf_loop_ok [of "blocks fr to (custody_chain s)"
        "\<lparr>lr_leaves = [], lr_seqs = [], lr_start = zero_time, lr_end = zero_time\<rparr>"] chain_ok_hex [OF assms(1)]
    by (auto simp: blocks_def)
  with assms chain_range_blocks [OF assms(1)] show thesis
    by (intro that [of lr]) (simp_all add: ChainLeafRange_def bindC_def handleC_def healthy liftC_def retC_def)
qed

text \<open>On a healthy database, anchoring new blocks succeeds.\<close>

lemma plan_anchor_healthy:
  assumes ok: "chain_ok X s" "anchors_ok s" and sc: "script s = []" and new: "last_anchored s < block_count s"
    and sg: "sg_Sign sg (Root (map leaf_of (blocks (last_anchored s + 1) (block_count s) (custody_chain s)))) = Inr sig"
  shows "\<exists>mroot row. plan_anchor sg s = (Inr (mroot, row), s)"
proof -
  let ?bs = "blocks (last_anchored s + 1) (block_count s) (custody_chain s)"
  have "map cc_seq_index ?bs = [last_anchored s + 1..block_count s]"
    using blocks_seqs [OF ok(1)] last_anchored_bounds(1) [OF ok(2)] by simp
  then have ne: "?bs \<noteq> []" using new by (auto simp: upto_Nil2)
  obtain head hok where h0: "ChainHeadSeq s = (Inr (head, hok), s)"
    using sc by (cases "sort_key (\<lambda>b. - cc_seq_index b) (custody_chain s)") (auto simp: ChainHeadSeq_def healthy)
  then have h: "ChainHeadSeq s = (Inr (block_count s, hok), s)" using ChainHeadSeq_Inr(2) [OF ok(1) h0] by simp
  have hok: "hok" using ChainHeadSeq_Inr(3) [OF ok(1) h] ne by (auto simp: blocks_def)
  obtain lok where l: "LastAnchoredSeq s = (Inr (last_anchored s, lok), s)"
    by (cases "newest_anchors s") (auto simp: LastAnchoredSeq_def healthy sc last_anchored_def)
  obtain lr where lr: "ChainLeafRange (last_anchored s) (block_count s) s = (Inr lr, s)"
    "lr_leaves lr = map leaf_of ?bs" "lr_seqs lr = map cc_seq_index ?bs"
    using ChainLeafRange_healthy [OF ok(1) sc, of "last_anchored s + 1" "block_count s"] by auto
  have "plan_anchor sg s = (Inr (Root (map leaf_of ?bs), anchor_row sg (block_count s) lr sig), s)"
    using new ne sg by (simp add: plan_anchor_def bindC_def handleC_def h hok l lr retC_def)
  then show ?thesis by blast
qed

lemma insert_planned:
  assumes "anchors_ok s" and "anchor_sound s a" and "an_ToSeq a < 2 ^ 31"
    and "\<forall>b \<in> set (anchor_batches s). an_ToSeq b \<noteq> an_ToSeq a"
  shows "\<exists>row s'. insert_anchor_sql a s = Inr (row, s')"
  using assms by (auto simp: insert_anchor_sql_Inr anchor_sound_def)

lemma CreateAnchor_healthy:
  assumes ok: "chain_ok X s" "anchors_ok s" and sc: "script s = []"
    and new: "last_anchored s < block_count s" and small: "block_count s < 2 ^ 31"
    and sg: "sg_Sign (sv_signer sv) (Root (map leaf_of (blocks (last_anchored s + 1) (block_count s) (custody_chain s)))) = Inr sig"
  shows "\<exists>row s'. CreateAnchor sv s = (Inr row, s') \<and> script s' = []"
proof -
  obtain mroot row0 where plan: "plan_anchor (sv_signer sv) s = (Inr (mroot, row0), s)"
    using plan_anchor_healthy [OF ok sc new sg] by blast
  note pl = plan_anchor_Inr [OF ok plan]
  obtain res1 t1 where "publish_anchor sv mroot row0 s = (res1, t1)" by (cases "publish_anchor sv mroot row0 s")
  from this publish_anchor_Inr [OF this] obtain row1 where pub: "publish_anchor sv mroot row0 s = (Inr row1, s)"
    and row1: "row1 = row0\<lparr>an_Provider := an_Provider row1, an_TxRef := an_TxRef row1, an_AnchoredAt := an_AnchoredAt row1\<rparr>"
    by blast
  have "anchor_sound s row1" using pl(2) by (simp add: sound_same_claim(1) [OF row1])
  moreover have to: "an_ToSeq row1 = block_count s" using pl(5) by (simp add: arg_cong [OF row1, of an_ToSeq])
  moreover have "\<forall>b \<in> set (anchor_batches s). an_ToSeq b \<noteq> an_ToSeq row1"
    using last_anchored_bounds(2) [OF ok(2)] new to by fastforce
  ultimately obtain row s' where "insert_anchor_sql row1 s = Inr (row, s')"
    using insert_planned [OF ok(2), of row1] small by auto
  moreover from this have "CreateAnchor sv s = (Inr row, s')"
    by (simp add: CreateAnchor_def bindC_def handleC_def plan pub InsertAnchor_def healthy sc)
  ultimately show ?thesis using sc by (auto simp: insert_anchor_sql_Inr)
qed

lemma CreateAnchor_keeps:
  assumes "chain_ok X s" and "anchors_ok s" and "CreateAnchor sv s = (res, s')"
  shows "chain_ok X s' \<and> trace_events s' = trace_events s \<and> anchors_ok s' \<and> custody_chain s' = custody_chain s \<and>
         (\<forall>row. res = Inr row \<longrightarrow>
            an_ToSeq row = block_count s \<and> row \<in> set (anchor_batches s') \<and>
            sg_Sign (sv_signer sv) (hex_decoded (an_MerkleRoot row)) = Inr (an_Signature row) \<and>
            (\<forall>k. 1 \<le> k \<longrightarrow> k \<le> block_count s \<longrightarrow> anchored s' k))"
  using assms
proof (cases rule: CreateAnchor_effect)
  case (none e)
  then show ?thesis
    using assms(1,2) anchors_ok_ticks tables_only_ticks [OF tables_only_chain_ok] by (auto simp: ticks_db)
next
  case (row row row0 t p tx d)
  let ?row1 = "row0\<lparr>an_Provider := p, an_TxRef := tx, an_AnchoredAt := d\<rparr>"
  note pl = plan_anchor_Inr [OF assms(1,2) row(2)]
  have tt: "ticks s (step_io t)" by (rule ticks_trans [OF row(3) ticks_step_io])
  have "anchor_sound (step_io t) ?row1" "covered_below (step_io t) ?row1"
    using pl(2,3) by (simp_all add: anchor_sound_ticks [OF tt] sound_same_claim [OF refl])
  then have ok: "anchors_ok s'"
    using insert_anchor_ok [OF anchors_ok_ticks [OF tt assms(2)] _ _ row(4)] by blast
  have r: "an_ToSeq row = an_ToSeq row0" "an_MerkleRoot row = an_MerkleRoot row0" "an_Signature row = an_Signature row0"
    "row \<in> set (anchor_batches s')" "custody_chain s' = custody_chain s" "trace_events s' = trace_events s"
    using row(4) ticks_db(1,2) [OF tt] by (auto simp: insert_anchor_sql_Inr)
  have "hex_decoded (an_MerkleRoot row0) = Root (map leaf_of (blocks (an_FromSeq row0) (an_ToSeq row0) (custody_chain s)))"
    using pl(2) by (simp add: anchor_sound_def hex_decoded_decode)
  moreover have "\<forall>k. 1 \<le> k \<longrightarrow> k \<le> block_count s \<longrightarrow> anchored s' k"
    using ok r(4) r(1) pl(5) unfolding anchors_ok_def by auto
  moreover have "chain_ok X s'" using assms(1) r(5,6) by (simp add: chain_ok_def)
  ultimately show ?thesis using ok r pl(5,8) row(1) by auto
qed

section \<open>Properties\<close>

text \<open>
  C15. Anchoring is sound and complete: from a well-formed chain with sound anchors, \<open>CreateAnchor\<close>
  with any signer and any ledger provider, under any database behaviour, leaves the chain untouched
  and all anchors sound (each commits by its Merkle root to exactly the blocks of its range); and
  when it returns a row, that row ends at the head, is signed over its root, and every block of the
  chain is now covered by an anchor.
\<close>

theorem create_anchor_sound:
  assumes "chain_ok X s" and "anchors_ok s" and "CreateAnchor sv s = (res, s')"
  shows "anchors_ok s' \<and> custody_chain s' = custody_chain s \<and>
         (\<forall>row. res = Inr row \<longrightarrow>
            an_ToSeq row = block_count s \<and> row \<in> set (anchor_batches s') \<and>
            sg_Sign (sv_signer sv) (hex_decoded (an_MerkleRoot row)) = Inr (an_Signature row) \<and>
            (\<forall>k. 1 \<le> k \<longrightarrow> k \<le> block_count s \<longrightarrow> anchored s' k))"
  using CreateAnchor_keeps [OF assms] by blast

lemma anchors_ok_empty: "anchor_batches s = [] \<Longrightarrow> anchors_ok s"
  by (simp add: anchors_ok_def)

definition sample_service :: Service where
  "sample_service = NewService None None"

lemma sample_anchor:
  obtains row s' where "CreateAnchor sample_service sample_state = (Inr row, s')" "script s' = []"
proof -
  have ok: "chain_ok sample_ext sample_state" using sample_store_ok by (simp add: store_ok_def)
  have an: "anchors_ok sample_state" "last_anchored sample_state = 0"
    by (simp_all add: anchors_ok_empty last_anchored_def newest_anchors_def sample_state_def empty_db_def)
  have "block_count sample_state = 1" "script sample_state = []"
    by (simp_all add: block_count_def sample_state_def empty_db_def)
  then show thesis
    using CreateAnchor_healthy [OF ok an(1), of sample_service "[]"] an(2) that
    by (auto simp: sample_service_def NewService_def noneSigner_def)
qed

theorem create_anchor_sound_witness:
  "\<exists>row s'. CreateAnchor sample_service sample_state = (Inr row, s') \<and> anchors_ok s' \<and> anchored s' 1"
proof -
  obtain row s' where run: "CreateAnchor sample_service sample_state = (Inr row, s')" by (rule sample_anchor)
  have "chain_ok sample_ext sample_state" using sample_store_ok by (simp add: store_ok_def)
  moreover have "anchors_ok sample_state" by (simp add: anchors_ok_empty sample_state_def empty_db_def)
  ultimately show ?thesis
    using create_anchor_sound [OF _ _ run] run by (force simp: block_count_def sample_state_def)
qed

text \<open>The position of a block in the leaves of a range.\<close>

lemma index_of_upto:
  assumes "fr \<le> k" and "k \<le> to"
  shows "index_of k [fr..to] = k - fr"
  using assms
proof (induction "nat (k - fr)" arbitrary: fr)
  case 0
  then show ?case by (simp add: upto_rec1)
next
  case (Suc n)
  then have "index_of k [fr + 1..to] = k - (fr + 1)" by (intro Suc.hyps(1)) auto
  with Suc show ?case by (simp add: upto_rec1 Let_def)
qed

text \<open>What an auditor does with the answer: decode the leaf, the path and the root, and fold.\<close>

definition of_dto :: "ProofNodeDTO \<Rightarrow> ProofNode" where
  "of_dto d = \<lparr>pn_Hash = hex_decoded (pd_Hash d), pn_Right = (pd_Side d = ''right'')\<rparr>"

definition auditor_accepts :: "ProofResult \<Rightarrow> bool" where
  "auditor_accepts p \<longleftrightarrow>
     VerifyProof (hex_decoded (pf_Leaf p)) (map of_dto (pf_Path p)) (hex_decoded (pf_MerkleRoot p))"

lemma hex_decoded_encode [simp]: "hex_decoded (hex_encode b) = b"
  by (simp add: hex_decoded_decode)

lemma of_to_dto [simp]: "of_dto (to_dto n) = n"
  by (simp add: of_dto_def to_dto_def)

lemma map_of_to_dto [simp]: "map (of_dto \<circ> to_dto) ns = ns"
  by (induction ns) simp_all

lemma AnchorCoveringSeq_Inr:
  assumes "AnchorCoveringSeq seq s = (Inr a, s')"
  shows "a \<in> set (anchor_batches s)" "an_FromSeq a \<le> seq" "seq \<le> an_ToSeq a" "s' = step_io s"
  using assms
  by (auto simp: AnchorCoveringSeq_def bindC_Inr_iff queryC_Inr_iff scanAnchor_def newest_anchors_def
      failC_def retC_def filter_eq_Cons_iff split: list.splits)
     (metis (no_types, lifting) filter_eq_Cons_iff in_set_conv_decomp set_sort)+

lemma chain_ok_leaf:
  assumes "chain_ok X s" and "b \<in> set (custody_chain s)"
  shows "hex_encode (leaf_of b) = cc_event_hash b"
proof -
  have "block_digest X b = cc_event_hash b"
    using assms linked_digest [of cc_prev_hash cc_event_hash "block_digest X" GenesisHash "custody_chain s" b]
    by (simp add: chain_ok_def)
  then have "cc_event_hash b = hex_encode (sha256 (block_text X b))" by (simp add: block_digest_text)
  then show ?thesis by (simp add: leaf_of_def)
qed

text \<open>
  For a block inside a sound anchor, the position the service finds has a Merkle proof, the proof
  verifies against the stored root, and the leaf is that block's hash.
\<close>

lemma proof_in_range:
  assumes ok: "chain_ok X s" and a: "anchor_sound s a" and k: "an_FromSeq a \<le> k" "k \<le> an_ToSeq a"
    and ls: "ls = map leaf_of (blocks (an_FromSeq a) (an_ToSeq a) (custody_chain s))"
    and idx: "idx = index_of k (map cc_seq_index (blocks (an_FromSeq a) (an_ToSeq a) (custody_chain s)))"
  shows "0 \<le> idx" and "\<exists>path. Proof ls idx = Inr path"
    and "Proof ls idx = Inr path \<Longrightarrow> VerifyProof (ls ! nat idx) path (hex_decoded (an_MerkleRoot a))"
    and "\<exists>b \<in> set (custody_chain s). cc_seq_index b = k \<and> hex_encode (ls ! nat idx) = cc_event_hash b"
proof -
  let ?bs = "blocks (an_FromSeq a) (an_ToSeq a) (custody_chain s)"
  have seqs: "map cc_seq_index ?bs = [an_FromSeq a..an_ToSeq a]"
    using a by (intro blocks_seqs [OF ok]) (simp_all add: anchor_sound_def)
  with k have i: "idx = k - an_FromSeq a" by (simp add: idx index_of_upto)
  then show "0 \<le> idx" using k by simp
  have len: "length ?bs = length [an_FromSeq a..an_ToSeq a]" by (metis length_map seqs)
  then have lt: "nat idx < length ?bs" using k i by simp
  then show "\<exists>path. Proof ls idx = Inr path"
    using mk.found_position_verifies [of "nat idx" ls] \<open>0 \<le> idx\<close> ls by auto
  show "VerifyProof (ls ! nat idx) path (hex_decoded (an_MerkleRoot a))" if "Proof ls idx = Inr path"
    using mk.complete [OF that] a by (simp add: anchor_sound_def ls)
  have "cc_seq_index (?bs ! nat idx) = [an_FromSeq a..an_ToSeq a] ! nat idx"
    using lt by (metis nth_map seqs)
  also have "\<dots> = k" using k i by simp
  finally have "cc_seq_index (?bs ! nat idx) = k" .
  moreover have "?bs ! nat idx \<in> set (custody_chain s)"
    using nth_mem [OF lt] by (auto simp: blocks_def)
  ultimately show "\<exists>b \<in> set (custody_chain s). cc_seq_index b = k \<and> hex_encode (ls ! nat idx) = cc_event_hash b"
    using chain_ok_leaf [OF ok] lt by (intro bexI [of _ "?bs ! nat idx"]) (simp_all add: ls)
qed

lemma Service_Proof_answer:
  assumes "chain_ok X s" and "anchors_ok s" and "Service_Proof sv seq s = (Inr p, s')"
  shows "pf_Verified p \<and> auditor_accepts p \<and>
         (\<exists>b \<in> set (custody_chain s). cc_seq_index b = seq \<and> pf_Leaf p = cc_event_hash b) \<and>
         pf_Anchor p \<in> set (anchor_batches s) \<and> pf_MerkleRoot p = an_MerkleRoot (pf_Anchor p) \<and>
         an_FromSeq (pf_Anchor p) \<le> seq \<and> seq \<le> an_ToSeq (pf_Anchor p) \<and> ticks s s'"
proof -
  from assms(3) obtain a s1 lr s2 path where cov: "AnchorCoveringSeq seq s = (Inr a, s1)"
    and rng: "ChainLeafRange (an_FromSeq a - 1) (an_ToSeq a) s1 = (Inr lr, s2)"
    and path: "Proof (lr_leaves lr) (index_of seq (lr_seqs lr)) = Inr path" and s': "s' = s2"
    and p: "p = \<lparr>pf_SeqIndex = seq, pf_Leaf = hex_encode (lr_leaves lr ! nat (index_of seq (lr_seqs lr))),
        pf_MerkleRoot = an_MerkleRoot a, pf_Path = map to_dto path,
        pf_Verified = VerifyProof (lr_leaves lr ! nat (index_of seq (lr_seqs lr))) path (hex_decoded (an_MerkleRoot a)),
        pf_Anchor = a\<rparr>"
    by (auto simp: Service_Proof_def bindC_Inr_iff liftC_def failC_def retC_def Let_def
        split: if_splits sum.splits)
  note c = AnchorCoveringSeq_Inr [OF cov]
  have a: "anchor_sound s a" using assms(2) c(1) by (simp add: anchors_ok_def)
  have "chain_ok X s1" using assms(1) c(4) by simp
  then have "lr_leaves lr = map leaf_of (blocks (an_FromSeq a) (an_ToSeq a) (custody_chain s)) \<and>
      lr_seqs lr = map cc_seq_index (blocks (an_FromSeq a) (an_ToSeq a) (custody_chain s)) \<and> ticks s1 s2"
    by (cases rule: ChainLeafRange_ok [of X s1 "an_FromSeq a" "an_ToSeq a", case_names io ok])
       (use rng c(4) in auto)
  then have lr: "lr_leaves lr = map leaf_of (blocks (an_FromSeq a) (an_ToSeq a) (custody_chain s))"
    "lr_seqs lr = map cc_seq_index (blocks (an_FromSeq a) (an_ToSeq a) (custody_chain s))" "ticks s1 s2" by auto
  note pr = proof_in_range [OF assms(1) a c(2,3) refl refl]
  have "ticks s s2" using c(4) lr(3) ticks_trans [OF ticks_step_io] by simp
  then show ?thesis using pr(3) pr(4) path c s' by (simp add: p lr auditor_accepts_def)
qed

lemma Service_Proof_healthy:
  assumes "chain_ok X s" and "anchors_ok s" and "script s = []" and "anchored s seq"
  shows "\<exists>p. Service_Proof sv seq s = (Inr p, s)"
proof -
  let ?P = "\<lambda>a. an_FromSeq a \<le> seq \<and> seq \<le> an_ToSeq a"
  have "filter ?P (newest_anchors s) \<noteq> []"
    using assms(4) by (auto simp: filter_empty_conv newest_anchors_def anchored_def)
  then obtain a rest where Cons: "filter ?P (newest_anchors s) = a # rest" by (cases "filter ?P (newest_anchors s)") auto
  then have cov: "AnchorCoveringSeq seq s = (Inr a, s)"
    using assms(3) by (simp add: AnchorCoveringSeq_def bindC_def handleC_def healthy scanAnchor_def retC_def)
  note c = AnchorCoveringSeq_Inr [OF cov]
  have snd: "anchor_sound s a" using assms(2) c(1) by (simp add: anchors_ok_def)
  obtain lr where lr: "ChainLeafRange (an_FromSeq a - 1) (an_ToSeq a) s = (Inr lr, s)"
    "lr_leaves lr = map leaf_of (blocks (an_FromSeq a) (an_ToSeq a) (custody_chain s))"
    "lr_seqs lr = map cc_seq_index (blocks (an_FromSeq a) (an_ToSeq a) (custody_chain s))"
    by (rule ChainLeafRange_healthy [OF assms(1,3)])
  note pr = proof_in_range [OF assms(1) snd c(2,3) refl refl]
  from pr(2) obtain path where "Proof (lr_leaves lr) (index_of seq (lr_seqs lr)) = Inr path"
    by (auto simp: lr)
  then show ?thesis
    using pr(1) by (simp add: Service_Proof_def bindC_def handleC_def cov lr(1) Let_def liftC_def retC_def
        not_less [symmetric] lr(3))
qed

text \<open>
  C12. Inclusion proofs are right: whenever \<open>Proof\<close> answers for a block, the answer says verified, an
  auditor who decodes the published leaf, path and root and folds them accepts, the leaf is the hash
  of the block with that sequence number, and the root is that of a stored anchor whose range
  contains the block.
\<close>

theorem service_proof_verifies:
  assumes "chain_ok X s" and "anchors_ok s" and "Service_Proof sv seq s = (Inr p, s')"
  shows "pf_Verified p \<and> auditor_accepts p \<and>
         (\<exists>b \<in> set (custody_chain s). cc_seq_index b = seq \<and> pf_Leaf p = cc_event_hash b) \<and>
         pf_Anchor p \<in> set (anchor_batches s) \<and> pf_MerkleRoot p = an_MerkleRoot (pf_Anchor p) \<and>
         an_FromSeq (pf_Anchor p) \<le> seq \<and> seq \<le> an_ToSeq (pf_Anchor p) \<and> ticks s s'"
  using Service_Proof_answer [OF assms] .

text \<open>
  Every anchored block has a proof and no other has: on a healthy database \<open>Proof\<close> answers for a
  block covered by an anchor, and reports not found for any other.
\<close>

theorem service_proof_exists:
  assumes "chain_ok X s" and "anchors_ok s" and "script s = []"
  shows "if anchored s seq then \<exists>p. Service_Proof sv seq s = (Inr p, s)
         else Service_Proof sv seq s = (Inl ErrNotFound, s)"
proof (cases "anchored s seq")
  case True
  with Service_Proof_healthy [OF assms] show ?thesis by simp
next
  case False
  then have "filter (\<lambda>a. an_FromSeq a \<le> seq \<and> seq \<le> an_ToSeq a) (newest_anchors s) = []"
    by (auto simp: filter_empty_conv newest_anchors_def anchored_def)
  with False assms(3) show ?thesis
    by (simp add: Service_Proof_def AnchorCoveringSeq_def bindC_def handleC_def healthy scanAnchor_def failC_def)
qed

text \<open>A state with one chained and anchored block.\<close>

definition sample_anchored :: db where
  "sample_anchored = snd (CreateAnchor sample_service sample_state)"

lemma sample_anchored_ok:
  "chain_ok sample_ext sample_anchored" "anchors_ok sample_anchored" "script sample_anchored = []"
  "anchored sample_anchored 1"
proof -
  obtain row s' where run: "CreateAnchor sample_service sample_state = (Inr row, s')" "script s' = []"
    by (rule sample_anchor)
  have ok: "chain_ok sample_ext sample_state" using sample_store_ok by (simp add: store_ok_def)
  have an: "anchors_ok sample_state" by (simp add: anchors_ok_empty sample_state_def empty_db_def)
  have "block_count sample_state = 1" by (simp add: block_count_def sample_state_def)
  with CreateAnchor_keeps [OF ok an run(1)] run
  show "chain_ok sample_ext sample_anchored" "anchors_ok sample_anchored" "script sample_anchored = []"
    "anchored sample_anchored 1" by (simp_all add: sample_anchored_def)
qed

theorem service_proof_verifies_witness:
  "\<exists>p. Service_Proof sample_service 1 sample_anchored = (Inr p, sample_anchored) \<and>
       pf_Verified p \<and> auditor_accepts p"
proof -
  obtain p where run: "Service_Proof sample_service 1 sample_anchored = (Inr p, sample_anchored)"
    using Service_Proof_healthy [OF sample_anchored_ok] by blast
  from service_proof_verifies [OF sample_anchored_ok(1,2) run] run show ?thesis by blast
qed

theorem service_proof_exists_witness:
  "(if anchored sample_anchored 1 then \<exists>p. Service_Proof sample_service 1 sample_anchored = (Inr p, sample_anchored)
    else Service_Proof sample_service 1 sample_anchored = (Inl ErrNotFound, sample_anchored)) \<and>
   anchored sample_anchored 1"
  using service_proof_exists [OF sample_anchored_ok(1-3)] sample_anchored_ok(4) by blast

text \<open>
  The public ledger is optional: with a provider that fails on every root, or returns an empty
  reference, \<open>CreateAnchor\<close> does exactly what it does with public anchoring switched off: same result,
  same state, a row with provider \<open>none\<close> and no transaction reference.
\<close>

theorem anchor_degrades_to_l2:
  fixes s :: "'z db_scheme"
  assumes "\<And>r m. pv_PublishRoot (sv_provider sv) r m = Inr [] \<or> (\<exists>e. pv_PublishRoot (sv_provider sv) r m = Inl e)"
  shows "CreateAnchor sv s = CreateAnchor (sv\<lparr>sv_provider := noopProvider\<rparr>) s"
proof -
  have "publish_anchor sv r row = (retC row :: ('z db_scheme, AnchorRow) cmd)" for r row
    using assms [of r "\<lparr>am_Schema = ''iag.custody.anchor.v1'', am_EventCount = an_EventCount row,
      am_FromSeq = an_FromSeq row, am_ToSeq = an_ToSeq row, am_PeriodEnd = an_PeriodEnd row,
      am_KeyID = sg_KeyID (sv_signer sv)\<rparr>"]
    by (auto simp: publish_anchor_def)
  moreover have "publish_anchor (sv\<lparr>sv_provider := noopProvider\<rparr>) r row =
      (retC row :: ('z db_scheme, AnchorRow) cmd)" for r row
    by (simp add: publish_anchor_def noopProvider_def)
  ultimately show ?thesis by (simp add: CreateAnchor_def)
qed

theorem anchor_degrades_to_l2_witness:
  "CreateAnchor (sample_service\<lparr>sv_provider := noopProvider\<lparr>pv_Name := ''polygon''\<rparr>\<rparr>) sample_state =
   CreateAnchor ((sample_service\<lparr>sv_provider := noopProvider\<lparr>pv_Name := ''polygon''\<rparr>\<rparr>)
     \<lparr>sv_provider := noopProvider\<rparr>) sample_state"
  by (rule anchor_degrades_to_l2) (simp add: noopProvider_def)

text \<open>
  The comment on \<open>CreateAnchor\<close> says the unique \<open>to_seq\<close> makes it idempotent under concurrency.
  It does when both racers saw the same head; when blocks were chained in between, both anchors are
  accepted and their ranges overlap: two plans made from the same anchors, the second after the chain
  grew, can both be inserted, and both then cover the first block after the last anchor.
\<close>

theorem anchor_race_overlaps:
  assumes "chain_ok X s1" and "anchors_ok s1" and "plan_anchor g1 s1 = (Inr (r1, a1), t1)"
    and "chain_ok X s2" and "anchor_batches s2 = anchor_batches s1" and "chain_extends s1 s2"
    and "custody_chain s2 \<noteq> custody_chain s1" and "plan_anchor g2 s2 = (Inr (r2, a2), t2)"
    and "block_count s2 < 2 ^ 31" and "script s2 = []"
  shows "\<exists>b1 b2 u v. InsertAnchor a1 s2 = (Inr b1, u) \<and> InsertAnchor a2 u = (Inr b2, v) \<and>
           an_FromSeq b1 = last_anchored s1 + 1 \<and> an_FromSeq b2 = last_anchored s1 + 1 \<and>
           an_ToSeq b1 < an_ToSeq b2 \<and> anchors_ok v"
proof -
  obtain new where c: "custody_chain s2 = custody_chain s1 @ new" "new \<noteq> []"
    using assms(6,7) by (auto simp: chain_extends_def)
  have ok2: "anchors_ok s2"
    by (rule anchors_ok_grown(1) [OF assms(2) _ assms(4)]) (auto simp: grown_from_def assms(5) c)
  note p1 = plan_anchor_Inr [OF assms(1,2,3)] and p2 = plan_anchor_Inr [OF assms(4) ok2 assms(8)]
  have last: "last_anchored s2 = last_anchored s1" by (simp add: last_anchored_def newest_anchors_def assms(5))
  have lt: "block_count s1 < block_count s2" using c by (simp add: block_count_def)
  have s1: "anchor_sound s2 a1" by (rule anchor_sound_extends [OF p1(2) assms(6,4)])
  have cov: "covered_below s2 a1" using p1(3) by (simp add: covered_below_def anchored_def assms(5))
  have none: "an_ToSeq b < block_count s1" if "b \<in> set (anchor_batches s1)" for b
    using last_anchored_bounds(2) [OF assms(2) that] p1(2,4,5) by (simp add: anchor_sound_def)
  have "\<forall>b \<in> set (anchor_batches s2). an_ToSeq b \<noteq> an_ToSeq a1"
    using none p1(5) assms(5) by fastforce
  then obtain b1 u where i1: "insert_anchor_sql a1 s2 = Inr (b1, u)"
    using insert_planned [OF ok2 s1] p1(5) assms(9) lt by fastforce
  have u: "anchor_batches u = anchor_batches s2 @ [b1]" "an_ToSeq b1 = block_count s1" "script u = []"
    "custody_chain u = custody_chain s2" "an_FromSeq b1 = last_anchored s1 + 1"
    using i1 p1(4,5) assms(10) by (auto simp: insert_anchor_sql_Inr)
  have oku: "anchors_ok u" by (rule insert_anchor_ok [OF ok2 s1 cov i1])
  have s2: "anchor_sound u a2" using p2(2) u(4) by (simp add: anchor_sound_def block_count_def)
  have "\<forall>b \<in> set (anchor_batches u). an_ToSeq b \<noteq> an_ToSeq a2"
    using none p2(5) assms(5) lt u(1,2) by fastforce
  then obtain b2 v where i2: "insert_anchor_sql a2 u = Inr (b2, v)"
    using insert_planned [OF oku s2] p2(5) assms(9) by fastforce
  note s2
  moreover have "covered_below u a2" using p2(3) u(1) by (auto simp: covered_below_def anchored_def)
  ultimately have "anchors_ok v" by (rule insert_anchor_ok [OF oku _ _ i2])
  moreover have "an_FromSeq b2 = last_anchored s1 + 1" "an_ToSeq b2 = block_count s2"
    using i2 p2(4,5) last by (auto simp: insert_anchor_sql_Inr)
  ultimately show ?thesis using i1 i2 u lt assms(10) by (auto simp: InsertAnchor_def healthy)
qed

text \<open>The chain of the sample state one block further.\<close>

definition sample_next :: db where
  "sample_next = (let e = sample_row 2 6 ''k2'' in
     sample_state\<lparr>fresh_id := 3, trace_events := [sample_event, e],
       custody_chain := custody_chain sample_state @
         [make_block sample_ext (1, cc_event_hash (hd (custody_chain sample_state))) 2 6 ''B-1'' ''CHERRY_RECEIVED'' [] []]\<rparr>)"

lemma sample_next_ok: "chain_ok sample_ext sample_next"
proof -
  have "chain_ok sample_ext sample_state" using sample_store_ok by (simp add: store_ok_def)
  moreover have "te_id sample_event = 1"
    by (simp add: sample_event_def new_row_def empty_db_def)
  ultimately show ?thesis
    by (simp add: chain_ok_def sample_next_def Let_def make_block_def block_digest_def sample_state_def
        sample_row_def input_block_def upto_rec1)
qed

theorem anchor_race_overlaps_witness:
  "\<exists>a1 a2 b1 b2 u v. InsertAnchor a1 sample_next = (Inr b1, u) \<and> InsertAnchor a2 u = (Inr b2, v) \<and>
     an_FromSeq b1 = an_FromSeq b2 \<and> an_ToSeq b1 < an_ToSeq b2"
proof -
  have ok: "chain_ok sample_ext sample_state" using sample_store_ok by (simp add: store_ok_def)
  have st: "script sample_state = []" "anchor_batches sample_state = []" "script sample_next = []"
    "anchor_batches sample_next = []" "block_count sample_state = 1" "block_count sample_next = 2"
    by (simp_all add: sample_next_def Let_def sample_state_def empty_db_def block_count_def)
  have an: "anchors_ok sample_state" "anchors_ok sample_next" by (simp_all add: anchors_ok_empty st)
  have la: "last_anchored sample_state = 0" "last_anchored sample_next = 0"
    by (simp_all add: last_anchored_def newest_anchors_def st)
  obtain r1 a1 where p1: "plan_anchor noneSigner sample_state = (Inr (r1, a1), sample_state)"
    using plan_anchor_healthy [OF ok an(1) st(1), of noneSigner "[]"] la st by (auto simp: noneSigner_def)
  obtain r2 a2 where p2: "plan_anchor noneSigner sample_next = (Inr (r2, a2), sample_next)"
    using plan_anchor_healthy [OF sample_next_ok an(2) st(3), of noneSigner "[]"] la st by (auto simp: noneSigner_def)
  have "chain_extends sample_state sample_next" "custody_chain sample_next \<noteq> custody_chain sample_state"
    by (simp_all add: chain_extends_def sample_next_def Let_def)
  from anchor_race_overlaps [OF ok an(1) p1 sample_next_ok _ this p2] st show ?thesis by fastforce
qed

end
