(* ===== verification/QrStore.thy ===== *)
theory QrStore
  imports EventStore
begin

text \<open>
  The consumer-facing tables: lot QR codes, story and entity projections
  (\<open>internal/store/store.go\<close>) and the transactional outbox (\<open>internal/store/outbox.go\<close>).
  The payload of an outbox row stands for its JSON value; Postgres may re-space it.
\<close>

section \<open>Outbox rows\<close>

record OutboxRow =
  ox_EventID :: string
  ox_Topic :: string
  ox_Key :: string
  ox_Subject :: string
  ox_Payload :: string

definition enqueue_sql :: "OutboxRow \<Rightarrow> 'z db_scheme \<Rightarrow> err + (unit \<times> 'z db_scheme)" where
  "enqueue_sql row s = Inr ((), s\<lparr>
     event_outbox := event_outbox s @ [\<lparr>ob_id = fresh_id s, ob_event_id = ox_EventID row, ob_topic = ox_Topic row,
       ob_partition_key = ox_Key row, ob_subject = ox_Subject row, ob_payload = ox_Payload row,
       ob_published_at = None, ob_attempts = 0, ob_last_error = []\<rparr>],
     fresh_id := Suc (fresh_id s)\<rparr>)"

definition enqueueOutbox :: "OutboxRow \<Rightarrow> ('z db_scheme, unit) cmd" where
  "enqueueOutbox row = execC (enqueue_sql row)"

definition EnqueueOutbox :: "OutboxRow \<Rightarrow> ('z db_scheme, unit) cmd" where
  "EnqueueOutbox row = enqueueOutbox row"

definition pending_outbox :: "'z db_scheme \<Rightarrow> outbox_row list" where
  "pending_outbox s = sort_key ob_id (filter (\<lambda>r. ob_published_at r = None) (event_outbox s))"

definition FetchUnpublishedOutbox :: "int \<Rightarrow> ('z db_scheme, outbox_row list) cmd" where
  "FetchUnpublishedOutbox limit = queryC (\<lambda>s. take (nat (clamp_limit 500 100 limit)) (pending_outbox s))"

definition update_outbox :: "nat \<Rightarrow> (outbox_row \<Rightarrow> outbox_row) \<Rightarrow> 'z db_scheme \<Rightarrow> 'z db_scheme" where
  "update_outbox i f s = s\<lparr>event_outbox := map (\<lambda>r. if ob_id r = i then f r else r) (event_outbox s)\<rparr>"

definition MarkOutboxPublished :: "nat \<Rightarrow> ('z db_scheme, unit) cmd" where
  "MarkOutboxPublished i =
     execC (\<lambda>s. Inr ((), update_outbox i (\<lambda>r. r\<lparr>ob_published_at := Some (now_us s)\<rparr>) s))"

text \<open>\<open>attempts INT\<close>: adding one to the largest value is an error of the statement.\<close>

definition MarkOutboxFailed :: "nat \<Rightarrow> string \<Rightarrow> ('z db_scheme, unit) cmd" where
  "MarkOutboxFailed i errMsg =
     (let msg = (if length errMsg > 500 then take 500 errMsg else errMsg) in
      execC (\<lambda>s. if list_ex (\<lambda>r. ob_id r = i \<and> ob_attempts r \<ge> 2 ^ 31 - 1) (event_outbox s) then Inl ErrDB
        else Inr ((), update_outbox i (\<lambda>r. r\<lparr>ob_attempts := ob_attempts r + 1, ob_last_error := msg\<rparr>) s)))"

section \<open>Lot QR codes\<close>

record LotQR =
  lq_LotBusinessID :: string
  lq_PublicToken :: string
  lq_Version :: int
  lq_PublishedAt :: "int option"
  lq_RevokedAt :: "int option"
  lq_ScanCount :: int

definition to_LotQR :: "qr_row \<Rightarrow> LotQR" where
  "to_LotQR r = \<lparr>lq_LotBusinessID = qr_lot_business_id r, lq_PublicToken = qr_public_token r,
     lq_Version = qr_version r, lq_PublishedAt = qr_published_at r, lq_RevokedAt = qr_revoked_at r,
     lq_ScanCount = qr_scan_count r\<rparr>"

text \<open>
  \<open>INSERT ... ON CONFLICT (lot_business_id) DO UPDATE\<close>: a new row has version 1; an existing one gets
  the token, the next version (\<open>INT\<close>) and is live again.  \<open>public_token\<close> is unique over all lots.
\<close>

definition upsert_qr_sql :: "string \<Rightarrow> string \<Rightarrow> 'z db_scheme \<Rightarrow> err + (unit \<times> 'z db_scheme)" where
  "upsert_qr_sql lot token s =
     (if list_ex (\<lambda>r. qr_public_token r = token \<and> qr_lot_business_id r \<noteq> lot) (lot_qr_codes s)
      then Inl ErrConflict
      else if list_ex (\<lambda>r. qr_lot_business_id r = lot) (lot_qr_codes s) then
        (if list_ex (\<lambda>r. qr_lot_business_id r = lot \<and> qr_version r \<ge> 2 ^ 31 - 1) (lot_qr_codes s)
         then Inl ErrDB
         else Inr ((), s\<lparr>lot_qr_codes := map (\<lambda>r. if qr_lot_business_id r = lot
                then r\<lparr>qr_public_token := token, qr_version := qr_version r + 1,
                       qr_published_at := Some (now_us s), qr_revoked_at := None, qr_updated_at := now_us s\<rparr>
                else r) (lot_qr_codes s)\<rparr>))
      else Inr ((), s\<lparr>lot_qr_codes := lot_qr_codes s @ [\<lparr>qr_lot_business_id = lot, qr_public_token = token,
              qr_version = 1, qr_published_at = Some (now_us s), qr_revoked_at = None, qr_scan_count = 0,
              qr_created_at = now_us s, qr_updated_at = now_us s\<rparr>]\<rparr>))"

definition upsertLotQR :: "string \<Rightarrow> string \<Rightarrow> ('z db_scheme, unit) cmd" where
  "upsertLotQR lot token = execC (upsert_qr_sql lot token)"

definition UpsertLotQR :: "string \<Rightarrow> string \<Rightarrow> ('z db_scheme, unit) cmd" where
  "UpsertLotQR lot token = upsertLotQR lot token"

definition UpsertLotQRTx :: "string \<Rightarrow> string \<Rightarrow> OutboxRow \<Rightarrow> ('z db_scheme, unit) cmd" where
  "UpsertLotQRTx lot token outbox = txC (bindC (upsertLotQR lot token) (\<lambda>_. enqueueOutbox outbox))"

definition active_by :: "(qr_row \<Rightarrow> bool) \<Rightarrow> 'z db_scheme \<Rightarrow> qr_row option" where
  "active_by P s = find (\<lambda>r. P r \<and> qr_revoked_at r = None) (lot_qr_codes s)"

definition row_or_notfound :: "'a option \<Rightarrow> ('s, 'a) cmd" where
  "row_or_notfound r = (case r of None \<Rightarrow> failC ErrNotFound | Some a \<Rightarrow> retC a)"

definition GetLotQRByToken :: "string \<Rightarrow> ('z db_scheme, LotQR) cmd" where
  "GetLotQRByToken token =
     bindC (queryC (\<lambda>s. map_option to_LotQR (active_by (\<lambda>r. qr_public_token r = token) s))) row_or_notfound"

definition GetLotQRByLotID :: "string \<Rightarrow> ('z db_scheme, LotQR) cmd" where
  "GetLotQRByLotID lot =
     bindC (queryC (\<lambda>s. map_option to_LotQR (active_by (\<lambda>r. qr_lot_business_id r = lot) s))) row_or_notfound"

definition increment_sql :: "string \<Rightarrow> 'z db_scheme \<Rightarrow> err + (unit \<times> 'z db_scheme)" where
  "increment_sql token s =
     (if list_ex (\<lambda>r. qr_public_token r = token \<and> qr_scan_count r \<ge> 2 ^ 63 - 1) (lot_qr_codes s) then Inl ErrDB
      else Inr ((), s\<lparr>lot_qr_codes := map (\<lambda>r. if qr_public_token r = token
             then r\<lparr>qr_scan_count := qr_scan_count r + 1, qr_updated_at := now_us s\<rparr> else r) (lot_qr_codes s)\<rparr>))"

definition IncrementScanCount :: "string \<Rightarrow> ('z db_scheme, unit) cmd" where
  "IncrementScanCount token = execC (increment_sql token)"

definition revoke_qr_sql :: "string \<Rightarrow> 'z db_scheme \<Rightarrow> err + (nat \<times> 'z db_scheme)" where
  "revoke_qr_sql lot s =
     (let hit = (\<lambda>r. qr_lot_business_id r = lot \<and> qr_revoked_at r = None) in
      Inr (length (filter hit (lot_qr_codes s)),
           s\<lparr>lot_qr_codes := map (\<lambda>r. if hit r
               then r\<lparr>qr_revoked_at := Some (now_us s), qr_updated_at := now_us s\<rparr> else r) (lot_qr_codes s)\<rparr>))"

definition revokeLotQR :: "string \<Rightarrow> ('z db_scheme, unit) cmd" where
  "revokeLotQR lot = bindC (execC (revoke_qr_sql lot)) (\<lambda>n. if n = 0 then failC ErrNotFound else retC ())"

definition RevokeLotQR :: "string \<Rightarrow> ('z db_scheme, unit) cmd" where
  "RevokeLotQR lot = revokeLotQR lot"

definition RevokeLotQRTx :: "string \<Rightarrow> OutboxRow \<Rightarrow> ('z db_scheme, unit) cmd" where
  "RevokeLotQRTx lot outbox = txC (bindC (revokeLotQR lot) (\<lambda>_. enqueueOutbox outbox))"

section \<open>Projections\<close>

definition GetStoryProjection :: "string \<Rightarrow> ('z db_scheme, gmap) cmd" where
  "GetStoryProjection lot = bindC (queryC (\<lambda>s. map_of (lot_story_projections s) lot)) row_or_notfound"

definition UpsertStoryProjection :: "ext \<Rightarrow> string \<Rightarrow> gmap option \<Rightarrow> ('z db_scheme, unit) cmd" where
  "UpsertStoryProjection X lot payload =
     execC (\<lambda>s. case enc_jsonb X (or_empty payload) of None \<Rightarrow> Inl ErrDB
       | Some p \<Rightarrow> Inr ((), s\<lparr>lot_story_projections := AList.update lot p (lot_story_projections s)\<rparr>))"

definition UpsertEntityProjection :: "ext \<Rightarrow> string \<Rightarrow> string \<Rightarrow> gmap option \<Rightarrow> ('z db_scheme, unit) cmd" where
  "UpsertEntityProjection X entityType businessID payload =
     execC (\<lambda>s. case enc_jsonb X (or_empty payload) of None \<Rightarrow> Inl ErrDB
       | Some p \<Rightarrow> Inr ((), s\<lparr>entity_projections := AList.update (entityType, businessID) p (entity_projections s)\<rparr>))"

definition GetEntityProjection :: "string \<Rightarrow> string \<Rightarrow> ('z db_scheme, gmap) cmd" where
  "GetEntityProjection entityType businessID =
     bindC (queryC (\<lambda>s. map_of (entity_projections s) (entityType, businessID))) row_or_notfound"

section \<open>The token registry\<close>

text \<open>
  What the rest of the service relies on: every lot has at most one live token, a token resolves to
  the one lot it is live for, publishing moves the lot to the new token and revoking takes it away,
  and nothing happens to other lots.
\<close>

locale token_registry =
  fixes inv :: "'s \<Rightarrow> bool" and current :: "'s \<Rightarrow> 'l \<Rightarrow> 't option" and resolve :: "'s \<Rightarrow> 't \<Rightarrow> 'l option"
    and publish :: "'l \<Rightarrow> 't \<Rightarrow> 's \<Rightarrow> 's option" and revoke :: "'l \<Rightarrow> 's \<Rightarrow> 's option"
  assumes resolve_current: "inv s \<Longrightarrow> resolve s t = Some l \<longleftrightarrow> current s l = Some t"
    and publish_current: "inv s \<Longrightarrow> publish l t s = Some s' \<Longrightarrow> inv s' \<and> current s' = (current s)(l := Some t)"
    and revoke_current: "inv s \<Longrightarrow> revoke l s = Some s' \<Longrightarrow> inv s' \<and> current s' = (current s)(l := None)"
begin

lemma resolve_published: "inv s \<Longrightarrow> publish l t s = Some s' \<Longrightarrow> resolve s' t = Some l"
  using publish_current [of s l t s'] resolve_current [of s' t l] by simp

lemma old_token_dies:
  assumes "inv s" and "current s l = Some t0" and "publish l t s = Some s'" and "t \<noteq> t0"
  shows "resolve s' t0 = None"
proof (rule ccontr)
  assume "resolve s' t0 \<noteq> None"
  then obtain m where m: "resolve s' t0 = Some m" by blast
  from publish_current [OF assms(1,3)] have inv': "inv s'" and cur: "current s' = (current s)(l := Some t)" by auto
  from m inv' have "current s' m = Some t0" by (simp add: resolve_current)
  with cur assms(4) have "m \<noteq> l" "current s m = Some t0" by (auto split: if_splits)
  with assms(1,2) show False using resolve_current by (metis option.inject)
qed

lemma revoked_token_dies:
  assumes "inv s" and "current s l = Some t" and "revoke l s = Some s'"
  shows "resolve s' t = None"
proof (rule ccontr)
  assume "resolve s' t \<noteq> None"
  then obtain m where m: "resolve s' t = Some m" by blast
  from revoke_current [OF assms(1,3)] have inv': "inv s'" and cur: "current s' = (current s)(l := None)" by auto
  from m inv' have "current s' m = Some t" by (simp add: resolve_current)
  with cur have "m \<noteq> l" "current s m = Some t" by (auto split: if_splits)
  with assms(1,2) show False using resolve_current by (metis option.inject)
qed

lemma other_lots_keep:
  assumes "inv s" and "current s m = Some t0" and "m \<noteq> l"
  shows "publish l t s = Some s' \<Longrightarrow> resolve s' t0 = Some m"
    and "revoke l s = Some s' \<Longrightarrow> resolve s' t0 = Some m"
  using assms publish_current [of s l t s'] revoke_current [of s l s'] resolve_current [of s' t0 m] by auto

end

definition qr_ok :: "'z db_scheme \<Rightarrow> bool" where
  "qr_ok s \<longleftrightarrow> distinct (map qr_lot_business_id (lot_qr_codes s)) \<and>
     distinct (map qr_public_token (lot_qr_codes s))"

definition live_token :: "'z db_scheme \<Rightarrow> string \<Rightarrow> string option" where
  "live_token s lot = map_option qr_public_token (active_by (\<lambda>r. qr_lot_business_id r = lot) s)"

definition resolve_token :: "'z db_scheme \<Rightarrow> string \<Rightarrow> string option" where
  "resolve_token s token = map_option qr_lot_business_id (active_by (\<lambda>r. qr_public_token r = token) s)"

definition publish_step :: "string \<Rightarrow> string \<Rightarrow> 'z db_scheme \<Rightarrow> 'z db_scheme option" where
  "publish_step lot token s = (case upsert_qr_sql lot token s of Inl _ \<Rightarrow> None | Inr (_, s') \<Rightarrow> Some s')"

definition revoke_step :: "string \<Rightarrow> 'z db_scheme \<Rightarrow> 'z db_scheme option" where
  "revoke_step lot s = (case revoke_qr_sql lot s of Inl _ \<Rightarrow> None | Inr (n, s') \<Rightarrow> if n = 0 then None else Some s')"

lemma find_unique:
  "distinct (map f xs) \<Longrightarrow> find (\<lambda>r. f r = k \<and> P r) xs = Some r \<longleftrightarrow> r \<in> set xs \<and> f r = k \<and> P r"
  by (induction xs) auto

lemma live_token_iff:
  assumes "qr_ok s"
  shows "live_token s lot = Some t \<longleftrightarrow>
    (\<exists>r \<in> set (lot_qr_codes s). qr_lot_business_id r = lot \<and> qr_public_token r = t \<and> qr_revoked_at r = None)"
  using assms find_unique [of qr_lot_business_id "lot_qr_codes s" lot "\<lambda>r. qr_revoked_at r = None"]
  by (auto simp: live_token_def active_by_def qr_ok_def)

lemma resolve_token_iff:
  assumes "qr_ok s"
  shows "resolve_token s t = Some lot \<longleftrightarrow>
    (\<exists>r \<in> set (lot_qr_codes s). qr_lot_business_id r = lot \<and> qr_public_token r = t \<and> qr_revoked_at r = None)"
  using assms find_unique [of qr_public_token "lot_qr_codes s" t "\<lambda>r. qr_revoked_at r = None"]
  by (auto simp: resolve_token_def active_by_def qr_ok_def)

lemma live_token_eqI:
  assumes "qr_ok s" and "qr_ok s'"
    and "\<And>l t. (\<exists>r \<in> set (lot_qr_codes s'). qr_lot_business_id r = l \<and> qr_public_token r = t \<and> qr_revoked_at r = None)
          \<longleftrightarrow> f l = Some t"
  shows "live_token s' = f"
proof
  fix l show "live_token s' l = f l"
    using assms(3) live_token_iff [OF assms(2)] by (metis not_None_eq option.collapse)
qed

text \<open>The effect of a publish on the rows: one row of the lot, live, with the token.\<close>

lemma upsert_qr_sql_Inr:
  assumes "upsert_qr_sql lot token s = Inr (u, s')" and "qr_ok s"
  obtains q where "qr_lot_business_id q = lot" "qr_public_token q = token" "qr_revoked_at q = None"
    "qr_published_at q = Some (now_us s)"
    "set (lot_qr_codes s') = insert q {r \<in> set (lot_qr_codes s). qr_lot_business_id r \<noteq> lot}"
    "qr_ok s'" "s' = s\<lparr>lot_qr_codes := lot_qr_codes s'\<rparr>"
    "qr_version q = (case find (\<lambda>r. qr_lot_business_id r = lot \<and> True) (lot_qr_codes s) of
       None \<Rightarrow> 1 | Some r \<Rightarrow> qr_version r + 1)"
proof (cases "list_ex (\<lambda>r. qr_lot_business_id r = lot) (lot_qr_codes s)")
  case True
  let ?rows = "lot_qr_codes s"
  let ?u = "\<lambda>r. r\<lparr>qr_public_token := token, qr_version := qr_version r + 1,
              qr_published_at := Some (now_us s), qr_revoked_at := None, qr_updated_at := now_us s\<rparr>"
  let ?f = "\<lambda>r. if qr_lot_business_id r = lot then ?u r else r"
  from True obtain r where r: "r \<in> set ?rows" "qr_lot_business_id r = lot" by (auto simp: list_ex_iff)
  have s': "s' = s\<lparr>lot_qr_codes := map ?f ?rows\<rparr>"
    and free: "\<forall>q \<in> set ?rows. qr_public_token q = token \<longrightarrow> qr_lot_business_id q = lot"
    using assms(1) True by (auto simp: upsert_qr_sql_def list_ex_iff split: if_splits)
  have uniq: "q = r" if "q \<in> set ?rows" "qr_lot_business_id q = lot" for q
    using assms(2) r that by (auto simp: qr_ok_def distinct_map dest: inj_onD)
  have "set (map ?f ?rows) = insert (?u r) {q \<in> set ?rows. qr_lot_business_id q \<noteq> lot}"
  proof (intro equalityI subsetI)
    fix x assume "x \<in> set (map ?f ?rows)"
    then have "x \<in> ?f ` set ?rows" by (simp only: set_map)
    then obtain q where q: "q \<in> set ?rows" "x = ?f q" by (rule imageE)
    then show "x \<in> insert (?u r) {q \<in> set ?rows. qr_lot_business_id q \<noteq> lot}"
      using uniq [OF q(1)] by (cases "qr_lot_business_id q = lot") simp_all
  next
    fix x assume "x \<in> insert (?u r) {q \<in> set ?rows. qr_lot_business_id q \<noteq> lot}"
    then have "x = ?f r \<or> x \<in> set ?rows \<and> x = ?f x" using r(2) by auto
    then show "x \<in> set (map ?f ?rows)"
      unfolding set_map using image_eqI [of x ?f r "set ?rows"] image_eqI [of x ?f x "set ?rows"] r(1) by blast
  qed
  moreover have lots: "map qr_lot_business_id (map ?f ?rows) = map qr_lot_business_id ?rows" by simp
  have toks: "distinct (map qr_public_token (map ?f ?rows))"
  proof -
    let ?g = "\<lambda>q. if qr_lot_business_id q = lot then token else qr_public_token q"
    have "inj_on qr_public_token (set ?rows)" "distinct ?rows" using assms(2) by (auto simp: qr_ok_def distinct_map)
    have "inj_on ?g (set ?rows)"
    proof (rule inj_onI)
      fix x y assume xy: "x \<in> set ?rows" "y \<in> set ?rows" "?g x = ?g y"
      show "x = y"
      proof (cases "qr_lot_business_id x = lot"; cases "qr_lot_business_id y = lot")
        assume "qr_lot_business_id x = lot" "qr_lot_business_id y = lot"
        with xy uniq show ?thesis by metis
      next
        assume "qr_lot_business_id x \<noteq> lot" "qr_lot_business_id y \<noteq> lot"
        with xy \<open>inj_on qr_public_token (set ?rows)\<close> show ?thesis by (simp add: inj_onD)
      qed (use xy free in auto)
    qed
    moreover have "map qr_public_token (map ?f ?rows) = map ?g ?rows" by simp
    ultimately show ?thesis using \<open>distinct ?rows\<close> by (simp only: distinct_map)
  qed
  moreover have "find (\<lambda>q. qr_lot_business_id q = lot \<and> True) ?rows = Some r"
    using r assms(2) find_unique [of qr_lot_business_id ?rows lot "\<lambda>_. True" r] by (simp add: qr_ok_def)
  moreover have rows': "lot_qr_codes s' = map ?f ?rows" by (simp add: s')
  moreover have "qr_ok s'" using assms(2) unfolding qr_ok_def rows' lots by (intro conjI toks) simp
  ultimately show ?thesis
    using r(2) by (intro that [of "?u r"]) (simp_all only: s', simp_all)
next
  case False
  let ?q = "\<lparr>qr_lot_business_id = lot, qr_public_token = token,
              qr_version = 1, qr_published_at = Some (now_us s), qr_revoked_at = None, qr_scan_count = 0,
              qr_created_at = now_us s, qr_updated_at = now_us s\<rparr>"
  have s': "s' = s\<lparr>lot_qr_codes := lot_qr_codes s @ [?q]\<rparr>"
    and free: "\<forall>q \<in> set (lot_qr_codes s). qr_public_token q \<noteq> token"
    using assms(1) False by (auto simp: upsert_qr_sql_def list_ex_iff split: if_splits)
  have "find (\<lambda>q. qr_lot_business_id q = lot \<and> True) (lot_qr_codes s) = None"
    using False by (auto simp: find_None_set list_ex_iff)
  then show ?thesis
    using False assms(2) free
    by (intro that [of ?q]) (auto simp: s' qr_ok_def list_ex_iff)
qed

text \<open>A revoke stamps the live row of the lot and leaves the others alone.\<close>

lemma revoke_qr_sql_rows:
  assumes "revoke_qr_sql lot s = Inr (n, s')"
  shows "map qr_lot_business_id (lot_qr_codes s') = map qr_lot_business_id (lot_qr_codes s)"
    and "map qr_public_token (lot_qr_codes s') = map qr_public_token (lot_qr_codes s)"
    and "{r \<in> set (lot_qr_codes s'). qr_revoked_at r = None} =
         {r \<in> set (lot_qr_codes s). qr_revoked_at r = None \<and> qr_lot_business_id r \<noteq> lot}"
    and "n = length (filter (\<lambda>r. qr_lot_business_id r = lot \<and> qr_revoked_at r = None) (lot_qr_codes s))"
    and "s' = s\<lparr>lot_qr_codes := lot_qr_codes s'\<rparr>"
proof -
  let ?hit = "\<lambda>r. qr_lot_business_id r = lot \<and> qr_revoked_at r = None"
  let ?f = "\<lambda>r. if ?hit r then r\<lparr>qr_revoked_at := Some (now_us s), qr_updated_at := now_us s\<rparr> else r"
  have s': "s' = s\<lparr>lot_qr_codes := map ?f (lot_qr_codes s)\<rparr>" "n = length (filter ?hit (lot_qr_codes s))"
    using assms by (simp_all add: revoke_qr_sql_def Let_def)
  then show "n = length (filter ?hit (lot_qr_codes s))" "s' = s\<lparr>lot_qr_codes := lot_qr_codes s'\<rparr>" by simp_all
  have rows: "lot_qr_codes s' = map ?f (lot_qr_codes s)" by (simp add: s')
  show "map qr_lot_business_id (lot_qr_codes s') = map qr_lot_business_id (lot_qr_codes s)"
    "map qr_public_token (lot_qr_codes s') = map qr_public_token (lot_qr_codes s)" by (simp_all add: rows)
  have f: "qr_revoked_at (?f r) = None \<longleftrightarrow> qr_revoked_at r = None \<and> qr_lot_business_id r \<noteq> lot" for r by auto
  have id: "?f r = r" if "qr_lot_business_id r \<noteq> lot" for r using that by simp
  show "{r \<in> set (lot_qr_codes s'). qr_revoked_at r = None} =
      {r \<in> set (lot_qr_codes s). qr_revoked_at r = None \<and> qr_lot_business_id r \<noteq> lot}"
  proof (intro equalityI subsetI)
    fix x assume "x \<in> {r \<in> set (lot_qr_codes s'). qr_revoked_at r = None}"
    then have x: "x \<in> ?f ` set (lot_qr_codes s)" "qr_revoked_at x = None"
      unfolding rows by (simp_all only: mem_Collect_eq set_map)
    from x(1) obtain r where "x = ?f r" "r \<in> set (lot_qr_codes s)" by (rule imageE)
    with x(2) f [of r] id [of r] show "x \<in> {r \<in> set (lot_qr_codes s). qr_revoked_at r = None \<and> qr_lot_business_id r \<noteq> lot}"
      by simp
  next
    fix x assume "x \<in> {r \<in> set (lot_qr_codes s). qr_revoked_at r = None \<and> qr_lot_business_id r \<noteq> lot}"
    then have x: "x \<in> set (lot_qr_codes s)" "qr_revoked_at x = None" "x = ?f x" using id by simp_all
    from image_eqI [of x ?f, OF x(3,1)] x(2) show "x \<in> {r \<in> set (lot_qr_codes s'). qr_revoked_at r = None}"
      unfolding rows by (simp only: mem_Collect_eq set_map)
  qed
qed

lemma publish_step_current:
  assumes "qr_ok s" and "publish_step lot token s = Some s'"
  shows "qr_ok s' \<and> live_token s' = (live_token s)(lot := Some token)"
proof -
  from assms(2) obtain u where "upsert_qr_sql lot token s = Inr (u, s')"
    by (auto simp: publish_step_def split: sum.splits)
  then obtain q where q: "qr_lot_business_id q = lot" "qr_public_token q = token" "qr_revoked_at q = None"
    "set (lot_qr_codes s') = insert q {r \<in> set (lot_qr_codes s). qr_lot_business_id r \<noteq> lot}" "qr_ok s'"
    by (rule upsert_qr_sql_Inr [OF _ assms(1)])
  have "live_token s' = (live_token s)(lot := Some token)"
    by (rule live_token_eqI [OF assms(1) q(5)]) (auto simp: q live_token_iff [OF assms(1)])
  with q(5) show ?thesis by simp
qed

lemma revoke_step_current:
  assumes "qr_ok s" and "revoke_step lot s = Some s'"
  shows "qr_ok s' \<and> live_token s' = (live_token s)(lot := None)"
proof -
  from assms(2) obtain n where "revoke_qr_sql lot s = Inr (n, s')"
    by (auto simp: revoke_step_def split: sum.splits if_splits)
  note r = revoke_qr_sql_rows [OF this]
  have ok: "qr_ok s'" using assms(1) r(1,2) by (simp add: qr_ok_def)
  have live: "(\<exists>r \<in> set (lot_qr_codes s'). qr_lot_business_id r = l \<and> qr_public_token r = t \<and> qr_revoked_at r = None) \<longleftrightarrow>
      (\<exists>r \<in> {r \<in> set (lot_qr_codes s). qr_revoked_at r = None \<and> qr_lot_business_id r \<noteq> lot}.
         qr_lot_business_id r = l \<and> qr_public_token r = t)" for l t
    unfolding r(3) [symmetric] by blast
  have "live_token s' = (live_token s)(lot := None)"
    by (rule live_token_eqI [OF assms(1) ok]) (auto simp: live live_token_iff [OF assms(1)])
  with ok show ?thesis by simp
qed

interpretation qr: token_registry qr_ok live_token resolve_token publish_step revoke_step
proof unfold_locales
  show "resolve_token s t = Some l \<longleftrightarrow> live_token s l = Some t" if "qr_ok s" for s :: "'a db_scheme" and t l
    using that by (simp only: resolve_token_iff live_token_iff)
qed (rule publish_step_current revoke_step_current; assumption)+

section \<open>Properties\<close>

lemma draws_qr:
  "draws_ids (upsertLotQR lot token)" "draws_ids (enqueueOutbox row)" "draws_ids (revokeLotQR lot)"
  unfolding upsertLotQR_def enqueueOutbox_def revokeLotQR_def
  by (intro keeps_intros draws_execC; auto simp: upsert_qr_sql_def enqueue_sql_def revoke_qr_sql_def Let_def
      split: if_splits)+

lemma GetLotQRByToken_healthy:
  assumes "script s = []"
  shows "GetLotQRByToken token s =
    (case resolve_token s token of None \<Rightarrow> (Inl ErrNotFound, s)
     | Some _ \<Rightarrow> (Inr (to_LotQR (the (active_by (\<lambda>r. qr_public_token r = token) s))), s))"
  using assms
  by (auto simp: GetLotQRByToken_def bindC_def handleC_def healthy row_or_notfound_def resolve_token_def
      failC_def retC_def split: option.split)

text \<open>The registry reads the QR table only.\<close>

lemma qr_cong:
  assumes "lot_qr_codes s' = lot_qr_codes s"
  shows "qr_ok s' = qr_ok s" "live_token s' = live_token s" "resolve_token s' = resolve_token s"
  using assms by (auto simp: qr_ok_def live_token_def resolve_token_def active_by_def fun_eq_iff)

definition outbox_entry :: "nat \<Rightarrow> OutboxRow \<Rightarrow> outbox_row" where
  "outbox_entry i row = \<lparr>ob_id = i, ob_event_id = ox_EventID row, ob_topic = ox_Topic row,
     ob_partition_key = ox_Key row, ob_subject = ox_Subject row, ob_payload = ox_Payload row,
     ob_published_at = None, ob_attempts = 0, ob_last_error = []\<rparr>"

lemma UpsertLotQRTx_cases:
  fixes s :: "'z db_scheme"
  assumes "UpsertLotQRTx lot token row s = (res, s')"
  obtains (none) e where "res = Inl e" "lot_qr_codes s' = lot_qr_codes s" "event_outbox s' = event_outbox s"
  | (all) t u :: "'z db_scheme" and i where "lot_qr_codes t = lot_qr_codes s" "publish_step lot token t = Some u"
      "lot_qr_codes s' = lot_qr_codes u" "event_outbox s' = event_outbox s @ [outbox_entry i row]"
      "res = Inr () \<or> res = Inl ErrDB"
proof -
  let ?body = "bindC (upsertLotQR lot token) (\<lambda>_. enqueueOutbox row)"
  have d: "draws_ids ?body" by (intro keeps_intros draws_qr)
  have run: "fst (txC ?body s) = res" "snd (txC ?body s) = s'" using assms by (simp_all add: UpsertLotQRTx_def)
  show thesis
  proof (cases rule: txC_effect [OF d, of s, case_names nothing done'])
    case (nothing e)
    with run show ?thesis by (intro none [of e]) (auto simp: ticks_db)
  next
    case (done' a s1)
    then obtain u where u: "upsert_qr_sql lot token (step_io (step_io s)) = Inr ((), u)"
      and q: "enqueue_sql row (step_io u) = Inr ((), s1)"
      by (auto simp: bindC_Inr_iff upsertLotQR_def enqueueOutbox_def execC_Inr_iff)
    have "publish_step lot token (step_io (step_io s)) = Some u" by (simp add: publish_step_def u)
    moreover have "event_outbox u = event_outbox s" using u by (auto simp: upsert_qr_sql_def split: if_splits)
    moreover have "event_outbox s1 = event_outbox u @ [outbox_entry (fresh_id u) row]" "lot_qr_codes s1 = lot_qr_codes u"
      using q by (auto simp: enqueue_sql_def outbox_entry_def)
    ultimately show ?thesis using done' run
      by (intro all [of "step_io (step_io s)" u "fresh_id u"]) auto
  qed
qed

lemma RevokeLotQRTx_cases:
  fixes s :: "'z db_scheme"
  assumes "RevokeLotQRTx lot row s = (res, s')"
  obtains (none) e where "res = Inl e" "lot_qr_codes s' = lot_qr_codes s" "event_outbox s' = event_outbox s"
  | (all) t u :: "'z db_scheme" and i where "lot_qr_codes t = lot_qr_codes s" "revoke_step lot t = Some u"
      "lot_qr_codes s' = lot_qr_codes u" "event_outbox s' = event_outbox s @ [outbox_entry i row]"
      "res = Inr () \<or> res = Inl ErrDB"
proof -
  let ?body = "bindC (revokeLotQR lot) (\<lambda>_. enqueueOutbox row)"
  have d: "draws_ids ?body" by (intro keeps_intros draws_qr)
  have run: "fst (txC ?body s) = res" "snd (txC ?body s) = s'" using assms by (simp_all add: RevokeLotQRTx_def)
  show thesis
  proof (cases rule: txC_effect [OF d, of s, case_names nothing done'])
    case (nothing e)
    with run show ?thesis by (intro none [of e]) (auto simp: ticks_db)
  next
    case (done' a s1)
    then obtain n u where u: "revoke_qr_sql lot (step_io (step_io s)) = Inr (n, u)" "n \<noteq> 0"
      and q: "enqueue_sql row (step_io u) = Inr ((), s1)"
      by (auto simp: bindC_Inr_iff revokeLotQR_def enqueueOutbox_def execC_Inr_iff failC_def retC_def split: if_splits)
    have "revoke_step lot (step_io (step_io s)) = Some u" by (simp add: revoke_step_def u)
    moreover have "event_outbox u = event_outbox s" using u by (auto simp: revoke_qr_sql_def Let_def)
    moreover have "event_outbox s1 = event_outbox u @ [outbox_entry (fresh_id u) row]" "lot_qr_codes s1 = lot_qr_codes u"
      using q by (auto simp: enqueue_sql_def outbox_entry_def)
    ultimately show ?thesis using done' run
      by (intro all [of "step_io (step_io s)" u "fresh_id u"]) auto
  qed
qed

text \<open>
  C29. Publishing a lot's QR code is atomic and does what the register promises, however the database
  behaves: either neither the QR table nor the outbox changes and the caller sees an error, or the
  new token resolves to the lot, the token the lot had before no longer resolves, the tokens of all
  other lots still do, and exactly one event for the relay is in the outbox.  Lots and tokens stay
  unique throughout.
\<close>

theorem publish_qr_atomic:
  assumes "qr_ok s" and "UpsertLotQRTx lot token row s = (res, s')"
  shows "qr_ok s' \<and>
    (lot_qr_codes s' = lot_qr_codes s \<and> event_outbox s' = event_outbox s \<and> res \<noteq> Inr () \<or>
     (\<exists>i. event_outbox s' = event_outbox s @ [outbox_entry i row]) \<and> resolve_token s' token = Some lot \<and>
     (\<forall>t0. live_token s lot = Some t0 \<longrightarrow> t0 \<noteq> token \<longrightarrow> resolve_token s' t0 = None) \<and>
     (\<forall>m t0. m \<noteq> lot \<longrightarrow> live_token s m = Some t0 \<longrightarrow> resolve_token s' t0 = Some m))"
  using assms(2)
proof (cases rule: UpsertLotQRTx_cases)
  case (none e)
  then show ?thesis using assms(1) qr_cong(1) [of s' s] by simp
next
  case (all t u i)
  have t: "qr_ok t" "live_token t = live_token s" using qr_cong [OF all(1)] assms(1) by simp_all
  have u: "qr_ok u" using publish_step_current [OF t(1) all(2)] by simp
  have s': "qr_ok s'" "resolve_token s' = resolve_token u" using qr_cong [OF all(3)] u by simp_all
  show ?thesis
    using all(4) s' qr.resolve_published [OF t(1) all(2)] qr.old_token_dies [OF t(1) _ all(2)]
      qr.other_lots_keep(1) [OF t(1) _ _ all(2)] t(2) by auto
qed

text \<open>
  Revoking is atomic too and never invents an event: either nothing changes and the caller sees an
  error, or the lot had a live token, that token no longer resolves, all other lots are untouched and
  one event is in the outbox.  For a lot without a live token the call cannot report success.
\<close>

theorem revoke_qr_atomic:
  assumes "qr_ok s" and "RevokeLotQRTx lot row s = (res, s')"
  shows "qr_ok s' \<and>
    (lot_qr_codes s' = lot_qr_codes s \<and> event_outbox s' = event_outbox s \<and> res \<noteq> Inr () \<or>
     (\<exists>i. event_outbox s' = event_outbox s @ [outbox_entry i row]) \<and>
     (\<exists>t0. live_token s lot = Some t0 \<and> resolve_token s' t0 = None) \<and> live_token s' lot = None \<and>
     (\<forall>m t0. m \<noteq> lot \<longrightarrow> live_token s m = Some t0 \<longrightarrow> resolve_token s' t0 = Some m))"
  using assms(2)
proof (cases rule: RevokeLotQRTx_cases)
  case (none e)
  then show ?thesis using assms(1) qr_cong(1) [of s' s] by simp
next
  case (all t u i)
  have t: "qr_ok t" "live_token t = live_token s" using qr_cong [OF all(1)] assms(1) by simp_all
  have u: "qr_ok u" "live_token u = (live_token s)(lot := None)"
    using revoke_step_current [OF t(1) all(2)] t(2) by simp_all
  have s': "qr_ok s'" "resolve_token s' = resolve_token u" "live_token s' = live_token u"
    using qr_cong [OF all(3)] u by simp_all
  have "filter (\<lambda>r. qr_lot_business_id r = lot \<and> qr_revoked_at r = None) (lot_qr_codes t) \<noteq> []"
    using all(2) by (auto simp: revoke_step_def revoke_qr_sql_def Let_def split: if_splits)
  then obtain r where "r \<in> set (lot_qr_codes t)" "qr_lot_business_id r = lot" "qr_revoked_at r = None"
    by (auto simp: filter_empty_conv)
  then have "live_token t lot = Some (qr_public_token r)" using live_token_iff [OF t(1)] by blast
  then show ?thesis
    using all(4) s' u(2) qr.revoked_token_dies [OF t(1) _ all(2)]
      qr.other_lots_keep(2) [OF t(1) _ _ all(2)] t(2) by auto
qed

definition sample_outbox :: OutboxRow where
  "sample_outbox = \<lparr>ox_EventID = ''e1'', ox_Topic = ''iag.scm'', ox_Key = ''L-1'',
     ox_Subject = ''scm.lot.qr_published'', ox_Payload = ''{}''\<rparr>"

definition sample_qr :: db where
  "sample_qr = (empty_db [] 100)\<lparr>lot_qr_codes := [\<lparr>qr_lot_business_id = ''L-1'', qr_public_token = ''t1'',
     qr_version = 1, qr_published_at = Some 50, qr_revoked_at = None, qr_scan_count = 0,
     qr_created_at = 50, qr_updated_at = 50\<rparr>]\<rparr>"

lemma sample_qr_ok: "qr_ok sample_qr" "live_token sample_qr ''L-1'' = Some ''t1''" "script sample_qr = []"
  by (simp_all add: qr_ok_def sample_qr_def live_token_def active_by_def empty_db_def)

lemma sample_publish: "fst (UpsertLotQRTx ''L-1'' ''t2'' sample_outbox sample_qr) = Inr ()"
  by (simp add: UpsertLotQRTx_def txC_def Let_def sample_qr_def empty_db_def bindC_def handleC_def
      upsertLotQR_def enqueueOutbox_def healthy upsert_qr_sql_def enqueue_sql_def)

theorem publish_qr_atomic_witness:
  "\<exists>s'. UpsertLotQRTx ''L-1'' ''t2'' sample_outbox sample_qr = (Inr (), s') \<and> qr_ok s' \<and>
     resolve_token s' ''t2'' = Some ''L-1'' \<and> resolve_token s' ''t1'' = None"
proof -
  obtain s' where run: "UpsertLotQRTx ''L-1'' ''t2'' sample_outbox sample_qr = (Inr (), s')"
    using sample_publish by (metis prod.collapse)
  from publish_qr_atomic [OF sample_qr_ok(1) run] run sample_qr_ok(2) show ?thesis by auto
qed

lemma sample_revoke: "fst (RevokeLotQRTx ''L-1'' sample_outbox sample_qr) = Inr ()"
  by (simp add: RevokeLotQRTx_def txC_def Let_def sample_qr_def empty_db_def bindC_def handleC_def
      revokeLotQR_def enqueueOutbox_def healthy revoke_qr_sql_def enqueue_sql_def retC_def)

theorem revoke_qr_atomic_witness:
  "\<exists>s'. RevokeLotQRTx ''L-1'' sample_outbox sample_qr = (Inr (), s') \<and> qr_ok s' \<and>
     resolve_token s' ''t1'' = None"
proof -
  obtain s' where run: "RevokeLotQRTx ''L-1'' sample_outbox sample_qr = (Inr (), s')"
    using sample_revoke by (metis prod.collapse)
  from revoke_qr_atomic [OF sample_qr_ok(1) run] run sample_qr_ok(2) show ?thesis by auto
qed

end
