(* ===== verification/QrRegister.thy ===== *)
theory QrRegister
  imports QrStore
begin

text \<open>
  \<open>internal/store/qr_register.go\<close>: the register of lot QR codes with its search, and the hand-edited
  part of a public story.  \<open>ILIKE\<close> folds ASCII letters; \<open>ORDER BY lot_business_id\<close> compares bytes.
\<close>

section \<open>Data\<close>

record StoryOverridePatch =
  pt_StoryTitle :: "string option"
  pt_StoryBody :: "string option"
  pt_UpdatedBy :: string
  pt_UpdatedByUserID :: "uuid option"

record QRRegisterRow =
  rg_LotBusinessID :: string
  rg_Token :: string
  rg_Version :: int
  rg_PublicURL :: string
  rg_PublishedAt :: "int option"
  rg_RevokedAt :: "int option"
  rg_ScanCount :: int
  rg_Status :: string
  rg_StoryTitle :: "string option"
  rg_StoryOverride :: "override_row option"
  rg_FarmerNames :: "string list"
  rg_CreatedAt :: int
  rg_UpdatedAt :: int

record QRRegisterFilter =
  rf_Status :: string
  rf_Q :: string
  rf_Limit :: int

definition QRStatus :: "int option \<Rightarrow> int option \<Rightarrow> string" where
  "QRStatus publishedAt revokedAt =
     (if revokedAt \<noteq> None then ''Revoked'' else if publishedAt \<noteq> None then ''Live'' else ''Unpublished'')"

section \<open>Names and titles\<close>

fun first_name :: "gmap \<Rightarrow> string list \<Rightarrow> string option" where
  "first_name e [] = None"
| "first_name e (k # ks) =
     (case as_str (mget e k) of
        Some n \<Rightarrow> if TrimSpace n \<noteq> [] then Some (TrimSpace n) else first_name e ks
      | None \<Rightarrow> first_name e ks)"

definition farmer_entries :: "gval option \<Rightarrow> gmap list" where
  "farmer_entries v = (case v of
     Some (GArr arr) \<Rightarrow> List.map_filter (\<lambda>e. case e of GMap m \<Rightarrow> Some m | _ \<Rightarrow> None) arr
   | Some (GMaps ms) \<Rightarrow> ms | _ \<Rightarrow> [])"

fun collect_names :: "gmap list \<Rightarrow> string list \<Rightarrow> string list" where
  "collect_names [] names = names"
| "collect_names (e # es) names =
     (case first_name e [''name'', ''full_name'', ''display_name''] of
        Some n \<Rightarrow> collect_names es (if n \<in> set names then names else names @ [n])
      | None \<Rightarrow> collect_names es names)"

definition FarmerNames :: "gmap \<Rightarrow> string list" where
  "FarmerNames payload = collect_names (farmer_entries (mget payload ''farmers'')) []"

definition registerTitle :: "override_row option \<Rightarrow> gmap \<Rightarrow> string option" where
  "registerTitle ov payload =
     (case Option.bind ov ov_story_title of
        Some t \<Rightarrow> Some t
      | None \<Rightarrow> (case as_str (mget payload ''title'') of
           Some t \<Rightarrow> if TrimSpace t \<noteq> [] then Some t else None
         | None \<Rightarrow> None))"

section \<open>Search\<close>

definition escapeLike :: "string \<Rightarrow> string" where
  "escapeLike s = concat (map (\<lambda>c. if c \<in> {CHR 0x5C, CHR ''%'', CHR ''_''} then [CHR 0x5C, c] else [c]) s)"

text \<open>\<open>LIKE\<close> with the default escape character; a pattern that ends in it matches nothing here
  (Postgres raises an error), which no pattern of the service does.\<close>

function like :: "string \<Rightarrow> string \<Rightarrow> bool" where
  "like [] s = (s = [])"
| "like (c # p) s =
     (if c = CHR 0x5C then (case p of [] \<Rightarrow> False
        | d # p' \<Rightarrow> (case s of [] \<Rightarrow> False | x # s' \<Rightarrow> x = d \<and> like p' s'))
      else if c = CHR ''%'' then (like p s \<or> (case s of [] \<Rightarrow> False | _ # s' \<Rightarrow> like (c # p) s'))
      else case s of [] \<Rightarrow> False
        | x # s' \<Rightarrow> (c = CHR ''_'' \<or> x = c) \<and> like p s')"
  by pat_completeness auto
termination
  by (relation "measures [\<lambda>(p, s). length p + length s]") auto

declare like.simps(2) [simp del]

definition ilike :: "string \<Rightarrow> string \<Rightarrow> bool" where
  "ilike s pat = like (map lower_ascii pat) (map lower_ascii s)"

definition ilike_opt :: "string option \<Rightarrow> string \<Rightarrow> bool" where
  "ilike_opt s pat = (case s of None \<Rightarrow> False | Some s \<Rightarrow> ilike s pat)"

text \<open>\<open>jsonb_array_elements(CASE WHEN jsonb_typeof(v) = 'array' ...)\<close>.\<close>

definition array_elements :: "gval option \<Rightarrow> gval list" where
  "array_elements v = (case v of Some (GArr vs) \<Rightarrow> vs | Some (GMaps ms) \<Rightarrow> map GMap ms
     | Some (GStrs ss) \<Rightarrow> map GStr ss | _ \<Rightarrow> [])"

definition elem_text :: "ext \<Rightarrow> gval \<Rightarrow> string \<Rightarrow> string option" where
  "elem_text X v k = (case v of GMap m \<Rightarrow> jsonb_text X m k | _ \<Rightarrow> None)"

definition register_search ::
  "ext \<Rightarrow> string \<Rightarrow> qr_row \<Rightarrow> gmap option \<Rightarrow> override_row option \<Rightarrow> bool" where
  "register_search X pat r p ov \<longleftrightarrow>
     ilike (qr_lot_business_id r) pat \<or>
     ilike_opt (Option.bind ov ov_story_title) pat \<or>
     ilike_opt (Option.bind ov ov_story_body) pat \<or>
     ilike_opt (Option.bind p (\<lambda>m. jsonb_text X m ''title'')) pat \<or>
     list_ex (\<lambda>f. ilike_opt (elem_text X f ''name'') pat \<or> ilike_opt (elem_text X f ''full_name'') pat \<or>
                  ilike_opt (elem_text X f ''display_name'') pat)
       (array_elements (Option.bind p (\<lambda>m. mget m ''farmers'')))"

definition status_filter :: "string \<Rightarrow> err + (qr_row \<Rightarrow> bool)" where
  "status_filter st = (let t = ToLower (TrimSpace st) in
     if t = [] then Inr (\<lambda>_. True)
     else if t = ''live'' then Inr (\<lambda>r. qr_revoked_at r = None \<and> qr_published_at r \<noteq> None)
     else if t = ''revoked'' then Inr (\<lambda>r. qr_revoked_at r \<noteq> None)
     else Inl ErrInvalidFilter)"

section \<open>The register\<close>

definition register_row :: "'z db_scheme \<Rightarrow> qr_row \<Rightarrow> QRRegisterRow" where
  "register_row s r =
     (let payload = or_empty (map_of (lot_story_projections s) (qr_lot_business_id r));
          ov = map_of (lot_story_overrides s) (qr_lot_business_id r) in
      \<lparr>rg_LotBusinessID = qr_lot_business_id r, rg_Token = qr_public_token r, rg_Version = qr_version r,
       rg_PublicURL = [], rg_PublishedAt = qr_published_at r, rg_RevokedAt = qr_revoked_at r,
       rg_ScanCount = qr_scan_count r, rg_Status = QRStatus (qr_published_at r) (qr_revoked_at r),
       rg_StoryTitle = registerTitle ov payload, rg_StoryOverride = ov, rg_FarmerNames = FarmerNames payload,
       rg_CreatedAt = qr_created_at r,
       rg_UpdatedAt = max (qr_updated_at r) (case ov of None \<Rightarrow> qr_updated_at r | Some o' \<Rightarrow> ov_updated_at o')\<rparr>)"

definition register_rows :: "ext \<Rightarrow> (qr_row \<Rightarrow> bool) \<Rightarrow> string \<Rightarrow> 'z db_scheme \<Rightarrow> QRRegisterRow list" where
  "register_rows X keep q s =
     sort_key (\<lambda>g. - rg_UpdatedAt g)
       (map (\<lambda>g. snd g) (sort_by_key (map (\<lambda>r. (qr_lot_business_id r, register_row s r))
         (filter (\<lambda>r. keep r \<and>
              (q = [] \<or> register_search X (''%'' @ escapeLike q @ ''%'') r
                 (map_of (lot_story_projections s) (qr_lot_business_id r))
                 (map_of (lot_story_overrides s) (qr_lot_business_id r))))
           (lot_qr_codes s)))))"

definition ListQRRegister :: "ext \<Rightarrow> QRRegisterFilter \<Rightarrow> ('z db_scheme, QRRegisterRow list) cmd" where
  "ListQRRegister X f =
     (case status_filter (rf_Status f) of Inl e \<Rightarrow> failC e
      | Inr keep \<Rightarrow> queryC (\<lambda>s. take (nat (clamp_limit 500 100 (rf_Limit f)))
                                 (register_rows X keep (TrimSpace (rf_Q f)) s)))"

definition GetQRRegisterRow :: "string \<Rightarrow> ('z db_scheme, QRRegisterRow) cmd" where
  "GetQRRegisterRow lot =
     bindC (queryC (\<lambda>s. map_option (register_row s) (find (\<lambda>r. qr_lot_business_id r = lot) (lot_qr_codes s))))
       row_or_notfound"

section \<open>Story overrides\<close>

definition GetStoryOverride :: "string \<Rightarrow> ('z db_scheme, override_row option) cmd" where
  "GetStoryOverride lot = queryC (\<lambda>s. map_of (lot_story_overrides s) lot)"

definition nonEmpty :: "string \<Rightarrow> string option" where
  "nonEmpty s = (let t = TrimSpace s in if t = [] then None else Some t)"

definition patched :: "string option \<Rightarrow> string option \<Rightarrow> string option" where
  "patched prev p = (case p of None \<Rightarrow> prev | Some v \<Rightarrow> nonEmpty v)"

definition write_override_sql ::
  "string \<Rightarrow> string option \<Rightarrow> string option \<Rightarrow> StoryOverridePatch \<Rightarrow> 'z db_scheme \<Rightarrow> err + (unit \<times> 'z db_scheme)" where
  "write_override_sql lot title body p s = Inr ((), s\<lparr>lot_story_overrides :=
     (if title = None \<and> body = None then AList.delete lot (lot_story_overrides s)
      else AList.update lot \<lparr>ov_story_title = title, ov_story_body = body, ov_updated_by = pt_UpdatedBy p,
             ov_updated_by_user_id = pt_UpdatedByUserID p, ov_updated_at = now_us s\<rparr> (lot_story_overrides s))\<rparr>)"

definition audit_sql ::
  "string \<Rightarrow> string option \<Rightarrow> string option \<Rightarrow> string option \<Rightarrow> string option \<Rightarrow> StoryOverridePatch \<Rightarrow>
   'z db_scheme \<Rightarrow> err + (unit \<times> 'z db_scheme)" where
  "audit_sql lot prevTitle prevBody title body p s = Inr ((), s\<lparr>lot_story_override_audit :=
     lot_story_override_audit s @ [\<lparr>oa_lot_business_id = lot, oa_previous_title = prevTitle,
       oa_previous_body = prevBody, oa_story_title = title, oa_story_body = body,
       oa_updated_by = pt_UpdatedBy p, oa_updated_by_user_id = pt_UpdatedByUserID p, oa_created_at = now_us s\<rparr>]\<rparr>)"

definition overlay :: "string option \<Rightarrow> string option \<Rightarrow> gmap" where
  "overlay title body =
     (case title of None \<Rightarrow> [] | Some t \<Rightarrow> [(''story_title'', GStr t)]) @
     (case body of None \<Rightarrow> [] | Some b \<Rightarrow> [(''story_body'', GStr b)])"

definition mirror_sql ::
  "ext \<Rightarrow> string \<Rightarrow> string option \<Rightarrow> string option \<Rightarrow> 'z db_scheme \<Rightarrow> err + (unit \<times> 'z db_scheme)" where
  "mirror_sql X lot title body s =
     (case enc_jsonb X (overlay title body) of None \<Rightarrow> Inl ErrDB
      | Some ovl \<Rightarrow> Inr ((), s\<lparr>lot_story_projections :=
          map (\<lambda>(l, p). if l = lot then (l, mmerge (mdel ''story_body'' (mdel ''story_title'' p)) ovl) else (l, p))
            (lot_story_projections s)\<rparr>))"

definition override_body :: "ext \<Rightarrow> string \<Rightarrow> StoryOverridePatch \<Rightarrow> ('z db_scheme, unit) cmd" where
  "override_body X lot p =
     bindC (queryC (\<lambda>s. list_ex (\<lambda>r. qr_lot_business_id r = lot) (lot_qr_codes s))) (\<lambda>present.
      if \<not> present then failC ErrNotFound
      else bindC (queryC (\<lambda>s. map_of (lot_story_overrides s) lot)) (\<lambda>prev.
        let prevTitle = Option.bind prev ov_story_title; prevBody = Option.bind prev ov_story_body;
            title = patched prevTitle (pt_StoryTitle p); body = patched prevBody (pt_StoryBody p) in
        bindC (execC (write_override_sql lot title body p)) (\<lambda>_.
        bindC (execC (audit_sql lot prevTitle prevBody title body p)) (\<lambda>_.
          execC (mirror_sql X lot title body)))))"

definition SetStoryOverride :: "ext \<Rightarrow> string \<Rightarrow> StoryOverridePatch \<Rightarrow> ('z db_scheme, unit) cmd" where
  "SetStoryOverride X lot p = txC (override_body X lot p)"

definition ListStoryOverrideAudit :: "string \<Rightarrow> int \<Rightarrow> ('z db_scheme, override_audit_row list) cmd" where
  "ListStoryOverrideAudit lot limit = queryC (\<lambda>s.
     take (nat (clamp_limit 200 50 limit))
       (sort_key (\<lambda>a. - oa_created_at a)
         (rev (filter (\<lambda>a. oa_lot_business_id a = lot) (lot_story_override_audit s)))))"

section \<open>The search pattern\<close>

lemma like_percent: "like (CHR ''%'' # p) s \<longleftrightarrow> (\<exists>pre suf. s = pre @ suf \<and> like p suf)"
proof (induction s)
  case Nil
  then show ?case by (simp add: like.simps(2))
next
  case (Cons x s)
  have "like (CHR ''%'' # p) (x # s) \<longleftrightarrow> like p (x # s) \<or> like (CHR ''%'' # p) s"
    by (simp add: like.simps(2) [of "CHR ''%''" p "x # s"])
  also have "\<dots> \<longleftrightarrow> (\<exists>pre suf. x # s = pre @ suf \<and> like p suf)"
    unfolding Cons by (auto simp: Cons_eq_append_conv)
  finally show ?case .
qed

lemma like_escaped: "like (escapeLike q @ p) s \<longleftrightarrow> (\<exists>suf. s = q @ suf \<and> like p suf)"
proof (induction q arbitrary: s)
  case Nil
  then show ?case by (simp add: escapeLike_def)
next
  case (Cons c q)
  have step: "like (escapeLike (c # q) @ p) s \<longleftrightarrow>
      (case s of [] \<Rightarrow> False | x # s' \<Rightarrow> x = c \<and> like (escapeLike q @ p) s')"
    by (auto simp: escapeLike_def like.simps(2) split: list.split)
  show ?case unfolding step by (cases s) (auto simp: Cons)
qed

lemma Contains_iff: "Contains s q \<longleftrightarrow> (\<exists>pre suf. s = pre @ q @ suf)"
proof (induction s)
  case (Cons c s)
  have "HasPrefix (c # s) q \<longleftrightarrow> (\<exists>suf. c # s = q @ suf)"
    unfolding HasPrefix_def by (metis append_eq_conv_conj append_take_drop_id)
  then show ?case by (auto simp: Cons Cons_eq_append_conv)
qed auto

lemma lower_special:
  "(of_char (lower_ascii c) :: nat) = (if 65 \<le> (of_char c :: nat) \<and> (of_char c :: nat) \<le> 90
     then of_char c + 32 else of_char c)"
  using of_char_byte [of "of_char c + 32"] by (simp add: lower_ascii_def Let_def del: of_char_of)

lemma lower_eq_special:
  assumes "(of_char d :: nat) \<notin> {65..90}" and "(of_char d :: nat) \<notin> {97..122}"
  shows "lower_ascii c = d \<longleftrightarrow> c = d"
proof -
  have "lower_ascii c = d \<longleftrightarrow> (of_char (lower_ascii c) :: nat) = of_char d"
    by (metis char_of_char)
  also have "\<dots> \<longleftrightarrow> (of_char c :: nat) = of_char d" using assms by (auto simp: lower_special)
  also have "\<dots> \<longleftrightarrow> c = d" by (metis char_of_char)
  finally show ?thesis .
qed

lemma lower_escape: "map lower_ascii (escapeLike q) = escapeLike (map lower_ascii q)"
proof (induction q)
  case (Cons c q)
  have sp: "lower_ascii c = CHR 0x5C \<longleftrightarrow> c = CHR 0x5C" "lower_ascii c = CHR ''%'' \<longleftrightarrow> c = CHR ''%''"
    "lower_ascii c = CHR ''_'' \<longleftrightarrow> c = CHR ''_''"
    by (rule lower_eq_special; simp)+
  have "lower_ascii (CHR 0x5C) = CHR 0x5C" by (simp add: lower_ascii_def)
  with Cons sp show ?case by (simp add: escapeLike_def)
qed (simp add: escapeLike_def)

section \<open>Properties\<close>

text \<open>
  C30. Searching the register finds exactly what was typed: for any search text, including one with
  percent signs, underscores and backslashes, the \<open>ILIKE\<close> pattern the code builds matches a column
  if and only if the column contains the text, ignoring the case of ASCII letters.
\<close>

theorem search_is_substring:
  "ilike s (''%'' @ escapeLike q @ ''%'') \<longleftrightarrow> Contains (map lower_ascii s) (map lower_ascii q)"
proof -
  have "lower_ascii (CHR ''%'') = CHR ''%''" by (simp add: lower_ascii_def)
  then have "ilike s (''%'' @ escapeLike q @ ''%'') \<longleftrightarrow>
      like (CHR ''%'' # escapeLike (map lower_ascii q) @ ''%'') (map lower_ascii s)"
    by (simp add: ilike_def lower_escape)
  also have "\<dots> \<longleftrightarrow> (\<exists>pre suf. map lower_ascii s = pre @ map lower_ascii q @ suf)"
    unfolding like_percent like_escaped by auto
  finally show ?thesis by (simp add: Contains_iff)
qed

lemma draws_override:
  "draws_ids (execC (write_override_sql lot title body p))"
  "draws_ids (execC (audit_sql lot pt pb title body p))"
  "draws_ids (execC (mirror_sql X lot title body))"
  by (rule draws_execC, auto simp: write_override_sql_def audit_sql_def mirror_sql_def split: option.splits)+

lemma map_of_update_one:
  "map_of (map (\<lambda>(l, p). if l = k then (l, f p) else (l, p)) xs) k = map_option f (map_of xs k)"
  by (induction xs) auto

lemma overlay_lookup:
  "as_str (mget (mmerge (mdel ''story_body'' (mdel ''story_title'' m)) (overlay title body)) ''story_title'') = title"
  "as_str (mget (mmerge (mdel ''story_body'' (mdel ''story_title'' m)) (overlay title body)) ''story_body'') = body"
  by (cases title; cases body;
      simp add: overlay_def map_of_mmerge AList.delete_conv' as_str_def)+

text \<open>Besides the clock, the script and the id supply, only the three tables of stories have changed.\<close>

definition only_story :: "'z db_scheme \<Rightarrow> 'z db_scheme \<Rightarrow> bool" where
  "only_story s s' \<longleftrightarrow>
     s' = s\<lparr>script := script s', now_us := now_us s', fresh_id := fresh_id s',
        lot_story_projections := lot_story_projections s', lot_story_overrides := lot_story_overrides s',
        lot_story_override_audit := lot_story_override_audit s'\<rparr>"

lemma only_story_trans: "only_story s t \<Longrightarrow> only_story t u \<Longrightarrow> only_story s u"
  unfolding only_story_def by (cases s, cases t, cases u) simp

lemma ticks_only_story: "ticks s t \<Longrightarrow> only_story s t"
  unfolding only_story_def ticks_def by (cases s, cases t) simp

lemma only_story_write:
  "only_story s (s\<lparr>lot_story_overrides := x\<rparr>)" "only_story s (s\<lparr>lot_story_override_audit := y\<rparr>)"
  "only_story s (s\<lparr>lot_story_projections := z\<rparr>)"
  by (simp_all add: only_story_def)

lemma only_story_db:
  assumes "only_story s s'"
  shows "lot_qr_codes s' = lot_qr_codes s" "event_outbox s' = event_outbox s"
  using arg_cong [OF assms [unfolded only_story_def], of lot_qr_codes]
    arg_cong [OF assms [unfolded only_story_def], of event_outbox] by simp_all

lemma override_body_Inr:
  assumes "override_body X lot p s = (Inr u, s')"
    and title: "title = patched (Option.bind (map_of (lot_story_overrides s) lot) ov_story_title) (pt_StoryTitle p)"
    and body: "body = patched (Option.bind (map_of (lot_story_overrides s) lot) ov_story_body) (pt_StoryBody p)"
  shows "only_story s s'" "l \<noteq> lot \<Longrightarrow> map_of (lot_story_projections s') l = map_of (lot_story_projections s) l"
    "\<exists>r. lot_story_overrides s' = (if title = None \<and> body = None then AList.delete lot (lot_story_overrides s)
        else AList.update lot r (lot_story_overrides s)) \<and> ov_story_title r = title \<and> ov_story_body r = body"
    "\<exists>a. lot_story_override_audit s' = lot_story_override_audit s @ [a] \<and> oa_lot_business_id a = lot \<and>
       oa_story_title a = title \<and> oa_story_body a = body \<and>
       oa_previous_title a = Option.bind (map_of (lot_story_overrides s) lot) ov_story_title"
    "map_of (lot_story_projections s') lot =
       map_option (\<lambda>m. mmerge (mdel ''story_body'' (mdel ''story_title'' m)) (x_jsonb X (overlay title body)))
         (map_of (lot_story_projections s) lot)"
proof -
  let ?prev = "map_of (lot_story_overrides s) lot"
  from assms(1) obtain w a where
    w: "write_override_sql lot title body p (step_io (step_io (step_io s))) = Inr ((), w)"
    and a: "audit_sql lot (Option.bind ?prev ov_story_title) (Option.bind ?prev ov_story_body) title body p (step_io w) = Inr ((), a)"
    and m: "mirror_sql X lot title body (step_io a) = Inr ((), s')"
    by (auto simp: override_body_def bindC_Inr_iff queryC_Inr_iff execC_Inr_iff failC_def Let_def title body
        split: if_splits)
  have s': "s' = (step_io a)\<lparr>lot_story_projections := map (\<lambda>(l, p). if l = lot
      then (l, mmerge (mdel ''story_body'' (mdel ''story_title'' p)) (x_jsonb X (overlay title body))) else (l, p))
      (lot_story_projections a)\<rparr>"
    using m by (auto simp: mirror_sql_def enc_jsonb_def split: option.splits)
  have au: "a = (step_io w)\<lparr>lot_story_override_audit := lot_story_override_audit a\<rparr>"
    "\<exists>x. lot_story_override_audit a = lot_story_override_audit w @ [x] \<and> oa_lot_business_id x = lot \<and>
       oa_story_title x = title \<and> oa_story_body x = body \<and> oa_previous_title x = Option.bind ?prev ov_story_title"
    using a by (auto simp: audit_sql_def)
  have wr: "w = (step_io (step_io (step_io s)))\<lparr>lot_story_overrides := lot_story_overrides w\<rparr>"
    "\<exists>r. lot_story_overrides w = (if title = None \<and> body = None then AList.delete lot (lot_story_overrides s)
        else AList.update lot r (lot_story_overrides s)) \<and> ov_story_title r = title \<and> ov_story_body r = body"
    using w
    by (auto simp: write_override_sql_def
        intro!: exI [of _ "\<lparr>ov_story_title = title, ov_story_body = body, ov_updated_by = pt_UpdatedBy p,
          ov_updated_by_user_id = pt_UpdatedByUserID p, ov_updated_at = now_us (step_io (step_io (step_io s)))\<rparr>"])
  have tabs: "lot_story_overrides s' = lot_story_overrides w" "lot_story_override_audit s' = lot_story_override_audit a"
    "lot_story_projections a = lot_story_projections s" "lot_story_override_audit w = lot_story_override_audit s"
    using s' arg_cong [OF au(1), of lot_story_overrides] arg_cong [OF au(1), of lot_story_projections]
      arg_cong [OF wr(1), of lot_story_projections] arg_cong [OF wr(1), of lot_story_override_audit]
    by simp_all
  have tick: "only_story t (step_io t)" for t :: "'a db_scheme"
    by (intro ticks_only_story ticks_step_io)
  have "only_story s w"
    by (subst wr(1)) (rule only_story_trans [OF tick only_story_trans [OF tick only_story_trans [OF tick only_story_write(1)]]])
  moreover have "only_story w a" by (subst au(1)) (rule only_story_trans [OF tick only_story_write(2)])
  moreover have "only_story a s'" unfolding s' by (rule only_story_trans [OF tick only_story_write(3)])
  ultimately show "only_story s s'" using only_story_trans by blast
  have "map_of (map (\<lambda>(l, p). if l = lot then (l, f p) else (l, p)) xs) l = map_of xs l" if "l \<noteq> lot" for f xs
    using that by (induction xs) auto
  then show "map_of (lot_story_projections s') l = map_of (lot_story_projections s) l" if "l \<noteq> lot"
    using that arg_cong [OF s', of lot_story_projections] by (simp add: tabs)
  show "\<exists>r. lot_story_overrides s' = (if title = None \<and> body = None then AList.delete lot (lot_story_overrides s)
        else AList.update lot r (lot_story_overrides s)) \<and> ov_story_title r = title \<and> ov_story_body r = body"
    using wr(2) by (simp only: tabs)
  show "\<exists>a. lot_story_override_audit s' = lot_story_override_audit s @ [a] \<and> oa_lot_business_id a = lot \<and>
       oa_story_title a = title \<and> oa_story_body a = body \<and> oa_previous_title a = Option.bind ?prev ov_story_title"
    using au(2) by (simp only: tabs)
  show "map_of (lot_story_projections s') lot =
       map_option (\<lambda>m. mmerge (mdel ''story_body'' (mdel ''story_title'' m)) (x_jsonb X (overlay title body)))
         (map_of (lot_story_projections s) lot)"
    using arg_cong [OF s', of lot_story_projections] by (simp add: map_of_update_one tabs)
qed

lemma draws_override_body: "draws_ids (override_body X lot p)"
  unfolding override_body_def Let_def by (intro keeps_intros draws_override)

text \<open>
  C31. Editing a story never breaks a printed label, is recorded, and is done whole or not at all.
  Whatever the database does, \<open>SetStoryOverride\<close> either changes no table and reports an error, or
  changes nothing but the three tables of stories, and in these all of the following: the lot's
  override is the patched title and body (removed when both are empty) and other lots keep theirs, one
  audit row records the old and the new text, and a stored story of the lot carries exactly the
  override, when JSONB keeps its strings, while stories of other lots stay.  Success is reported only in the
  second case.  The QR table, with it every token and version, and the outbox stay in both.
\<close>

theorem story_override_effect:
  assumes "SetStoryOverride X lot p s = (res, s')"
    and "\<And>t b. x_jsonb X (overlay t b) = overlay t b"
    and "title = patched (Option.bind (map_of (lot_story_overrides s) lot) ov_story_title) (pt_StoryTitle p)"
    and "body = patched (Option.bind (map_of (lot_story_overrides s) lot) ov_story_body) (pt_StoryBody p)"
  shows "lot_qr_codes s' = lot_qr_codes s \<and> event_outbox s' = event_outbox s \<and>
    (ticks s s' \<and> res \<noteq> Inr () \<or>
     only_story s s' \<and>
      map_option (\<lambda>r. (ov_story_title r, ov_story_body r)) (map_of (lot_story_overrides s') lot) =
        (if title = None \<and> body = None then None else Some (title, body)) \<and>
      (\<forall>l. l \<noteq> lot \<longrightarrow> map_of (lot_story_overrides s') l = map_of (lot_story_overrides s) l \<and>
           map_of (lot_story_projections s') l = map_of (lot_story_projections s) l) \<and>
      (\<exists>a. lot_story_override_audit s' = lot_story_override_audit s @ [a] \<and> oa_lot_business_id a = lot \<and>
           oa_story_title a = title \<and> oa_story_body a = body \<and>
           oa_previous_title a = Option.bind (map_of (lot_story_overrides s) lot) ov_story_title) \<and>
      (\<forall>m. map_of (lot_story_projections s') lot = Some m \<longrightarrow>
           as_str (mget m ''story_title'') = title \<and> as_str (mget m ''story_body'') = body))"
proof -
  have run: "fst (txC (override_body X lot p) s) = res" "snd (txC (override_body X lot p) s) = s'"
    using assms(1) by (simp_all add: SetStoryOverride_def)
  show ?thesis
  proof (cases rule: txC_effect [OF draws_override_body, of X lot p s, case_names none all])
    case (none e)
    with run show ?thesis by (auto simp: ticks_db)
  next
    case (all a s1)
    have tb: "title = patched (Option.bind (map_of (lot_story_overrides (step_io s)) lot) ov_story_title) (pt_StoryTitle p)"
      "body = patched (Option.bind (map_of (lot_story_overrides (step_io s)) lot) ov_story_body) (pt_StoryBody p)"
      by (simp_all add: assms(3,4))
    note b = override_body_Inr [OF all(1) tb, unfolded step_io_db]
    have "only_story s s1" by (rule only_story_trans [OF ticks_only_story [OF ticks_step_io] b(1)])
    moreover have "only_story s1 s'" using all(2) run(2) ticks_only_story [OF ticks_step_io] by simp
    ultimately have frame: "only_story s s'" by (rule only_story_trans)
    obtain r where r: "lot_story_overrides s1 = (if title = None \<and> body = None then AList.delete lot (lot_story_overrides s)
        else AList.update lot r (lot_story_overrides s))" "ov_story_title r = title" "ov_story_body r = body"
      using b(3) by blast
    have s': "s' = step_io s1" using all(2) run(2) by simp
    have "map_option (\<lambda>r. (ov_story_title r, ov_story_body r)) (map_of (lot_story_overrides s') lot) =
        (if title = None \<and> body = None then None else Some (title, body))"
      by (simp add: s' r AList.delete_conv' AList.update_conv')
    moreover have "map_of (lot_story_overrides s') l = map_of (lot_story_overrides s) l \<and>
        map_of (lot_story_projections s') l = map_of (lot_story_projections s) l" if "l \<noteq> lot" for l
      using that b(2) [of l] by (simp add: s' r AList.delete_conv' AList.update_conv')
    moreover have "as_str (mget m ''story_title'') = title \<and> as_str (mget m ''story_body'') = body"
      if "map_of (lot_story_projections s') lot = Some m" for m
      using that b(5) overlay_lookup by (auto simp: s' assms(2))
    ultimately show ?thesis using b(4) frame only_story_db [OF frame] by (simp add: s')
  qed
qed

definition sample_patch :: StoryOverridePatch where
  "sample_patch = \<lparr>pt_StoryTitle = Some [], pt_StoryBody = None, pt_UpdatedBy = ''amina'', pt_UpdatedByUserID = None\<rparr>"

theorem story_override_effect_witness:
  "\<exists>s'. SetStoryOverride sample_ext ''L-1'' sample_patch sample_qr = (Inr (), s') \<and>
     lot_qr_codes s' = lot_qr_codes sample_qr \<and> event_outbox s' = event_outbox sample_qr \<and>
     map_of (lot_story_overrides s') ''L-1'' = None \<and> only_story sample_qr s' \<and>
     length (lot_story_override_audit s') = length (lot_story_override_audit sample_qr) + 1"
proof -
  have ps: "patched None (Some []) = None" "patched None None = None"
    by (simp_all add: patched_def nonEmpty_def TrimSpace_def trim_left.simps trim_right.simps)
  have "fst (SetStoryOverride sample_ext ''L-1'' sample_patch sample_qr) = Inr ()"
    by (simp add: SetStoryOverride_def override_body_def txC_def Let_def sample_qr_def empty_db_def bindC_def handleC_def healthy
        write_override_sql_def audit_sql_def mirror_sql_def sample_patch_def ps overlay_def)
  then obtain s' where run: "SetStoryOverride sample_ext ''L-1'' sample_patch sample_qr = (Inr (), s')"
    by (metis prod.collapse)
  have "x_jsonb sample_ext (overlay t b) = overlay t b" for t b by (simp add: sample_ext_def)
  from story_override_effect [OF run this refl refl] run show ?thesis
    by (auto simp: sample_qr_def empty_db_def sample_patch_def ps)
qed

end
