(* ===== verification/EventBus.thy ===== *)
theory EventBus
  imports QrStore
begin

text \<open>
  The outgoing side of the event bus: the envelope and the producer of
  \<open>third_party/platform-go/events\<close>, the outbox row builders of \<open>internal/kafkabus/publisher.go\<close> and the
  relay of \<open>internal/kafkabus/relay.go\<close> that drains the outbox to Kafka.  The broker is a log of
  messages and a script of write outcomes, like the database.
\<close>

section \<open>Envelopes\<close>

record Envelope =
  env_ID :: string
  env_Type :: string
  env_Time :: string
  env_Source :: string
  env_SpecVersion :: string
  env_CorrelationID :: string
  env_CausationID :: string
  env_Data :: "gmap option"

definition SpecVersion :: string where
  "SpecVersion = ''1.0''"

text \<open>\<open>uuid.NewString\<close> draws from the id supply, \<open>time.Now\<close> reads the clock.\<close>

definition NewEnvelope :: "string \<Rightarrow> string \<Rightarrow> gmap \<Rightarrow> ('z db_scheme, Envelope) cmd" where
  "NewEnvelope source eventType data = (\<lambda>s. (Inr
     \<lparr>env_ID = uuid_string (fresh_id s), env_Type = eventType, env_Time = RFC3339Nano (now_us s),
      env_Source = source, env_SpecVersion = SpecVersion, env_CorrelationID = [], env_CausationID = [],
      env_Data = Some data\<rparr>, s\<lparr>fresh_id := Suc (fresh_id s)\<rparr>))"

text \<open>\<open>json.Marshal\<close> of the struct: fields in declaration order, the two optional ids omitted when empty.\<close>

definition json_field :: "string \<Rightarrow> string option \<Rightarrow> string option" where
  "json_field k v = map_option (\<lambda>t. json_string k @ '':'' @ t) v"

definition marshal_envelope :: "ext \<Rightarrow> Envelope \<Rightarrow> string option" where
  "marshal_envelope X e =
     (let str = (\<lambda>k v. json_field k (Some (json_string v)));
          opt = (\<lambda>k v. if v = [] then [] else [str k v])
      in map_option (\<lambda>ts. ''{'' @ join_with '','' ts @ ''}'')
        (all_some ([str ''id'' (env_ID e), str ''type'' (env_Type e), str ''time'' (env_Time e),
            str ''source'' (env_Source e), str ''specversion'' (env_SpecVersion e)] @
           opt ''correlationId'' (env_CorrelationID e) @ opt ''causationId'' (env_CausationID e) @
           [json_field ''data'' (json_marshal (x_fmt_float X)
              (case env_Data e of None \<Rightarrow> GNil | Some m \<Rightarrow> GMap m))])))"

section \<open>The broker and the producer\<close>

record kafka_msg =
  km_Topic :: string
  km_Key :: string
  km_Value :: string
  km_Headers :: "(string \<times> string) list"

record bus = db +
  kafka_script :: "io list"
  kafka_log :: "kafka_msg list"

text \<open>
  \<open>kafka.Writer.WriteMessages\<close> with \<open>RequireAll\<close>: the message is in the log when the write succeeds or
  when only its acknowledgement is lost.
\<close>

definition WriteMessages :: "kafka_msg \<Rightarrow> ('z bus_scheme, unit) cmd" where
  "WriteMessages m = (\<lambda>s.
     let out = (case kafka_script s of [] \<Rightarrow> IoOk | f # _ \<Rightarrow> f);
         s1 = s\<lparr>kafka_script := tl (kafka_script s)\<rparr>;
         s2 = s1\<lparr>kafka_log := kafka_log s @ [m]\<rparr>
     in case out of IoOk \<Rightarrow> (Inr (), s2) | IoErr \<Rightarrow> (Inl ErrContext, s1) | IoLost \<Rightarrow> (Inl ErrContext, s2))"

definition message_of :: "string \<Rightarrow> string \<Rightarrow> Envelope \<Rightarrow> string \<Rightarrow> kafka_msg" where
  "message_of topic key e body = \<lparr>km_Topic = topic, km_Key = key, km_Value = body,
     km_Headers = [(''ce-id'', env_ID e), (''ce-type'', env_Type e), (''ce-source'', env_Source e),
         (''ce-specversion'', env_SpecVersion e)] @
       (if env_CorrelationID e = [] then [] else [(''ce-correlationid'', env_CorrelationID e)]) @
       (if env_CausationID e = [] then [] else [(''ce-causationid'', env_CausationID e)])\<rparr>"

definition Publish :: "ext \<Rightarrow> string \<Rightarrow> string \<Rightarrow> Envelope \<Rightarrow> ('z bus_scheme, unit) cmd" where
  "Publish X topic key e =
     (case marshal_envelope X e of
        None \<Rightarrow> failC (ErrWrap ''events: marshal envelope'' (ErrMsg ''json: unsupported value''))
      | Some body \<Rightarrow> WriteMessages (message_of topic key e body))"

section \<open>The publisher and the row builders\<close>

text \<open>A \<open>Publisher\<close> with or without a producer.\<close>

record Publisher =
  pb_producer :: bool

definition NewPublisher :: "string list \<Rightarrow> Publisher" where
  "NewPublisher brokers =
     (if length brokers = 0 \<or> length brokers = 1 \<and> brokers ! 0 = [] then \<lparr>pb_producer = False\<rparr>
      else \<lparr>pb_producer = True\<rparr>)"

definition Enabled :: "Publisher \<Rightarrow> bool" where
  "Enabled p = pb_producer p"

definition PublishEnvelope ::
  "ext \<Rightarrow> Publisher \<Rightarrow> string \<Rightarrow> string \<Rightarrow> Envelope \<Rightarrow> ('z bus_scheme, unit) cmd" where
  "PublishEnvelope X p topic key e = (if \<not> Enabled p then retC () else Publish X topic key e)"

definition bus_Topic :: string where
  "bus_Topic = ''iag.supply-chain''"

definition bus_Source :: string where
  "bus_Source = ''iag.traceability''"

text \<open>An error of \<open>json.Marshal\<close> is dropped and leaves the payload nil.\<close>

definition outboxRow :: "ext \<Rightarrow> Envelope \<Rightarrow> string \<Rightarrow> OutboxRow" where
  "outboxRow X e key = \<lparr>ox_EventID = env_ID e, ox_Topic = bus_Topic, ox_Key = key, ox_Subject = env_Type e,
     ox_Payload = (case marshal_envelope X e of None \<Rightarrow> [] | Some b \<Rightarrow> b)\<rparr>"

definition LotQRPublishedRow :: "ext \<Rightarrow> string \<Rightarrow> string \<Rightarrow> string \<Rightarrow> ('z db_scheme, OutboxRow) cmd" where
  "LotQRPublishedRow X lot token publicURL =
     bindC (NewEnvelope bus_Source ''scm.lot.qr_published''
        [(''lot_business_id'', GStr lot), (''public_token'', GStr token), (''public_url'', GStr publicURL)])
       (\<lambda>e. retC (outboxRow X e lot))"

definition LotQRRevokedRow :: "ext \<Rightarrow> string \<Rightarrow> string \<Rightarrow> ('z db_scheme, OutboxRow) cmd" where
  "LotQRRevokedRow X lot token =
     bindC (NewEnvelope bus_Source ''scm.lot.qr_revoked''
        [(''lot_business_id'', GStr lot), (''public_token'', GStr token)])
       (\<lambda>e. retC (outboxRow X e lot))"

definition LotStoryUpdatedRow :: "ext \<Rightarrow> string \<Rightarrow> ('z db_scheme, OutboxRow) cmd" where
  "LotStoryUpdatedRow X lot =
     bindC (NewEnvelope bus_Source ''scm.lot.story_updated'' [(''lot_business_id'', GStr lot)])
       (\<lambda>e. retC (outboxRow X e lot))"

definition EmitLotStoryUpdated :: "ext \<Rightarrow> string \<Rightarrow> ('z db_scheme, unit) cmd" where
  "EmitLotStoryUpdated X lot = bindC (LotStoryUpdatedRow X lot) EnqueueOutbox"

section \<open>The relay\<close>

text \<open>
  \<open>dec\<close> is reading a stored payload back: the JSONB column, then \<open>json.Unmarshal\<close> into an envelope
  (\<open>None\<close> its error).  \<open>ended i\<close> says whether the context has ended when row \<open>i\<close> of the pass is reached.
\<close>

record Relay =
  rl_pub :: Publisher
  rl_batch :: int

definition NewRelay :: "Publisher \<Rightarrow> Relay" where
  "NewRelay p = \<lparr>rl_pub = p, rl_batch = 100\<rparr>"

fun drain_loop :: "ext \<Rightarrow> (string \<Rightarrow> Envelope option) \<Rightarrow> Relay \<Rightarrow> (nat \<Rightarrow> bool) \<Rightarrow> nat \<Rightarrow>
    outbox_row list \<Rightarrow> ('z bus_scheme, unit) cmd" where
  "drain_loop X dec r ended i [] = retC ()"
| "drain_loop X dec r ended i (row # rows) =
     (if ended i then retC ()
      else case dec (ob_payload row) of
        None \<Rightarrow> bindC (ignoreC (MarkOutboxPublished (ob_id row)))
                 (\<lambda>_. drain_loop X dec r ended (Suc i) rows)
      | Some e \<Rightarrow>
          handleC (PublishEnvelope X (rl_pub r) (ob_topic row) (ob_partition_key row) e)
            (\<lambda>err. ignoreC (MarkOutboxFailed (ob_id row) (err_text err)))
            (\<lambda>_. handleC (MarkOutboxPublished (ob_id row)) (\<lambda>_. retC ())
                   (\<lambda>_. drain_loop X dec r ended (Suc i) rows)))"

definition drain :: "ext \<Rightarrow> (string \<Rightarrow> Envelope option) \<Rightarrow> Relay \<Rightarrow> (nat \<Rightarrow> bool) \<Rightarrow> ('z bus_scheme, unit) cmd" where
  "drain X dec r ended =
     handleC (FetchUnpublishedOutbox (rl_batch r)) (\<lambda>_. retC ())
       (\<lambda>rows. drain_loop X dec r ended 0 rows)"

text \<open>
  \<open>Run\<close> until the context ends: one pass at the start and one per tick, each with its own \<open>ended\<close>.
\<close>

fun relay_ticks :: "ext \<Rightarrow> (string \<Rightarrow> Envelope option) \<Rightarrow> Relay \<Rightarrow> (nat \<Rightarrow> bool) list \<Rightarrow> ('z bus_scheme, unit) cmd" where
  "relay_ticks X dec r [] = retC ()"
| "relay_ticks X dec r (ended # passes) = bindC (drain X dec r ended) (\<lambda>_. relay_ticks X dec r passes)"

definition Relay_Run :: "ext \<Rightarrow> (string \<Rightarrow> Envelope option) \<Rightarrow> Relay \<Rightarrow> (nat \<Rightarrow> bool) \<Rightarrow> (nat \<Rightarrow> bool) list \<Rightarrow>
    ('z bus_scheme, unit) cmd" where
  "Relay_Run X dec r first passes = bindC (drain X dec r first) (\<lambda>_. relay_ticks X dec r passes)"

section \<open>Lemmas\<close>

definition outbox_ids_ok :: "'z db_scheme \<Rightarrow> bool" where
  "outbox_ids_ok s \<longleftrightarrow> distinct (map ob_id (event_outbox s))"

definition published_ids :: "'z db_scheme \<Rightarrow> nat set" where
  "published_ids s = ob_id ` {r \<in> set (event_outbox s). ob_published_at r \<noteq> None}"

text \<open>What a pass sends for a list of rows, in order; a row that cannot be decoded is not sent.\<close>

definition row_message :: "ext \<Rightarrow> (string \<Rightarrow> Envelope option) \<Rightarrow> outbox_row \<Rightarrow> kafka_msg option" where
  "row_message X dec row =
     (case dec (ob_payload row) of None \<Rightarrow> None
      | Some e \<Rightarrow> map_option (message_of (ob_topic row) (ob_partition_key row) e) (marshal_envelope X e))"

definition messages :: "ext \<Rightarrow> (string \<Rightarrow> Envelope option) \<Rightarrow> outbox_row list \<Rightarrow> kafka_msg list" where
  "messages X dec rows = List.map_filter (row_message X dec) rows"

text \<open>The part of a row the relay never changes.\<close>

definition row_event :: "outbox_row \<Rightarrow> outbox_row" where
  "row_event r = r\<lparr>ob_published_at := None, ob_attempts := 0, ob_last_error := []\<rparr>"

lemma row_event_simps [simp]:
  "row_event (r\<lparr>ob_published_at := a\<rparr>) = row_event r"
  "row_event (r\<lparr>ob_attempts := n, ob_last_error := e\<rparr>) = row_event r"
  by (simp_all add: row_event_def)

lemma row_event_id: "row_event a = row_event b \<Longrightarrow> ob_id a = ob_id b"
  by (cases a, cases b) (simp add: row_event_def)

text \<open>
  \<open>marked A s s'\<close>: from \<open>s\<close> to \<open>s'\<close> the outbox keeps its events and order, and the rows that
  became published have their ids in \<open>A\<close>.
\<close>

definition marked :: "nat set \<Rightarrow> 'z db_scheme \<Rightarrow> 'z db_scheme \<Rightarrow> bool" where
  "marked A s s' \<longleftrightarrow> map row_event (event_outbox s') = map row_event (event_outbox s) \<and>
     published_ids s \<subseteq> published_ids s' \<and> published_ids s' \<subseteq> published_ids s \<union> A"

lemma marked_refl: "event_outbox s' = event_outbox s \<Longrightarrow> marked A s s'"
  by (simp add: marked_def published_ids_def)

lemma marked_trans: "marked A s t \<Longrightarrow> marked B t u \<Longrightarrow> A \<subseteq> C \<Longrightarrow> B \<subseteq> C \<Longrightarrow> marked C s u"
  unfolding marked_def by (simp, blast)

lemma marked_ids: "marked A s s' \<Longrightarrow> map ob_id (event_outbox s') = map ob_id (event_outbox s)"
  unfolding marked_def by (auto simp: map_equality_iff intro: row_event_id)

lemma update_outbox_events:
  assumes "\<And>r. row_event (f r) = row_event r"
  shows "map row_event (event_outbox (update_outbox i f s)) = map row_event (event_outbox s)"
  using assms by (simp add: update_outbox_def)

lemma published_update:
  "published_ids (update_outbox i (\<lambda>r. r\<lparr>ob_published_at := Some t\<rparr>) s) =
     published_ids s \<union> ({i} \<inter> ob_id ` set (event_outbox s))"
  "published_ids (update_outbox i (\<lambda>r. r\<lparr>ob_attempts := g r, ob_last_error := m\<rparr>) s) = published_ids s"
  using update_where(1) [of ob_id "\<lambda>r. r\<lparr>ob_published_at := Some t\<rparr>" "\<lambda>r. ob_published_at r \<noteq> None" i "event_outbox s"]
    update_where(2) [of ob_id "\<lambda>r. r\<lparr>ob_attempts := g r, ob_last_error := m\<rparr>" "\<lambda>r. ob_published_at r \<noteq> None" i "event_outbox s"]
  by (simp_all add: published_ids_def update_outbox_def)

lemma marked_published:
  "marked {i} s (update_outbox i (\<lambda>r. r\<lparr>ob_published_at := Some t\<rparr>) s)"
  unfolding marked_def by (simp add: update_outbox_events published_update, blast)

lemma marked_failed:
  "marked {} s (update_outbox i (\<lambda>r. r\<lparr>ob_attempts := g r, ob_last_error := m\<rparr>) s)"
  unfolding marked_def by (simp add: update_outbox_events published_update)

lemma bus_frame [simp]:
  "kafka_log (step_io s) = kafka_log s" "kafka_script (step_io s) = kafka_script s"
  "kafka_log (update_outbox i f s) = kafka_log s" "kafka_script (update_outbox i f s) = kafka_script s"
  "script (update_outbox i f s) = script s"
  by (simp_all add: step_io_def update_outbox_def split: list.split)

lemma marked_step_io [simp]: "marked A (step_io s) t \<longleftrightarrow> marked A s t"
  by (simp add: marked_def published_ids_def)

lemma MarkOutboxPublished_effect:
  assumes "MarkOutboxPublished i s = (res, s')"
  shows "kafka_log s' = kafka_log s" and "marked {i} s s'"
    and "res = Inr () \<Longrightarrow> i \<in> ob_id ` set (event_outbox s) \<Longrightarrow> i \<in> published_ids s'"
  using assms marked_published [of i "step_io s" "now_us (step_io s)"]
  by (auto simp: MarkOutboxPublished_def execC_def Let_def published_update marked_refl split: io.splits)

lemma MarkOutboxFailed_effect:
  assumes "MarkOutboxFailed i m s = (res, s')"
  shows "kafka_log s' = kafka_log s" and "marked {} s s'"
  using assms marked_failed [of "step_io s" i]
  by (auto simp: MarkOutboxFailed_def execC_def Let_def marked_refl split: io.splits if_splits)

lemma ignoreC_snd: "snd (ignoreC m s) = snd (m s)" "fst (ignoreC m s) = Inr ()"
  by (auto simp: ignoreC_def handleC_def retC_def split: prod.split sum.split)

text \<open>A publish of a decoded row: an answer says the message is in the log; an error leaves that open.\<close>

lemma PublishEnvelope_effect:
  assumes "Enabled p" and "dec (ob_payload row) = Some e"
    and "PublishEnvelope X p (ob_topic row) (ob_partition_key row) e s = (res, s')"
  shows "event_outbox s' = event_outbox s"
    and "kafka_log s' = kafka_log s @ messages X dec [row] \<or> res \<noteq> Inr () \<and> kafka_log s' = kafka_log s"
    and "res = Inr () \<Longrightarrow> row_message X dec row \<noteq> None"
  using assms
  by (auto simp: PublishEnvelope_def Publish_def WriteMessages_def Let_def messages_def row_message_def
      List.map_filter_simps failC_def split: option.splits io.splits)

lemma messages_simps [simp]:
  "messages X dec [] = []" "messages X dec (rows @ rows') = messages X dec rows @ messages X dec rows'"
  "dec (ob_payload row) = None \<Longrightarrow> messages X dec (row # rows) = messages X dec rows"
  by (simp_all add: messages_def row_message_def List.map_filter_def)

lemma messages_Cons: "messages X dec (row # rows) = messages X dec [row] @ messages X dec rows"
  using messages_simps(2) [of X dec "[row]" rows] by simp

definition pass_effect :: "ext \<Rightarrow> (string \<Rightarrow> Envelope option) \<Rightarrow> outbox_row list \<Rightarrow>
    'z bus_scheme \<Rightarrow> 'z bus_scheme \<Rightarrow> nat \<Rightarrow> bool" where
  "pass_effect X dec rows s s' k \<longleftrightarrow> k \<le> length rows \<and>
     kafka_log s' = kafka_log s @ messages X dec (take k rows) \<and>
     marked (ob_id ` set (take k rows)) s s' \<and>
     (\<forall>j. Suc j < k \<longrightarrow> dec (ob_payload (rows ! j)) \<noteq> None \<longrightarrow> ob_id (rows ! j) \<in> published_ids s')"

lemma pass_effect_Cons:
  assumes "marked {ob_id row} s t" and "kafka_log t = kafka_log s @ messages X dec [row]"
    and "dec (ob_payload row) \<noteq> None \<longrightarrow> ob_id row \<in> published_ids t" and "pass_effect X dec rows t s' k"
  shows "pass_effect X dec (row # rows) s s' (Suc k)"
  unfolding pass_effect_def
proof (intro conjI allI impI)
  note p = assms(4) [unfolded pass_effect_def]
  show "Suc k \<le> length (row # rows)" using p by simp
  show "kafka_log s' = kafka_log s @ messages X dec (take (Suc k) (row # rows))"
    using p assms(2) messages_Cons [of X dec row "take k rows"] by simp
  show "marked (ob_id ` set (take (Suc k) (row # rows))) s s'"
    using p by (intro marked_trans [OF assms(1), of "ob_id ` set (take k rows)"]) auto
  fix j assume j: "Suc j < Suc k" "dec (ob_payload ((row # rows) ! j)) \<noteq> None"
  show "ob_id ((row # rows) ! j) \<in> published_ids s'"
  proof (cases j)
    case 0
    with j assms(3) p show ?thesis by (auto simp: marked_def)
  next
    case (Suc n)
    with j p show ?thesis by simp
  qed
qed

lemma pass_effect_stop:
  assumes "event_outbox s' = event_outbox s" "kafka_log s' = kafka_log s"
  shows "pass_effect X dec rows s s' 0"
  using assms by (simp add: pass_effect_def marked_refl)

text \<open>The rows after one: either the pass stops at a row or it goes on with the row sent or dropped.\<close>

lemma drain_loop_step:
  assumes "Enabled (rl_pub r)" and "ob_id row \<in> ob_id ` set (event_outbox s)"
    and "drain_loop X dec r ended i (row # rows) s = (res, s')"
  obtains (stop) k where "pass_effect X dec (row # rows) s s' k"
  | (go) t where "marked {ob_id row} s t" "kafka_log t = kafka_log s @ messages X dec [row]"
      "dec (ob_payload row) \<noteq> None \<longrightarrow> ob_id row \<in> published_ids t"
      "drain_loop X dec r ended (Suc i) rows t = (res, s')"
proof (cases "ended i \<or> dec (ob_payload row) = None")
  case True
  show thesis
  proof (cases "ended i")
    case True
    with assms(3) show ?thesis by (intro stop [of 0]) (simp add: pass_effect_stop retC_def)
  next
    case False
    obtain m t where m: "MarkOutboxPublished (ob_id row) s = (m, t)" by (cases "MarkOutboxPublished (ob_id row) s")
    have "snd (ignoreC (MarkOutboxPublished (ob_id row)) s) = t" "fst (ignoreC (MarkOutboxPublished (ob_id row)) s) = Inr ()"
      using m by (simp_all add: ignoreC_snd)
    with assms(3) False True have "drain_loop X dec r ended (Suc i) rows t = (res, s')"
      by (auto simp: bindC_def handleC_def split: prod.splits sum.splits)
    with MarkOutboxPublished_effect [OF m] False True show ?thesis by (intro go [of t]) simp_all
  qed
next
  case False
  then obtain e where e: "dec (ob_payload row) = Some e" "\<not> ended i" by blast
  obtain a t where pub: "PublishEnvelope X (rl_pub r) (ob_topic row) (ob_partition_key row) e s = (a, t)"
    by (cases "PublishEnvelope X (rl_pub r) (ob_topic row) (ob_partition_key row) e s")
  note p = PublishEnvelope_effect [of "rl_pub r" dec row e, OF assms(1) e(1) pub]
  show thesis
  proof (cases a)
    case (Inl err)
    obtain b u where "MarkOutboxFailed (ob_id row) (err_text err) t = (b, u)"
      by (cases "MarkOutboxFailed (ob_id row) (err_text err) t")
    note f = MarkOutboxFailed_effect [OF this] this
    have "s' = u" using assms(3) e pub Inl f(3) ignoreC_snd [of "MarkOutboxFailed (ob_id row) (err_text err)" t]
      by (auto simp: handleC_def)
    with f p(1,2) have "pass_effect X dec (row # rows) s s' 0 \<or> pass_effect X dec (row # rows) s s' 1"
      by (auto simp: pass_effect_def marked_def published_ids_def)
    with stop show ?thesis by blast
  next
    case (Inr x)
    obtain b u where m: "MarkOutboxPublished (ob_id row) t = (b, u)" by (cases "MarkOutboxPublished (ob_id row) t")
    note f = MarkOutboxPublished_effect [OF m]
    have log: "kafka_log u = kafka_log s @ messages X dec [row]" using p(2) f(1) Inr by simp
    have mk: "marked {ob_id row} s u" using f(2) p(1) by (simp add: marked_def published_ids_def)
    show ?thesis
    proof (cases b)
      case (Inl err)
      with assms(3) e pub Inr m have "s' = u" by (simp add: handleC_def retC_def)
      with log mk have "pass_effect X dec (row # rows) s s' 1" by (simp add: pass_effect_def)
      with stop show ?thesis by blast
    next
      case (Inr y)
      with assms(3) e pub \<open>a = Inr x\<close> m have "drain_loop X dec r ended (Suc i) rows u = (res, s')"
        by (simp add: handleC_def)
      with log mk f(3) Inr assms(2) p(1) show ?thesis by (intro go [of u]) simp_all
    qed
  qed
qed

lemma drain_loop_effect:
  assumes "Enabled (rl_pub r)" and "ob_id ` set rows \<subseteq> ob_id ` set (event_outbox s)"
    and "drain_loop X dec r ended i rows s = (res, s')"
  shows "\<exists>k. pass_effect X dec rows s s' k"
  using assms(2,3)
proof (induction rows arbitrary: i s)
  case Nil
  then show ?case by (intro exI [of _ 0]) (simp add: pass_effect_stop retC_def)
next
  case (Cons row rows)
  from Cons.prems(1) have "ob_id row \<in> ob_id ` set (event_outbox s)" by simp
  from assms(1) this Cons.prems(2) show ?case
  proof (cases rule: drain_loop_step)
    case (go t)
    have "ob_id ` set rows \<subseteq> ob_id ` set (event_outbox t)"
      using Cons.prems(1) marked_ids [OF go(1)] by (metis image_set insert_subset list.simps(15) image_insert)
    with go(4) Cons.IH obtain k where "pass_effect X dec rows t s' k" by blast
    with go(1-3) have "pass_effect X dec (row # rows) s s' (Suc k)" by (intro pass_effect_Cons)
    then show ?thesis ..
  qed blast
qed

text \<open>Marking the head of the queue delivered pops it.\<close>

lemma pending_pop:
  assumes "outbox_ids_ok s" and "pending_outbox s = row # rows"
  shows "pending_outbox (update_outbox (ob_id row) (\<lambda>r. r\<lparr>ob_published_at := Some t\<rparr>) s) = rows"
    and "outbox_ids_ok (update_outbox i (\<lambda>r. r\<lparr>ob_published_at := Some t\<rparr>) s)"
proof -
  let ?u = "\<lambda>r. if ob_id r = ob_id row then r\<lparr>ob_published_at := Some t\<rparr> else r"
  have pop: "filter (\<lambda>r. ob_published_at r = None) (map ?u xs) =
      filter (\<lambda>r. ob_id r \<noteq> ob_id row) (filter (\<lambda>r. ob_published_at r = None) xs)" for xs
    by (induction xs) auto
  have "pending_outbox (update_outbox (ob_id row) (\<lambda>r. r\<lparr>ob_published_at := Some t\<rparr>) s) =
      filter (\<lambda>r. ob_id r \<noteq> ob_id row) (pending_outbox s)"
    by (simp add: pending_outbox_def update_outbox_def filter_sort pop)
  moreover have "distinct (map ob_id (pending_outbox s))"
    using assms(1) unfolding outbox_ids_ok_def pending_outbox_def
    by (auto simp: distinct_map intro: inj_on_subset)
  ultimately show "pending_outbox (update_outbox (ob_id row) (\<lambda>r. r\<lparr>ob_published_at := Some t\<rparr>) s) = rows"
    using assms(2) by (auto intro!: filter_True) (metis imageI)
  have "ob_id \<circ> (\<lambda>r :: outbox_row. if ob_id r = i then r\<lparr>ob_published_at := Some t\<rparr> else r) = ob_id"
    by (simp add: fun_eq_iff)
  with assms(1) show "outbox_ids_ok (update_outbox i (\<lambda>r. r\<lparr>ob_published_at := Some t\<rparr>) s)"
    by (simp add: outbox_ids_ok_def update_outbox_def)
qed

text \<open>Nothing fails: no scripted failure, the context lives, and what decodes can be encoded again.\<close>

definition bus_healthy :: "'z bus_scheme \<Rightarrow> bool" where
  "bus_healthy s \<longleftrightarrow> script s = [] \<and> kafka_script s = [] \<and> outbox_ids_ok s"

definition re_encodes :: "ext \<Rightarrow> (string \<Rightarrow> Envelope option) \<Rightarrow> bool" where
  "re_encodes X dec \<longleftrightarrow> (\<forall>p e. dec p = Some e \<longrightarrow> marshal_envelope X e \<noteq> None)"

lemma drain_loop_healthy:
  assumes "Enabled (rl_pub r)" and "re_encodes X dec" and "\<And>j. \<not> ended j"
    and "bus_healthy s" and "pending_outbox s = rows @ rest"
  shows "\<exists>s'. drain_loop X dec r ended i rows s = (Inr (), s') \<and> bus_healthy s' \<and>
    pending_outbox s' = rest \<and> kafka_log s' = kafka_log s @ messages X dec rows"
  using assms(4,5)
proof (induction rows arbitrary: i s)
  case Nil
  then show ?case by (simp add: retC_def)
next
  case (Cons row rows)
  define t where "t = (case dec (ob_payload row) of None \<Rightarrow> s
    | Some e \<Rightarrow> s\<lparr>kafka_log := kafka_log s @ messages X dec [row]\<rparr>)"
  let ?u = "update_outbox (ob_id row) (\<lambda>r. r\<lparr>ob_published_at := Some (now_us t)\<rparr>) t"
  have t: "bus_healthy t" "pending_outbox t = row # (rows @ rest)" "kafka_log t = kafka_log s @ messages X dec [row]"
    using Cons.prems by (auto simp: t_def bus_healthy_def outbox_ids_ok_def pending_outbox_def split: option.splits)
  have u: "bus_healthy ?u" "pending_outbox ?u = rows @ rest"
    using t pending_pop [where s = t and row = row and rows = "rows @ rest" and t = "now_us t"] by (simp_all add: bus_healthy_def)
  have mark: "MarkOutboxPublished (ob_id row) t = (Inr (), ?u)"
    using t(1) by (simp add: MarkOutboxPublished_def healthy_execC bus_healthy_def)
  have pub: "PublishEnvelope X (rl_pub r) (ob_topic row) (ob_partition_key row) e s = (Inr (), t)"
    if "dec (ob_payload row) = Some e" for e
  proof -
    from that assms(2) obtain b where "marshal_envelope X e = Some b" by (auto simp: re_encodes_def)
    with that assms(1) Cons.prems(1) show ?thesis
      by (simp add: PublishEnvelope_def Publish_def WriteMessages_def bus_healthy_def t_def
          messages_def row_message_def List.map_filter_simps)
  qed
  have "drain_loop X dec r ended i (row # rows) s = drain_loop X dec r ended (Suc i) rows ?u"
    using assms(3) mark pub
    by (cases "dec (ob_payload row)") (simp_all add: bindC_def handleC_def ignoreC_def retC_def t_def)
  moreover from Cons.IH [OF u] obtain s' where "drain_loop X dec r ended (Suc i) rows ?u = (Inr (), s')"
    "bus_healthy s'" "pending_outbox s' = rest" "kafka_log s' = kafka_log ?u @ messages X dec rows" by blast
  ultimately show ?case using t(3) messages_Cons [of X dec row rows] by auto
qed

lemma drain_healthy:
  assumes "Enabled (rl_pub r)" and "re_encodes X dec" and "\<And>j. \<not> ended j" and "bus_healthy s"
    and "rl_batch r = 100"
  shows "\<exists>s'. drain X dec r ended s = (Inr (), s') \<and> bus_healthy s' \<and>
    pending_outbox s' = drop 100 (pending_outbox s) \<and>
    kafka_log s' = kafka_log s @ messages X dec (take 100 (pending_outbox s))"
proof -
  have "drain X dec r ended s = drain_loop X dec r ended 0 (take 100 (pending_outbox s)) s"
    using assms(4,5)
    by (simp add: drain_def handleC_def FetchUnpublishedOutbox_def healthy_queryC bus_healthy_def clamp_limit_def)
  then show ?thesis
    using drain_loop_healthy [of r X dec ended s "take 100 (pending_outbox s)" "drop 100 (pending_outbox s)" 0] assms by simp
qed

section \<open>Properties\<close>

text \<open>
  C32. Delivery is in order and at least once, whatever the database and the broker do in a pass of the
  relay: the messages the pass sends are those of the first \<open>k\<close> pending rows, in order; a row becomes
  published only if it is one of these, so it was sent or cannot be decoded at all; of the rows sent,
  all but the last are marked, so at most one message will be sent again; and the events in the
  outbox are not touched.
\<close>

theorem relay_at_least_once:
  assumes "Enabled (rl_pub r)" and "drain X dec r ended s = (res, s')"
  shows "\<exists>k. kafka_log s' = kafka_log s @ messages X dec (take k (pending_outbox s)) \<and>
    published_ids s \<subseteq> published_ids s' \<and>
    published_ids s' \<subseteq> published_ids s \<union> ob_id ` set (take k (pending_outbox s)) \<and>
    k \<le> length (pending_outbox s) \<and>
    (\<forall>j. Suc j < k \<longrightarrow> dec (ob_payload (pending_outbox s ! j)) \<noteq> None \<longrightarrow>
       ob_id (pending_outbox s ! j) \<in> published_ids s') \<and>
    map row_event (event_outbox s') = map row_event (event_outbox s)"
proof (cases "next_io s = IoOk")
  case False
  with assms(2) have "s' = step_io s"
    by (auto simp: drain_def handleC_def FetchUnpublishedOutbox_def queryC_def retC_def)
  then show ?thesis by (intro exI [of _ 0]) (simp add: published_ids_def)
next
  case True
  let ?rows = "take (nat (clamp_limit 500 100 (rl_batch r))) (pending_outbox s)"
  have p: "pending_outbox (step_io s) = pending_outbox s" by (simp add: pending_outbox_def)
  with True assms(2) have run: "drain_loop X dec r ended 0 ?rows (step_io s) = (res, s')"
    by (simp add: drain_def handleC_def FetchUnpublishedOutbox_def queryC_def)
  have "ob_id ` set ?rows \<subseteq> ob_id ` set (event_outbox (step_io s))"
    by (auto simp: pending_outbox_def dest: in_set_takeD)
  from drain_loop_effect [OF assms(1) this run] obtain k where k: "pass_effect X dec ?rows (step_io s) s' k" ..
  then have "k \<le> length ?rows" by (simp add: pass_effect_def)
  then have kn: "k \<le> nat (clamp_limit 500 100 (rl_batch r))" "k \<le> length (pending_outbox s)" by simp_all
  then have "take k ?rows = take k (pending_outbox s)" "\<And>j. Suc j < k \<Longrightarrow> ?rows ! j = pending_outbox s ! j"
    by (simp_all add: min_def)
  with k kn show ?thesis by (intro exI [of _ k]) (simp add: pass_effect_def marked_def published_ids_def)
qed

text \<open>
  C33. With nothing failing the relay gets everything out: a start and \<open>n\<close> ticks deliver the first
  \<open>100 (n + 1)\<close> pending events in order and leave exactly the rest pending, so the queue is empty
  after finitely many ticks.
\<close>

theorem relay_drains:
  assumes "Enabled p" and "re_encodes X dec" and "bus_healthy s"
  shows "\<exists>s'. Relay_Run X dec (NewRelay p) (\<lambda>_. False) (replicate n (\<lambda>_. False)) s = (Inr (), s') \<and>
    pending_outbox s' = drop (100 * Suc n) (pending_outbox s) \<and>
    kafka_log s' = kafka_log s @ messages X dec (take (100 * Suc n) (pending_outbox s))"
proof -
  have tick: "\<exists>s'. relay_ticks X dec (NewRelay p) (replicate m (\<lambda>_. False)) s = (Inr (), s') \<and>
    pending_outbox s' = drop (100 * m) (pending_outbox s) \<and>
    kafka_log s' = kafka_log s @ messages X dec (take (100 * m) (pending_outbox s))"
    if "bus_healthy s" for m s
    using that
  proof (induction m arbitrary: s)
    case 0
    then show ?case by (simp add: retC_def)
  next
    case (Suc m)
    from drain_healthy [of "NewRelay p" X dec "\<lambda>_. False" s] assms(1,2) Suc.prems obtain t where
      t: "drain X dec (NewRelay p) (\<lambda>_. False) s = (Inr (), t)" "bus_healthy t"
        "pending_outbox t = drop 100 (pending_outbox s)"
        "kafka_log t = kafka_log s @ messages X dec (take 100 (pending_outbox s))"
      by (auto simp: NewRelay_def)
    from Suc.IH [OF t(2)] obtain s' where "relay_ticks X dec (NewRelay p) (replicate m (\<lambda>_. False)) t = (Inr (), s')"
      "pending_outbox s' = drop (100 * m) (pending_outbox t)"
      "kafka_log s' = kafka_log t @ messages X dec (take (100 * m) (pending_outbox t))" by blast
    with t show ?case
      by (auto simp: bindC_def handleC_def add.commute take_add)
  qed
  from tick [OF assms(3), of "Suc n"] show ?thesis by (simp add: Relay_Run_def)
qed

definition sample_envelope :: Envelope where
  "sample_envelope = \<lparr>env_ID = ''e1'', env_Type = ''scm.lot.story_updated'', env_Time = ''2024-01-01T00:00:00Z'',
     env_Source = bus_Source, env_SpecVersion = SpecVersion, env_CorrelationID = [], env_CausationID = [],
     env_Data = Some []\<rparr>"

definition sample_dec :: "string \<Rightarrow> Envelope option" where
  "sample_dec p = (if p = ''{}'' then Some sample_envelope else None)"

definition sample_bus :: bus where
  "sample_bus = db.extend ((empty_db [] 100)\<lparr>event_outbox := [outbox_entry 1 sample_outbox], fresh_id := 2\<rparr>)
     \<lparr>kafka_script = [], kafka_log = []\<rparr>"

lemma sample_bus_ok:
  "bus_healthy sample_bus" "re_encodes sample_ext sample_dec" "Enabled (NewPublisher [''kafka:9092''])"
  "pending_outbox sample_bus = [outbox_entry 1 sample_outbox]" "kafka_log sample_bus = []"
  by (simp_all add: bus_healthy_def sample_bus_def db.defs empty_db_def outbox_ids_ok_def re_encodes_def
      sample_dec_def marshal_envelope_def sample_envelope_def json_field_def Let_def json_object_def
      sort_by_key_def Enabled_def NewPublisher_def pending_outbox_def outbox_entry_def)

lemma sample_messages:
  "length (messages sample_ext sample_dec [outbox_entry 1 sample_outbox]) = 1"
  by (simp add: messages_def List.map_filter_simps row_message_def sample_dec_def outbox_entry_def sample_outbox_def
      marshal_envelope_def sample_envelope_def json_field_def Let_def json_object_def sort_by_key_def)

theorem relay_drains_witness:
  "\<exists>s'. Relay_Run sample_ext sample_dec (NewRelay (NewPublisher [''kafka:9092''])) (\<lambda>_. False) [] sample_bus = (Inr (), s') \<and>
     pending_outbox s' = [] \<and> length (kafka_log s') = 1"
  using relay_drains [OF sample_bus_ok(3,2,1), of 0] sample_messages by (auto simp: sample_bus_ok)

theorem relay_at_least_once_witness:
  "\<exists>res s' k. drain sample_ext sample_dec (NewRelay (NewPublisher [''kafka:9092''])) (\<lambda>_. False)
       (sample_bus\<lparr>kafka_script := [IoLost]\<rparr>) = (res, s') \<and>
     kafka_log s' = messages sample_ext sample_dec (take k [outbox_entry 1 sample_outbox]) \<and>
     published_ids s' \<subseteq> ob_id ` set (take k [outbox_entry 1 sample_outbox])"
proof -
  let ?s = "sample_bus\<lparr>kafka_script := [IoLost]\<rparr>"
  obtain res s' where run: "drain sample_ext sample_dec (NewRelay (NewPublisher [''kafka:9092''])) (\<lambda>_. False) ?s = (res, s')"
    by (meson surj_pair)
  have "Enabled (rl_pub (NewRelay (NewPublisher [''kafka:9092''])))" using sample_bus_ok(3) by (simp add: NewRelay_def)
  from relay_at_least_once [OF this run] obtain k where
    "kafka_log s' = kafka_log ?s @ messages sample_ext sample_dec (take k (pending_outbox ?s))"
    "published_ids s' \<subseteq> published_ids ?s \<union> ob_id ` set (take k (pending_outbox ?s))" by blast
  moreover have "pending_outbox ?s = [outbox_entry 1 sample_outbox]" "kafka_log ?s = []" "published_ids ?s = {}"
    using sample_bus_ok(4,5) by (simp_all add: pending_outbox_def published_ids_def sample_bus_def db.defs outbox_entry_def)
  ultimately show ?thesis using run by auto
qed

end
