(* ===== verification/ScmClient.thy ===== *)
theory ScmClient
  imports Schema
begin

text \<open>
  \<open>internal/scmclient/client.go\<close>: the HTTP client that reads lot snapshots and the publish gate of
  the supply-chain service.  The network is an argument: whether a bearer token was obtained, and what
  a \<open>GET\<close> of a URL answers (an error of the transport, or a response with its body as text and, when it
  parses, as a JSON value).
\<close>

section \<open>Responses\<close>

record http_resp =
  hr_StatusCode :: int
  hr_Status :: string
  hr_Body :: string
  hr_Json :: "gval option"

record scm_net =
  sn_authorize :: "err + unit"
  sn_get :: "string \<Rightarrow> err + http_resp"

text \<open>
  Decoding into a struct: keys match field names without regard to case, the last one counts, null
  leaves the zero value, another type is an error.
\<close>

definition struct_get :: "gmap \<Rightarrow> string \<Rightarrow> gval option" where
  "struct_get m name = (case filter (\<lambda>(k, v). EqualFold k name \<and> v \<noteq> GNil) m of [] \<Rightarrow> None | xs \<Rightarrow> Some (snd (last xs)))"

definition type_error :: err where
  "type_error = ErrMsg ''json: cannot unmarshal''"

fun dec_str :: "gval option \<Rightarrow> err + string" where
  "dec_str None = Inr []"
| "dec_str (Some (GStr s)) = Inr s"
| "dec_str (Some _) = Inl type_error"

fun dec_str_list :: "gval list \<Rightarrow> err + string list" where
  "dec_str_list [] = Inr []"
| "dec_str_list (v # vs) =
     (case (dec_str (if v = GNil then None else Some v), dec_str_list vs) of
        (Inr s, Inr ss) \<Rightarrow> Inr (s # ss) | _ \<Rightarrow> Inl type_error)"

fun dec_strs :: "gval option \<Rightarrow> err + string list" where
  "dec_strs None = Inr []"
| "dec_strs (Some (GArr vs)) = dec_str_list vs"
| "dec_strs (Some _) = Inl type_error"

definition bindE :: "err + 'a \<Rightarrow> ('a \<Rightarrow> err + 'b) \<Rightarrow> err + 'b" where
  "bindE r f = (case r of Inl e \<Rightarrow> Inl e | Inr a \<Rightarrow> f a)"

text \<open>The \<open>data\<close> member of the wrapper struct; the body must be an object (or null).\<close>

definition dec_data :: "http_resp \<Rightarrow> err + gval option" where
  "dec_data r = (case hr_Json r of
     None \<Rightarrow> Inl (ErrMsg ''invalid character'')
   | Some GNil \<Rightarrow> Inr None
   | Some (GMap m) \<Rightarrow> Inr (struct_get m ''data'')
   | Some _ \<Rightarrow> Inl type_error)"

section \<open>The client\<close>

record Client =
  cl_baseURL :: string
  cl_auth :: bool

definition New :: "string \<Rightarrow> string \<Rightarrow> string \<Rightarrow> string \<Rightarrow> Client option" where
  "New baseURL tokenURL clientID clientSecret =
     (let base = TrimRight (TrimSpace baseURL) (CHR ''/'') in
      if base = [] then None
      else Some \<lparr>cl_baseURL = base, cl_auth = (tokenURL \<noteq> [] \<and> clientID \<noteq> [] \<and> clientSecret \<noteq> [])\<rparr>)"

definition Client_Enabled :: "Client option \<Rightarrow> bool" where
  "Client_Enabled c = (case c of None \<Rightarrow> False | Some c \<Rightarrow> cl_baseURL c \<noteq> [])"

record ExportLot =
  el_BusinessID :: string
  el_BuyerName :: string
  el_Destination :: string
  el_CoaNumber :: "string option"
  el_BatchIDs :: "string list"

definition dec_lot :: "gval option \<Rightarrow> err + ExportLot" where
  "dec_lot v = (case v of
     None \<Rightarrow> Inr \<lparr>el_BusinessID = [], el_BuyerName = [], el_Destination = [], el_CoaNumber = None, el_BatchIDs = []\<rparr>
   | Some (GMap m) \<Rightarrow>
       bindE (dec_str (struct_get m ''business_id'')) (\<lambda>b.
       bindE (dec_str (struct_get m ''buyer_name'')) (\<lambda>n.
       bindE (dec_str (struct_get m ''destination'')) (\<lambda>d.
       bindE (dec_str (struct_get m ''coa_number'')) (\<lambda>c.
       bindE (dec_strs (struct_get m ''batch_ids'')) (\<lambda>ids.
         Inr \<lparr>el_BusinessID = b, el_BuyerName = n, el_Destination = d,
              el_CoaNumber = (if struct_get m ''coa_number'' = None then None else Some c), el_BatchIDs = ids\<rparr>)))))
   | Some _ \<Rightarrow> Inl type_error)"

text \<open>The authorized \<open>GET\<close> each call makes.\<close>

definition authorized_get :: "scm_net \<Rightarrow> Client option \<Rightarrow> string \<Rightarrow> err + http_resp" where
  "authorized_get net c path =
     (case c of None \<Rightarrow> Inl (ErrMsg ''scm client disabled'')
      | Some cl \<Rightarrow>
         if \<not> Client_Enabled c then Inl (ErrMsg ''scm client disabled'')
         else bindE (if cl_auth cl then sn_authorize net else Inr ()) (\<lambda>_. sn_get net (cl_baseURL cl @ path)))"

definition status_error :: "http_resp \<Rightarrow> err" where
  "status_error r = ErrMsg (''scm '' @ hr_Status r @ '': '' @ hr_Body r)"

definition GetExportLot :: "scm_net \<Rightarrow> Client option \<Rightarrow> string \<Rightarrow> err + ExportLot" where
  "GetExportLot net c businessID =
     bindE (authorized_get net c (''/api/v1/export-lots/'' @ businessID)) (\<lambda>r.
       if hr_StatusCode r \<ge> 400 then Inl (status_error r) else bindE (dec_data r) dec_lot)"

text \<open>A nil map is \<open>None\<close>.\<close>

definition GetQRPreview :: "scm_net \<Rightarrow> Client option \<Rightarrow> string \<Rightarrow> err + gmap option" where
  "GetQRPreview net c lot =
     bindE (authorized_get net c (''/api/v1/export-lots/'' @ lot @ ''/qr-preview'')) (\<lambda>r.
       if hr_StatusCode r \<ge> 400 then Inl (status_error r)
       else bindE (dec_data r) (\<lambda>v. case v of None \<Rightarrow> Inr None | Some (GMap m) \<Rightarrow> Inr (Some m) | Some _ \<Rightarrow> Inl type_error))"

text \<open>The message of a 422 body; what does not decode leaves it empty.\<close>

definition gate_message :: "http_resp \<Rightarrow> string" where
  "gate_message r =
     (case hr_Json r of Some (GMap m) \<Rightarrow>
        (case struct_get m ''error'' of Some (GMap e) \<Rightarrow>
           (case struct_get e ''message'' of Some (GStr s) \<Rightarrow> TrimSpace s | _ \<Rightarrow> [])
         | _ \<Rightarrow> [])
      | _ \<Rightarrow> [])"

definition Client_ValidateLotPublish :: "scm_net \<Rightarrow> Client option \<Rightarrow> string \<Rightarrow> err + unit" where
  "Client_ValidateLotPublish net c lot =
     bindE (authorized_get net c (''/api/v1/export-lots/'' @ lot @ ''/publish-gate'')) (\<lambda>r.
       if hr_StatusCode r = 422 then
         Inl (ErrMsg (if gate_message r = [] then ''COMPLIANCE_FAILED'' else gate_message r))
       else if hr_StatusCode r \<ge> 400 then Inl (status_error r) else Inr ())"

fun dec_lots :: "gval list \<Rightarrow> err + ExportLot list" where
  "dec_lots [] = Inr []"
| "dec_lots (v # vs) = bindE (dec_lot (if v = GNil then None else Some v)) (\<lambda>l. bindE (dec_lots vs) (\<lambda>ls. Inr (l # ls)))"

definition ListLotsForBatch :: "scm_net \<Rightarrow> Client option \<Rightarrow> string \<Rightarrow> err + string list" where
  "ListLotsForBatch net c batch =
     bindE (authorized_get net c ''/api/v1/export-lots'') (\<lambda>r.
       if hr_StatusCode r \<ge> 400 then Inl (status_error r)
       else bindE (dec_data r) (\<lambda>v.
         bindE (case v of None \<Rightarrow> Inr [] | Some (GArr vs) \<Rightarrow> dec_lots vs | Some _ \<Rightarrow> Inl type_error) (\<lambda>lots.
           Inr (map el_BusinessID (filter (\<lambda>l. batch \<in> set (el_BatchIDs l)) lots)))))"

section \<open>Lemmas\<close>

lemma bindE_Inr_iff: "bindE r f = Inr b \<longleftrightarrow> (\<exists>a. r = Inr a \<and> f a = Inr b)"
  by (simp add: bindE_def split: sum.split)

text \<open>The gate passes only on an answer of the service below 400.\<close>

lemma gate_passes_iff:
  "Client_ValidateLotPublish net c lot = Inr () \<longleftrightarrow>
     (\<exists>r. authorized_get net c (''/api/v1/export-lots/'' @ lot @ ''/publish-gate'') = Inr r \<and> hr_StatusCode r < 400)"
  by (auto simp: Client_ValidateLotPublish_def bindE_def split: sum.splits)

end
