(* ===== verification/Float64.thy ===== *)
theory Float64
  imports GoLib "HOL-Library.Log_Nat"
begin

text \<open>
  The arithmetic of Go's \<open>float64\<close> (IEEE 754 binary64, round to nearest, ties to even).  The value of a
  finite number is a rational; \<open>round_f64\<close> takes the exact result of an operation to the number of the
  format that is nearest to it, subnormal numbers included, and \<open>f64_of_rat\<close> turns an overflow
  into an infinity and keeps the sign of a zero.  The operations are rounded one by one, as on amd64; a platform
  on which the compiler fuses \<open>x*y + z\<close> would round once.  Lemmas: the result is a number of the
  format, none is closer, and how far it is off.
\<close>

section \<open>Rounding\<close>

definition round_even :: "rat \<Rightarrow> int" where
  "round_even y = (let f = \<lfloor>y\<rfloor>; d = y - of_int f in
     if d < 1 / 2 \<or> d = 1 / 2 \<and> even f then f else f + 1)"

text \<open>The exponent of a positive rational: \<open>2 ^ l \<le> x < 2 ^ (l + 1)\<close>.\<close>

definition log2_floor :: "rat \<Rightarrow> int" where
  "log2_floor x = (case quotient_of x of (p, q) \<Rightarrow>
     let l = bitlen p - bitlen q in if x < 2 powi l then l - 1 else l)"

text \<open>The exponent of the last of 53 bits, at least that of the smallest subnormal number.\<close>

definition f64_exponent :: "rat \<Rightarrow> int" where
  "f64_exponent x = max (log2_floor \<bar>x\<bar> - 52) (- 1074)"

definition round_f64 :: "rat \<Rightarrow> rat" where
  "round_f64 x = (if x = 0 then 0
     else let g = 2 powi f64_exponent x in of_int (round_even (x / g)) * g)"

text \<open>The finite numbers of the format, but for its largest exponent.\<close>

definition is_f64 :: "rat \<Rightarrow> bool" where
  "is_f64 z \<longleftrightarrow> (\<exists>m k :: int. z = of_int m * 2 powi k \<and> \<bar>m\<bar> < 2 ^ 53 \<and> - 1074 \<le> k)"

definition nearest_f64 :: "rat \<Rightarrow> rat \<Rightarrow> bool" where
  "nearest_f64 y x \<longleftrightarrow> is_f64 y \<and> (\<forall>z. is_f64 z \<longrightarrow> \<bar>y - x\<bar> \<le> \<bar>z - x\<bar>)"

section \<open>Operations\<close>

definition f64_value :: "f64 \<Rightarrow> rat" where
  "f64_value x = (case x of Fin r \<Rightarrow> r | _ \<Rightarrow> 0)"

definition f64_negative :: "f64 \<Rightarrow> bool" where
  "f64_negative x = (case x of Fin r \<Rightarrow> r < 0 | NegZero \<Rightarrow> True | NegInf \<Rightarrow> True | _ \<Rightarrow> False)"

definition f64_is_zero :: "f64 \<Rightarrow> bool" where
  "f64_is_zero x = (case x of Fin r \<Rightarrow> r = 0 | NegZero \<Rightarrow> True | _ \<Rightarrow> False)"

definition f64_infinite :: "f64 \<Rightarrow> bool" where
  "f64_infinite x \<longleftrightarrow> x \<in> {PosInf, NegInf}"

definition f64_inf :: "bool \<Rightarrow> f64" where
  "f64_inf neg = (if neg then NegInf else PosInf)"

definition f64_of_rat :: "bool \<Rightarrow> rat \<Rightarrow> f64" where
  "f64_of_rat neg r = (let y = round_f64 r in
     if y = 0 then (if neg then NegZero else Fin 0)
     else if \<bar>y\<bar> < 2 ^ 1024 then Fin y else f64_inf (y < 0))"

text \<open>\<open>float64(n)\<close> of an integer.\<close>

definition f64_of_int :: "int \<Rightarrow> f64" where
  "f64_of_int n = f64_of_rat False (of_int n)"

definition f64_mul :: "f64 \<Rightarrow> f64 \<Rightarrow> f64" where
  "f64_mul x y = (let neg = (f64_negative x \<noteq> f64_negative y) in
     if x = NaN \<or> y = NaN then NaN
     else if f64_infinite x \<or> f64_infinite y
     then (if f64_is_zero x \<or> f64_is_zero y then NaN else f64_inf neg)
     else f64_of_rat neg (f64_value x * f64_value y))"

definition f64_add :: "f64 \<Rightarrow> f64 \<Rightarrow> f64" where
  "f64_add x y =
     (if x = NaN \<or> y = NaN then NaN
      else if f64_infinite x then (if f64_infinite y \<and> y \<noteq> x then NaN else x)
      else if f64_infinite y then y
      else f64_of_rat (f64_negative x \<and> f64_negative y) (f64_value x + f64_value y))"

definition f64_div :: "f64 \<Rightarrow> f64 \<Rightarrow> f64" where
  "f64_div x y = (let neg = (f64_negative x \<noteq> f64_negative y) in
     if x = NaN \<or> y = NaN then NaN
     else if f64_infinite x then (if f64_infinite y then NaN else f64_inf neg)
     else if f64_infinite y then (if neg then NegZero else Fin 0)
     else if f64_is_zero y then (if f64_is_zero x then NaN else f64_inf neg)
     else f64_of_rat neg (f64_value x / f64_value y))"

text \<open>The comparison \<open>x >= 0\<close>.\<close>

definition f64_nonneg :: "f64 \<Rightarrow> bool" where
  "f64_nonneg x = (case x of Fin r \<Rightarrow> r \<ge> 0 | NegZero \<Rightarrow> True | PosInf \<Rightarrow> True | _ \<Rightarrow> False)"

text \<open>
  \<open>int64(x)\<close> cuts towards zero; outside the range, and for a value that is no number, the result is the
  least integer, as on amd64.
\<close>

definition int64_of :: "f64 \<Rightarrow> int" where
  "int64_of x =
     (if x = NaN \<or> f64_infinite x then - (2 ^ 63)
      else let r = f64_value x; t = (if r \<ge> 0 then \<lfloor>r\<rfloor> else - \<lfloor>- r\<rfloor>) in
        if - (2 ^ 63) \<le> t \<and> t < 2 ^ 63 then t else - (2 ^ 63))"

section \<open>How rounding behaves\<close>

lemma round_even_near: "\<bar>of_int (round_even y) - y\<bar> \<le> 1 / 2"
  unfolding round_even_def Let_def using floor_correct [of y] by (auto simp: abs_le_iff)

lemma round_even_nearest: "\<bar>of_int (round_even y) - y\<bar> \<le> \<bar>of_int j - y\<bar>"
proof (cases "j = round_even y")
  case False
  then have "1 \<le> \<bar>j - round_even y\<bar>" by linarith
  then have "1 \<le> \<bar>of_int j - of_int (round_even y) :: rat\<bar>"
    by (metis of_int_1_le_iff of_int_abs of_int_diff)
  then show ?thesis using round_even_near [of y] by linarith
qed simp

lemma round_even_bound: "\<bar>y\<bar> \<le> of_int n \<Longrightarrow> \<bar>round_even y\<bar> \<le> n"
proof -
  assume y: "\<bar>y\<bar> \<le> of_int n"
  have "of_int \<bar>round_even y\<bar> < (of_int (n + 1) :: rat)"
    using round_even_near [of y] y by (simp add: abs_if split: if_splits)
  then show ?thesis by (simp only: of_int_less_iff)
qed

lemma bitlen_rat:
  assumes "0 < p"
  shows "2 powi (bitlen p - 1) \<le> (of_int p :: rat)" "(of_int p :: rat) < 2 powi bitlen p"
proof -
  have "1 \<le> bitlen p" using assms bitlen_eq_zero_iff [of p] bitlen_nonneg [of p] by linarith
  then have e: "(2::rat) powi (bitlen p - 1) = of_int (2 ^ nat (bitlen p - 1))" "(2::rat) powi bitlen p = of_int (2 ^ nat (bitlen p))"
    by (simp_all add: power_int_nonneg_exp)
  show "2 powi (bitlen p - 1) \<le> (of_int p :: rat)" "(of_int p :: rat) < 2 powi bitlen p"
    using bitlen_bounds [OF assms] unfolding e of_int_le_iff of_int_less_iff by blast+
qed

lemma log2_floor_bounds:
  assumes "0 < x"
  shows "2 powi log2_floor x \<le> x" "x < 2 powi (log2_floor x + 1)"
proof -
  obtain p q where pq: "quotient_of x = (p, q)" by (cases "quotient_of x")
  have x: "x = of_int p / of_int q" and q: "0 < q" using quotient_of_div [OF pq] quotient_of_denom_pos [OF pq] by auto
  then have p: "0 < p" using assms by (simp add: zero_less_divide_iff)
  define l where "l = bitlen p - bitlen q"
  have b: "2 powi (bitlen p - 1) \<le> (of_int p :: rat)" "(of_int p :: rat) < 2 powi bitlen p"
    "2 powi (bitlen q - 1) \<le> (of_int q :: rat)" "(of_int q :: rat) < 2 powi bitlen q" "(0::rat) < of_int q"
    using bitlen_rat [OF p] bitlen_rat [OF q] q by simp_all
  have "2 powi (l - 1) * of_int q \<le> 2 powi (l - 1) * (2 powi bitlen q :: rat)"
    using b(4) by (intro mult_left_mono) auto
  also have "\<dots> = 2 powi (bitlen p - 1)"
    by (subst power_int_add [symmetric]) (auto simp: l_def)
  also have "\<dots> \<le> of_int p" by (rule b(1))
  finally have lo: "2 powi (l - 1) \<le> x" using b(5) by (simp add: x field_simps)
  have "(of_int p :: rat) < 2 powi bitlen p" by (rule b(2))
  also have "\<dots> = 2 powi (l + 1) * 2 powi (bitlen q - 1)"
    by (subst power_int_add [symmetric]) (auto simp: l_def)
  also have "\<dots> \<le> 2 powi (l + 1) * of_int q" using b(3) by (intro mult_left_mono) auto
  finally have hi: "x < 2 powi (l + 1)" using b(5) by (simp add: x field_simps)
  have "log2_floor x = (if x < 2 powi l then l - 1 else l)" by (simp add: log2_floor_def pq l_def Let_def)
  with lo hi show "2 powi log2_floor x \<le> x" "x < 2 powi (log2_floor x + 1)" by (auto split: if_splits)
qed

lemma powi_pos: "(0::rat) < 2 powi k"
  by simp

text \<open>Half a unit in the last place.\<close>

lemma round_f64_ulp: "\<bar>round_f64 x - x\<bar> \<le> 2 powi f64_exponent x / 2"
proof (cases "x = 0")
  case False
  define g :: rat where "g = 2 powi f64_exponent x"
  have g: "0 < g" by (simp add: g_def)
  have "round_f64 x - x = (of_int (round_even (x / g)) - x / g) * g"
    using False g by (simp add: round_f64_def g_def [symmetric] Let_def field_simps)
  then have "\<bar>round_f64 x - x\<bar> = \<bar>of_int (round_even (x / g)) - x / g\<bar> * g" using g by (simp add: abs_mult)
  also have "\<dots> \<le> 1 / 2 * g" by (rule mult_right_mono [OF round_even_near]) (use g in simp)
  finally show ?thesis by (simp add: g_def)
qed (simp add: round_f64_def)

lemma round_f64_error: "\<bar>round_f64 x - x\<bar> \<le> \<bar>x\<bar> / 2 ^ 53 + 1 / 2 ^ 1075"
proof (cases "x = 0")
  case False
  have half: "(2::rat) powi k / 2 = 2 powi (k - 1)" for k by (simp add: power_int_diff)
  show ?thesis
  proof (cases "- 1074 \<le> log2_floor \<bar>x\<bar> - 52")
    case True
    have "(2::rat) powi f64_exponent x / 2 = 2 powi (log2_floor \<bar>x\<bar> - 53)" using True by (simp add: half f64_exponent_def)
    also have "\<dots> = 2 powi log2_floor \<bar>x\<bar> / 2 ^ 53" by (simp add: power_int_diff)
    also have "\<dots> \<le> \<bar>x\<bar> / 2 ^ 53" using log2_floor_bounds(1) [of "\<bar>x\<bar>"] False by (intro divide_right_mono) auto
    finally show ?thesis using round_f64_ulp [of x] by (auto intro: order_trans)
  next
    case False
    then have "(2::rat) powi f64_exponent x / 2 = 2 powi (- 1075)" by (simp add: half f64_exponent_def)
    also have "\<dots> = 1 / 2 ^ 1075" by (simp only: power_int_minus_divide power_int_numeral)
    finally have "\<bar>round_f64 x - x\<bar> \<le> 1 / 2 ^ 1075" using round_f64_ulp [of x] by argo
    then show ?thesis by (rule add_increasing [rotated]) simp
  qed
qed (simp add: round_f64_def)

lemma multiple_nearest:
  assumes "x \<noteq> 0"
  shows "\<bar>round_f64 x - x\<bar> \<le> \<bar>of_int j * 2 powi f64_exponent x - x\<bar>"
proof -
  define g :: rat where "g = 2 powi f64_exponent x"
  have g: "0 < g" by (simp add: g_def)
  have scale: "\<bar>of_int i * g - x\<bar> = \<bar>of_int i - x / g\<bar> * g" for i
  proof -
    have "of_int i * g - x = (of_int i - x / g) * g" using g by (simp add: field_simps)
    then show ?thesis using g by (simp add: abs_mult)
  qed
  have "\<bar>of_int (round_even (x / g)) - x / g\<bar> * g \<le> \<bar>of_int j - x / g\<bar> * g"
    using g by (intro mult_right_mono round_even_nearest) auto
  then show ?thesis using assms by (simp add: round_f64_def Let_def g_def [symmetric] scale)
qed

text \<open>Round to nearest: no number of the format is closer.\<close>

lemma round_f64_nearest:
  assumes "is_f64 z"
  shows "\<bar>round_f64 x - x\<bar> \<le> \<bar>z - x\<bar>"
proof (cases "x = 0")
  case False
  from assms obtain m k where z: "z = of_int m * 2 powi k" "\<bar>m\<bar> < 2 ^ 53" "- 1074 \<le> k"
    unfolding is_f64_def by blast
  define e where "e = f64_exponent x"
  show ?thesis
  proof (cases "e \<le> k")
    case True
    then have "(2::rat) powi k = of_int (2 ^ nat (k - e)) * 2 powi e"
      using power_int_add [of "2::rat" "k - e" e] by (simp add: power_int_nonneg_exp)
    then have "z = of_int (m * 2 ^ nat (k - e)) * 2 powi e" by (simp add: z(1))
    with multiple_nearest [OF False] show ?thesis by (simp only: e_def)
  next
    case gap: False
    define l where "l = log2_floor \<bar>x\<bar>"
    have e: "e = l - 52" using gap z(3) by (simp add: e_def f64_exponent_def l_def max_def split: if_splits)
    have "\<bar>of_int m\<bar> \<le> (2 ^ 53 :: rat)"
      using z(2) by (metis less_imp_le of_int_abs of_int_le_iff of_int_numeral of_int_power)
    then have "\<bar>z\<bar> \<le> 2 ^ 53 * 2 powi k" by (simp add: z(1) abs_mult)
    also have "\<dots> = (2::rat) powi (53 + k)" using power_int_add [of "2::rat" 53 k] by simp
    also have "\<dots> \<le> 2 powi l" using gap by (intro power_int_increasing) (auto simp: e)
    finally have small: "\<bar>z\<bar> \<le> 2 powi l" .
    have large: "2 powi l \<le> \<bar>x\<bar>" using log2_floor_bounds(1) [of "\<bar>x\<bar>"] False by (simp add: l_def)
    have top: "(2::rat) powi l = 2 ^ 52 * 2 powi e" using power_int_add [of "2::rat" 52 e] by (simp add: e)
    define j :: int where "j = (if 0 < x then 2 ^ 52 else - (2 ^ 52))"
    have "of_int j * 2 powi e = (if 0 < x then 2 powi l else - (2 powi l :: rat))" by (simp add: j_def top)
    with multiple_nearest [OF False, of j] have "\<bar>round_f64 x - x\<bar> \<le> \<bar>(if 0 < x then 2 powi l else - (2 powi l)) - x\<bar>"
      by (simp only: e_def)
    also have "\<dots> \<le> \<bar>z - x\<bar>" using small large by (auto simp: abs_if split: if_splits)
    finally show ?thesis .
  qed
qed (simp add: round_f64_def)

lemma round_f64_is_f64: "is_f64 (round_f64 x)"
proof (cases "x = 0")
  case True
  then show ?thesis unfolding is_f64_def round_f64_def by (intro exI [of _ 0]) auto
next
  case False
  define e where "e = f64_exponent x"
  define j where "j = round_even (x / 2 powi e)"
  have r: "round_f64 x = of_int j * 2 powi e" using False by (simp add: round_f64_def Let_def j_def e_def)
  have "\<bar>x\<bar> < 2 powi (log2_floor \<bar>x\<bar> + 1)" using log2_floor_bounds(2) [of "\<bar>x\<bar>"] False by simp
  also have "\<dots> \<le> 2 powi (53 + e)" by (intro power_int_increasing) (auto simp: e_def f64_exponent_def)
  also have "\<dots> = (2::rat) ^ 53 * 2 powi e" using power_int_add [of "2::rat" 53 e] by simp
  finally have "\<bar>x / 2 powi e\<bar> \<le> of_int (2 ^ 53)" by (simp add: field_simps abs_divide)
  then have j: "\<bar>j\<bar> \<le> 2 ^ 53" unfolding j_def by (rule round_even_bound)
  have e: "- 1074 \<le> e" by (simp add: e_def f64_exponent_def)
  show ?thesis
  proof (cases "\<bar>j\<bar> = 2 ^ 53")
    case True
    have "(of_int j :: rat) = of_int (sgn j * \<bar>j\<bar>)" by (simp add: sgn_mult_abs)
    also have "\<dots> * 2 powi e = of_int (sgn j * 2 ^ 52) * 2 powi (e + 1)"
      unfolding True using power_int_add [of "2::rat" e 1] by simp
    finally have "round_f64 x = of_int (sgn j * 2 ^ 52) * 2 powi (e + 1)" by (simp add: r)
    moreover have "\<bar>sgn j * 2 ^ 52\<bar> < (2 ^ 53 :: int)" by (simp add: abs_mult abs_sgn_eq)
    ultimately show ?thesis unfolding is_f64_def using e
      by (intro exI [of _ "sgn j * 2 ^ 52"] exI [of _ "e + 1"]) auto
  next
    case False
    with j have "\<bar>j\<bar> < 2 ^ 53" by simp
    with r e show ?thesis unfolding is_f64_def by blast
  qed
qed

lemma round_f64_id: "is_f64 x \<Longrightarrow> round_f64 x = x"
  using round_f64_nearest [of x x] by simp

lemma is_f64_of_int:
  fixes n :: int
  assumes "\<bar>n\<bar> < 2 ^ 53" shows "is_f64 (of_int n)"
  unfolding is_f64_def using assms by (intro exI [of _ n] exI [of _ 0]) auto

lemma round_f64_best: "nearest_f64 (round_f64 x) x"
  by (simp add: nearest_f64_def round_f64_is_f64 round_f64_nearest)

lemma round_f64_zero_iff:
  assumes "x = 0 \<or> 1 / 1000 \<le> \<bar>x\<bar>" shows "round_f64 x = 0 \<longleftrightarrow> x = 0"
proof -
  have "\<bar>x\<bar> / 2 ^ 53 + 1 / 2 ^ 1075 < \<bar>x\<bar>" if "1 / 1000 \<le> \<bar>x\<bar>"
    using that by simp
  with round_f64_error [of x] assms show ?thesis by (auto simp: round_f64_def)
qed

text \<open>Without overflow the value of a result is the rounded exact result.\<close>

lemma f64_of_rat_value:
  assumes "\<bar>r\<bar> \<le> 2 ^ 60"
  shows "f64_value (f64_of_rat neg r) = round_f64 r" "f64_of_rat neg r \<noteq> NaN" "\<not> f64_infinite (f64_of_rat neg r)"
proof -
  have "\<bar>r\<bar> / 2 ^ 53 + 1 / 2 ^ 1075 \<le> 2 ^ 60" using assms by simp
  with round_f64_error [of r] assms have "\<bar>round_f64 r\<bar> \<le> 2 ^ 61" by simp
  then have "\<bar>round_f64 r\<bar> < 2 ^ 1024" by (rule le_less_trans) simp
  then show "f64_value (f64_of_rat neg r) = round_f64 r" "f64_of_rat neg r \<noteq> NaN" "\<not> f64_infinite (f64_of_rat neg r)"
    by (auto simp: f64_of_rat_def Let_def f64_value_def f64_infinite_def)
qed

lemma f64_of_rat_nonzero:
  assumes "\<bar>r\<bar> \<le> 2 ^ 60" and "round_f64 r \<noteq> 0"
  shows "f64_of_rat neg r = Fin (round_f64 r)"
  using f64_of_rat_value [OF assms(1), of neg] assms(2)
  by (auto simp: f64_of_rat_def Let_def f64_inf_def f64_infinite_def split: if_splits)

lemma f64_of_int_exact:
  assumes "\<bar>n\<bar> < 2 ^ 53" shows "f64_of_int n = Fin (of_int n)"
proof -
  have "\<bar>of_int n\<bar> < (2 ^ 1024 :: rat)"
  proof -
    have "of_int \<bar>n\<bar> < (of_int (2 ^ 53) :: rat)" using assms by (simp only: of_int_less_iff)
    then show ?thesis by simp
  qed
  then show ?thesis
    unfolding f64_of_int_def f64_of_rat_def Let_def round_f64_id [OF is_f64_of_int [OF assms]] by simp
qed

text \<open>The decimal 1.115 is stored as a number below it, and still comes out of the steps of \<open>round2\<close> as 1.12.\<close>

lemma round_f64_example:
  "round_f64 (1115 / 1000) = 5021513584518103 / 2 ^ 52" "round_f64 (112 / 100) = 1261007895663739 / 2 ^ 50"
  by code_simp+

end
