(* ===== verification/StoryRules.thy ===== *)
theory StoryRules
  imports EventStore Float64
begin

text \<open>
  The rules of the public story that need no database: which events are accepted
  (\<open>internal/story/events.go\<close>), and from \<open>internal/story/compose.go\<close> which fields of a farmer, a farm or
  an upstream preview reach an anonymous reader, how coordinates are coarsened and how the journey is
  composed.  A Go map mutated in place is a map returned updated; decoded JSON has no sharing.
\<close>

section \<open>Accepted events\<close>

definition CustodyTransferred :: string where "CustodyTransferred = ''CUSTODY_TRANSFERRED''"

definition CustodyInTransit :: string where "CustodyInTransit = ''CUSTODY_IN_TRANSIT''"

definition CustodyReceived :: string where "CustodyReceived = ''CUSTODY_RECEIVED''"

definition allowedEventTypes :: "string list" where
  "allowedEventTypes = [''FARMER_REGISTERED'', ''CHERRY_RECEIVED'', ''INTAKE_RECEIVED'', ''STAGE_CHANGED'',
     ''MANUAL_NOTE'', ''LOT_QR_PUBLISHED'', ''CORRECTION'', ''PARTY_CREATED'', ''PARTY_UPDATED'',
     ''FARM_REGISTERED'', ''FARM_UPDATED'', ''LOT_ASSEMBLED'', ''WET_MILL_STARTED'', ''DRYING_STARTED'',
     ''SAMPLE_SUBMITTED'', ''WET_MILL_COMPLETE'', ''DRYING_COMPLETE'', ''DRY_MILL_COMPLETE'',
     ''LAB_RESULT_RECORDED'', ''COA_ISSUED'', ''qc.coa.issued'', ''qc.lab.result_recorded'',
     CustodyTransferred, CustodyInTransit, CustodyReceived]"

definition IsCustodyTransfer :: "string \<Rightarrow> bool" where
  "IsCustodyTransfer eventType \<longleftrightarrow> eventType \<in> {CustodyTransferred, CustodyInTransit, CustodyReceived}"

definition ValidateEventType :: "string \<Rightarrow> err + unit" where
  "ValidateEventType eventType =
     (if eventType \<in> set allowedEventTypes then Inr () else Inl (ErrMsg (''unknown event_type: '' @ eventType)))"

text \<open>The two endpoints of a transfer, in the order the loop checks them.\<close>

fun check_endpoints :: "string \<Rightarrow> gmap \<Rightarrow> string list \<Rightarrow> err + unit" where
  "check_endpoints eventType payload [] = Inr ()"
| "check_endpoints eventType payload (key # keys) =
     (case as_str (mget payload key) of
        Some s \<Rightarrow> if TrimSpace s = []
          then Inl (ErrMsg (eventType @ '' requires payload.'' @ key @ '' (non-empty string)''))
          else check_endpoints eventType payload keys
      | None \<Rightarrow> Inl (ErrMsg (eventType @ '' requires payload.'' @ key @ '' (non-empty string)'')))"

definition check_quantity :: "string \<Rightarrow> gval \<Rightarrow> err + unit" where
  "check_quantity eventType raw =
     (let accept = (\<lambda>q. case q of Fin x \<Rightarrow> if x < 0 then Inl (ErrMsg (eventType @ '' requires payload.quantity_kg >= 0'')) else Inr ()
                    | NegZero \<Rightarrow> Inr ()
                    | _ \<Rightarrow> Inl (ErrMsg (eventType @ '' requires payload.quantity_kg >= 0'')))
      in case raw of GFloat n \<Rightarrow> accept n | GInt n \<Rightarrow> accept (f64_of_int n) | GInt64 n \<Rightarrow> accept (f64_of_int n)
         | _ \<Rightarrow> Inl (ErrMsg (eventType @ '' requires payload.quantity_kg to be a number'')))"

definition ValidateEventPayload :: "string \<Rightarrow> string \<Rightarrow> gmap \<Rightarrow> err + unit" where
  "ValidateEventPayload eventType entityType payload =
     (if \<not> IsCustodyTransfer eventType then Inr ()
      else if entityType \<noteq> ''lot'' \<and> entityType \<noteq> ''batch''
        then Inl (ErrMsg (eventType @ '' requires entity_type lot or batch''))
      else case check_endpoints eventType payload [''from'', ''to''] of
        Inl e \<Rightarrow> Inl e
      | Inr _ \<Rightarrow> (case mget payload ''quantity_kg'' of
            None \<Rightarrow> Inl (ErrMsg (eventType @ '' requires payload.quantity_kg (number >= 0)''))
          | Some raw \<Rightarrow> check_quantity eventType raw))"

section \<open>Fields\<close>

definition numField :: "gmap \<Rightarrow> string \<Rightarrow> f64 option" where
  "numField data key = (case mget data key of Some (GFloat n) \<Rightarrow> Some n | Some (GInt n) \<Rightarrow> Some (f64_of_int n)
     | Some (GInt64 n) \<Rightarrow> Some (f64_of_int n) | _ \<Rightarrow> None)"

definition strMapField :: "gmap \<Rightarrow> string \<Rightarrow> string option" where
  "strMapField data key = (case as_str (mget data key) of Some s \<Rightarrow> if s = [] then None else Some s | None \<Rightarrow> None)"

definition coordsFromMap :: "gmap \<Rightarrow> (f64 \<times> f64) option" where
  "coordsFromMap loc = (case (numField loc ''lat'', numField loc ''lng'') of
     (Some lat, Some lng) \<Rightarrow> Some (lat, lng) | _ \<Rightarrow> None)"

definition batchIDsFromLot :: "gval option \<Rightarrow> string list" where
  "batchIDsFromLot v = (case v of
     Some (GStrs ids) \<Rightarrow> ids
   | Some (GArr ids) \<Rightarrow> concat (map (\<lambda>e. case e of GStr s \<Rightarrow> if s = [] then [] else [s] | _ \<Rightarrow> []) ids)
   | _ \<Rightarrow> [])"

section \<open>Coordinates\<close>

record Options =
  op_PlaceholderJourney :: bool
  op_PreciseGeo :: bool

text \<open>Every operation on \<open>float64\<close> rounds: half away from zero is taken of the product as it was rounded.\<close>

definition round2 :: "f64 \<Rightarrow> f64" where
  "round2 v =
     (if f64_nonneg v
      then f64_div (f64_of_int (int64_of (f64_add (f64_mul v (Fin 100)) (Fin (1 / 2))))) (Fin 100)
      else f64_div (f64_of_int (int64_of (f64_add (f64_mul v (Fin 100)) (Fin (- (1 / 2)))))) (Fin 100))"

definition publicCoords :: "Options \<Rightarrow> f64 \<Rightarrow> f64 \<Rightarrow> f64 \<times> f64" where
  "publicCoords opts lat lng = (if op_PreciseGeo opts then (lat, lng) else (round2 lat, round2 lng))"

definition map_point :: "Options \<Rightarrow> f64 \<Rightarrow> f64 \<Rightarrow> gval" where
  "map_point opts lat lng = (let (a, b) = publicCoords opts lat lng in
     GMap [(''lat'', GFloat a), (''lng'', GFloat b)])"

section \<open>Redaction\<close>

definition sensitivePublicKeys :: "string list" where
  "sensitivePublicKeys = [''phone'', ''phone_number'', ''telephone'', ''mobile'', ''msisdn'', ''contact'',
     ''contact_number'', ''email'', ''email_address'', ''national_id'', ''nin'', ''id_number'', ''id_no'',
     ''passport'', ''passport_number'', ''tin'', ''address'', ''physical_address'', ''residential_address'',
     ''next_of_kin'', ''kin'', ''dob'', ''date_of_birth'', ''birth_date'', ''gender'', ''bank'', ''bank_account'',
     ''account_number'', ''gps'', ''geo'', ''coordinates'', ''coords'', ''latitude'', ''longitude'', ''lat'',
     ''lng'', ''location'']"

definition sensitive :: "string \<Rightarrow> bool" where
  "sensitive k \<longleftrightarrow> ToLower k \<in> set sensitivePublicKeys"

definition geo_location :: "Options \<Rightarrow> gmap \<Rightarrow> gmap" where
  "geo_location opts entry = (case as_map (mget entry ''location'') of
     None \<Rightarrow> entry
   | Some loc \<Rightarrow>
       let e1 = (case strMapField loc ''district'' of None \<Rightarrow> entry | Some d \<Rightarrow> mput ''district'' (GStr d) entry);
           e2 = (case coordsFromMap loc of None \<Rightarrow> e1 | Some (lat, lng) \<Rightarrow> mput ''map'' (map_point opts lat lng) e1)
       in mdel ''location'' e2)"

definition geo_top :: "Options \<Rightarrow> gmap \<Rightarrow> gmap" where
  "geo_top opts entry = (case numField entry ''lat'' of
     None \<Rightarrow> entry
   | Some lat \<Rightarrow>
       let e1 = (case numField entry ''lng'' of None \<Rightarrow> entry | Some lng \<Rightarrow> mput ''map'' (map_point opts lat lng) entry)
       in mdel ''lng'' (mdel ''lat'' e1))"

definition sanitizePublicGeo :: "Options \<Rightarrow> gmap \<Rightarrow> gmap" where
  "sanitizePublicGeo opts entry = geo_top opts (geo_location opts entry)"

definition redactPublicEntity :: "Options \<Rightarrow> gmap \<Rightarrow> gmap" where
  "redactPublicEntity opts entry = filter (\<lambda>(k, v). \<not> sensitive k) (sanitizePublicGeo opts entry)"

definition commercialKeys :: "string list" where
  "commercialKeys = [''buyer_name'', ''buyer'', ''buyer_id'', ''buyer_ref'', ''customer'', ''customer_name'',
     ''price'', ''unit_price'', ''contract_price'', ''contract_ref'', ''sales_order'', ''sales_order_id'']"

fun stripCommercial :: "gval \<Rightarrow> gval" where
  "stripCommercial (GMap m) =
     GMap (map (\<lambda>(k, v). (k, stripCommercial v)) (filter (\<lambda>(k, v). k \<notin> set commercialKeys) m))"
| "stripCommercial (GArr vs) = GArr (map stripCommercial vs)"
| "stripCommercial (GMaps ms) =
     GMaps (map (\<lambda>m. map (\<lambda>(k, v). (k, stripCommercial v)) (filter (\<lambda>(k, v). k \<notin> set commercialKeys) m)) ms)"
| "stripCommercial v = v"

definition redact_entities :: "Options \<Rightarrow> gval \<Rightarrow> gval" where
  "redact_entities opts v = (case v of
     GMaps ms \<Rightarrow> GMaps (map (redactPublicEntity opts) ms)
   | GArr vs \<Rightarrow> GArr (map (\<lambda>e. case e of GMap m \<Rightarrow> GMap (redactPublicEntity opts m) | _ \<Rightarrow> e) vs)
   | _ \<Rightarrow> v)"

definition redact_key :: "Options \<Rightarrow> string \<Rightarrow> gmap \<Rightarrow> gmap" where
  "redact_key opts key preview =
     (case mget preview key of None \<Rightarrow> preview | Some v \<Rightarrow> mput key (redact_entities opts v) preview)"

definition the_map :: "gval \<Rightarrow> gmap" where
  "the_map v = (case v of GMap m \<Rightarrow> m | _ \<Rightarrow> [])"

definition sanitizePreviewEntities :: "Options \<Rightarrow> gmap \<Rightarrow> gmap" where
  "sanitizePreviewEntities opts preview =
     redact_key opts ''farms'' (redact_key opts ''farmers'' (the_map (stripCommercial (GMap preview))))"

section \<open>The journey\<close>

definition journeyStage :: "string \<Rightarrow> string" where
  "journeyStage eventType =
     (if eventType \<in> {''FARMER_REGISTERED'', ''FARM_REGISTERED'', ''CHERRY_RECEIVED'', ''INTAKE_RECEIVED''} then ''Farm''
      else if eventType \<in> {''WET_MILL_COMPLETE'', ''mes.wetmill.completed'', ''WET_MILL_STARTED'', ''mes.wetmill.started''}
        then ''Wet mill''
      else if eventType \<in> {''DRYING_COMPLETE'', ''mes.drying.completed'', ''DRYING_STARTED'', ''mes.drying.started''}
        then ''Drying''
      else if eventType \<in> {''DRY_MILL_COMPLETE'', ''mes.drymill.completed''} then ''Dry mill''
      else if eventType \<in> {''LAB_RESULT_RECORDED'', ''qc.lab.result_recorded'', ''SAMPLE_SUBMITTED'', ''qc.sample.submitted''}
        then ''Lab''
      else if eventType \<in> {''COA_ISSUED'', ''qc.coa.issued''} then ''Lab''
      else if eventType \<in> {''LOT_QR_PUBLISHED'', ''LOT_ASSEMBLED''} then ''Export''
      else if eventType \<in> {CustodyTransferred, CustodyInTransit, CustodyReceived} then ''Custody''
      else eventType)"

definition journey_time :: "TraceEvent \<Rightarrow> string" where
  "journey_time ev = RFC3339 (te_occurred_at ev)"

definition journey_step :: "TraceEvent \<Rightarrow> gmap" where
  "journey_step ev = [(''stage'', GStr (journeyStage (te_event_type ev))), (''occurred_at'', GStr (journey_time ev)),
     (''source'', GStr (te_source_service ev)), (''summary'', GStr (te_event_type ev))]"

definition journey_key :: "TraceEvent \<Rightarrow> string" where
  "journey_key ev = te_event_type ev @ journey_time ev"

fun first_by_key :: "string list \<Rightarrow> TraceEvent list \<Rightarrow> TraceEvent list" where
  "first_by_key seen [] = []"
| "first_by_key seen (ev # evs) =
     (if journey_key ev \<in> set seen then first_by_key seen evs
      else ev # first_by_key (journey_key ev # seen) evs)"

text \<open>\<open>sort.Slice\<close> by time; the order of steps of the same second is not specified, here it is theirs.\<close>

definition composeJourney :: "TraceEvent list \<Rightarrow> gmap list" where
  "composeJourney events =
     map (journey_step \<circ> snd) (sort_by_key (map (\<lambda>ev. (journey_time ev, ev)) (first_by_key [] events)))"

definition defaultJourney :: "gmap list" where
  "defaultJourney = [
     [(''stage'', GStr ''Farm''), (''source'', GStr ''scm''), (''summary'', GStr ''Farm origin'')],
     [(''stage'', GStr ''Wet mill''), (''source'', GStr ''mes''), (''summary'', GStr ''Processing'')],
     [(''stage'', GStr ''Lab''), (''source'', GStr ''qc''), (''summary'', GStr ''Quality analysis'')],
     [(''stage'', GStr ''Export''), (''source'', GStr ''scm''), (''summary'', GStr ''Export lot'')]]"

section \<open>Lemmas\<close>

text \<open>What holds of every entry of a map still holds after an entry with it is put or one is deleted.\<close>

lemma mput_all: "list_all P m \<Longrightarrow> P (k, v) \<Longrightarrow> list_all P (mput k v m)"
  by (induction m) auto

lemma mdel_all: "list_all P m \<Longrightarrow> list_all P (mdel k m)"
  by (auto simp: AList.delete_eq list_all_iff)

text \<open>No commercial key, at any depth.\<close>

fun commercial_free :: "gval \<Rightarrow> bool" where
  "commercial_free (GMap m) = list_all (\<lambda>(k, v). k \<notin> set commercialKeys \<and> commercial_free v) m"
| "commercial_free (GArr vs) = list_all commercial_free vs"
| "commercial_free (GMaps ms) = list_all (list_all (\<lambda>(k, v). k \<notin> set commercialKeys \<and> commercial_free v)) ms"
| "commercial_free _ = True"

lemma commercial_free_GMaps: "commercial_free (GMaps ms) = list_all (\<lambda>m. commercial_free (GMap m)) ms"
  by simp

lemma commercial_free_strip: "commercial_free (stripCommercial v)"
  by (induction v rule: stripCommercial.induct) (auto simp: list_all_iff split: prod.splits)

lemma strip_id: "commercial_free v \<Longrightarrow> stripCommercial v = v"
proof (induction v rule: stripCommercial.induct)
  case (1 m)
  then have "filter (\<lambda>(k, v). k \<notin> set commercialKeys) m = m" by (auto simp: list_all_iff intro!: filter_True)
  with 1 show ?case by (auto simp: list_all_iff intro!: map_idI)
next
  case (2 vs)
  then show ?case by (auto simp: list_all_iff intro!: map_idI)
next
  case (3 ms)
  have "map (\<lambda>(k, v). (k, stripCommercial v)) (filter (\<lambda>(k, v). k \<notin> set commercialKeys) m) = m" if "m \<in> set ms" for m
  proof -
    have "filter (\<lambda>(k, v). k \<notin> set commercialKeys) m = m" using 3(2) that by (auto simp: list_all_iff intro!: filter_True)
    moreover have "stripCommercial v = v" if "(k, v) \<in> set m" for k v
      using 3(1) [of m "(k, v)" k v] 3(2) \<open>m \<in> set ms\<close> that by (force simp: list_all_iff)
    ultimately show ?thesis by (auto intro!: map_idI)
  qed
  then show ?case by (auto intro!: map_idI)
qed simp_all

lemma map_point_free: "commercial_free (map_point opts lat lng)"
  by (simp add: map_point_def commercialKeys_def split: prod.split)

lemma geo_all:
  assumes "list_all P e" and "\<And>d. P (''district'', GStr d)" and "\<And>lat lng. P (''map'', map_point opts lat lng)"
  shows "list_all P (sanitizePublicGeo opts e)"
proof -
  have "list_all P (geo_location opts e)"
    using assms unfolding geo_location_def Let_def
    by (auto split: option.split intro!: mput_all mdel_all)
  then show ?thesis
    using assms(3) unfolding sanitizePublicGeo_def geo_top_def Let_def
    by (auto split: option.split intro!: mput_all mdel_all)
qed

lemma redact_free:
  assumes "commercial_free (GMap e)"
  shows "commercial_free (GMap (redactPublicEntity opts e))"
proof -
  have "''district'' \<notin> set commercialKeys" "''map'' \<notin> set commercialKeys" by (simp_all add: commercialKeys_def)
  with assms have "list_all (\<lambda>(k, v). k \<notin> set commercialKeys \<and> commercial_free v) (sanitizePublicGeo opts e)"
    by (intro geo_all) (simp_all add: map_point_free)
  then show ?thesis by (auto simp: redactPublicEntity_def list_all_iff)
qed

text \<open>A redacted entry has no sensitive key.\<close>

definition entry_safe :: "gmap \<Rightarrow> bool" where
  "entry_safe e \<longleftrightarrow> list_all (\<lambda>(k, v). \<not> sensitive k) e"

definition entities_of :: "gval option \<Rightarrow> gmap list" where
  "entities_of v = (case v of Some (GMaps ms) \<Rightarrow> ms
     | Some (GArr vs) \<Rightarrow> concat (map (\<lambda>e. case e of GMap m \<Rightarrow> [m] | _ \<Rightarrow> []) vs) | _ \<Rightarrow> [])"

lemma redact_safe: "entry_safe (redactPublicEntity opts e)"
  by (auto simp: entry_safe_def redactPublicEntity_def list_all_iff)

lemma redact_entities_safe: "list_all entry_safe (entities_of (Some (redact_entities opts v)))"
  by (cases v) (auto simp: redact_entities_def entities_of_def list_all_iff redact_safe split: gval.splits)

lemma redact_entities_free: "commercial_free v \<Longrightarrow> commercial_free (redact_entities opts v)"
proof (cases v)
  case (GArr vs)
  have "commercial_free (case e of GMap m \<Rightarrow> GMap (redactPublicEntity opts m) | _ \<Rightarrow> e)" if "commercial_free e" for e
    using that redact_free [of _ opts] by (cases e) simp_all
  then show "commercial_free v \<Longrightarrow> ?thesis" by (simp add: GArr redact_entities_def list_all_iff)
next
  case (GMaps ms)
  then show "commercial_free v \<Longrightarrow> ?thesis"
    using redact_free [of _ opts] unfolding redact_entities_def
    by (auto simp only: gval.case commercial_free_GMaps list.pred_map comp_def elim!: list.pred_mono_strong)
qed (simp_all add: redact_entities_def)

lemma redact_key_lookup:
  "mget (redact_key opts key p) k = (if k = key then map_option (redact_entities opts) (mget p key) else mget p k)"
  by (auto simp: redact_key_def AList.update_conv' split: option.split)

lemma redact_key_free: "commercial_free (GMap p) \<Longrightarrow> commercial_free (GMap (redact_key opts key p))"
proof -
  assume p: "commercial_free (GMap p)"
  show ?thesis
  proof (cases "mget p key")
    case (Some v)
    then have "(key, v) \<in> set p" by (rule map_of_SomeD)
    with p have "key \<notin> set commercialKeys" "commercial_free v" by (auto simp: list_all_iff)
    with p Some redact_entities_free [of v opts] show ?thesis
      by (auto simp: redact_key_def intro!: mput_all)
  qed (use p in \<open>simp add: redact_key_def\<close>)
qed

lemma redact_lookup:
  "mget (redactPublicEntity opts e) k = (if sensitive k then None else mget (sanitizePublicGeo opts e) k)"
  by (simp add: redactPublicEntity_def map_of_filter_eq)

section \<open>Properties\<close>

definition public_point :: "Options \<Rightarrow> gmap \<Rightarrow> gval option" where
  "public_point opts e =
     (case coordsFromMap e of Some (lat, lng) \<Rightarrow> Some (map_point opts lat lng)
      | None \<Rightarrow> (case as_map (mget e ''location'') of None \<Rightarrow> None
          | Some loc \<Rightarrow> map_option (\<lambda>(lat, lng). map_point opts lat lng) (coordsFromMap loc)))"

lemma geo_location_lookup:
  assumes "k \<noteq> ''location''"
  shows "mget (geo_location opts e) k =
    (if k = ''map'' then (case Option.bind (as_map (mget e ''location'')) coordsFromMap of
          Some (lat, lng) \<Rightarrow> Some (map_point opts lat lng) | None \<Rightarrow> mget e k)
     else if k = ''district'' then (case Option.bind (as_map (mget e ''location'')) (\<lambda>loc. strMapField loc ''district'') of
          Some d \<Rightarrow> Some (GStr d) | None \<Rightarrow> mget e k)
     else mget e k)"
  using assms
  by (auto simp: geo_location_def Let_def AList.update_conv' AList.delete_conv' split: option.split)

lemma geo_top_lookup:
  assumes "k \<noteq> ''lat''" "k \<noteq> ''lng''"
  shows "mget (geo_top opts e) k =
    (if k = ''map'' then (case coordsFromMap e of Some (lat, lng) \<Rightarrow> Some (map_point opts lat lng) | None \<Rightarrow> mget e k)
     else mget e k)"
  using assms
  by (auto simp: geo_top_def Let_def AList.update_conv' AList.delete_conv' coordsFromMap_def split: option.split)

text \<open>
  What an anonymous reader sees of a farmer or a farm, field by field: no key on the list of
  sensitive ones (in any case of its letters), the map point computed from the coordinates (those of
  the entry before those of its location), the district of the location, and every other field as it is.
\<close>

theorem redact_public_entity_fields:
  "mget (redactPublicEntity opts e) k =
    (if sensitive k then None
     else if k = ''map'' then (case public_point opts e of Some v \<Rightarrow> Some v | None \<Rightarrow> mget e ''map'')
     else if k = ''district'' then
       (case Option.bind (as_map (mget e ''location'')) (\<lambda>loc. strMapField loc ''district'') of
          Some d \<Rightarrow> Some (GStr d) | None \<Rightarrow> mget e ''district'')
     else mget e k)"
proof (cases "sensitive k")
  case False
  have "sensitive ''lat''" "sensitive ''lng''" "sensitive ''location''" by code_simp+
  with False have k: "k \<noteq> ''lat''" "k \<noteq> ''lng''" "k \<noteq> ''location''" by auto
  have "coordsFromMap (geo_location opts e) = coordsFromMap e"
    by (simp add: coordsFromMap_def numField_def geo_location_lookup)
  then have "mget (sanitizePublicGeo opts e) k =
     (if k = ''map'' then (case coordsFromMap e of Some (lat, lng) \<Rightarrow> Some (map_point opts lat lng)
        | None \<Rightarrow> mget (geo_location opts e) k) else mget (geo_location opts e) k)"
    using k by (simp add: sanitizePublicGeo_def geo_top_lookup)
  with False k show ?thesis
    by (auto simp: redact_lookup geo_location_lookup public_point_def split: option.split)
qed (simp add: redact_lookup)

text \<open>
  Rounding in the range of coordinates: the product and the sum are off by at most a few units in the
  last place, so the integer is within half of the exact product but for as much.
\<close>

lemma round_f64_coord: "\<bar>x\<bar> \<le> 100002 \<Longrightarrow> \<bar>round_f64 x - x\<bar> \<le> 1 / 80000000000"
proof -
  assume "\<bar>x\<bar> \<le> 100002"
  then have "\<bar>x\<bar> / 2 ^ 53 + 1 / 2 ^ 1075 \<le> 1 / 80000000000" by simp
  with round_f64_error [of x] show ?thesis by (rule order_trans)
qed

lemma f64_steps:
  "f64_mul (Fin a) (Fin b) = f64_of_rat ((a < 0) \<noteq> (b < 0)) (a * b)"
  "x \<noteq> NaN \<Longrightarrow> \<not> f64_infinite x \<Longrightarrow>
     \<exists>neg. f64_add x (Fin b) = f64_of_rat neg (f64_value x + b)"
  "b \<noteq> 0 \<Longrightarrow> f64_div (Fin a) (Fin b) = f64_of_rat ((a < 0) \<noteq> (b < 0)) (a / b)"
  by (auto simp: f64_mul_def f64_add_def f64_div_def f64_infinite_def f64_negative_def f64_value_def f64_is_zero_def Let_def)

lemma round2_half:
  fixes r h :: rat
  assumes "\<bar>r\<bar> \<le> 1000" and "h = (if r \<ge> 0 then 1 / 2 else - (1 / 2))"
  defines "t \<equiv> int64_of (f64_add (f64_mul (Fin r) (Fin 100)) (Fin h))"
  shows "\<bar>of_int t - r * 100\<bar> \<le> 1 / 2 + 1 / 40000000000"
proof -
  let ?a = "f64_mul (Fin r) (Fin 100)" and ?A = "round_f64 (r * 100)"
  have small: "\<bar>r * 100\<bar> \<le> 2 ^ 60" "\<bar>r * 100\<bar> \<le> 100002" using assms(1) by simp_all
  have a: "f64_value ?a = ?A" "?a \<noteq> NaN" "\<not> f64_infinite ?a"
    using f64_of_rat_value [OF small(1)] by (simp_all add: f64_steps(1))
  have A: "\<bar>?A - r * 100\<bar> \<le> 1 / 80000000000" by (rule round_f64_coord [OF small(2)])
  let ?B = "round_f64 (?A + h)"
  obtain neg where add: "f64_add ?a (Fin h) = f64_of_rat neg (?A + h)"
    using f64_steps(2) [OF a(2,3)] a(1) by auto
  have h: "\<bar>h\<bar> = 1 / 2" by (simp add: assms(2))
  have "\<bar>r * 100\<bar> \<le> 100000" using assms(1) by simp
  then have bound: "\<bar>?A + h\<bar> \<le> 100002" using A h by (simp add: abs_if split: if_splits)
  then have "\<bar>?A + h\<bar> \<le> 2 ^ 60" by simp
  note b = f64_of_rat_value [OF this, of neg]
  have B: "\<bar>?B - (?A + h)\<bar> \<le> 1 / 80000000000" by (rule round_f64_coord [OF bound])
  define u :: int where "u = (if ?B \<ge> 0 then \<lfloor>?B\<rfloor> else - \<lfloor>- ?B\<rfloor>)"
  have sign: "?B \<ge> 0 \<longleftrightarrow> r \<ge> 0" using A B by (auto simp: assms(2) abs_if split: if_splits)
  have u: "\<bar>of_int u - r * 100\<bar> \<le> 1 / 2 + 1 / 40000000000"
  proof (cases "r \<ge> 0")
    case True
    then have "of_int u \<le> ?B" "?B < of_int u + 1" using sign floor_correct [of ?B] by (simp_all add: u_def)
    moreover have "h = 1 / 2" using True by (simp add: assms(2))
    ultimately show ?thesis using A B unfolding abs_le_iff by linarith
  next
    case False
    then have "of_int u = - (of_int \<lfloor>- ?B\<rfloor> :: rat)" using sign by (simp add: u_def)
    moreover have "h = - (1 / 2)" using False by (simp add: assms(2))
    ultimately show ?thesis using A B floor_correct [of "- ?B"] unfolding abs_le_iff by linarith
  qed
  then have "of_int \<bar>u\<bar> < (of_int (2 ^ 53) :: rat)" using small(2) by (simp add: abs_if split: if_splits)
  then have "\<bar>u\<bar> < 2 ^ 53" by (simp only: of_int_less_iff)
  then have "- (2 ^ 63) \<le> u" "u < 2 ^ 63" by simp_all
  then have "t = u" using b by (simp add: t_def add int64_of_def u_def Let_def)
  with u show ?thesis by simp
qed

lemma round2_near:
  fixes r :: rat
  assumes "\<bar>r\<bar> \<le> 1000"
  shows "\<exists>n::int. round2 (Fin r) = Fin (round_f64 (of_int n / 100)) \<and> \<bar>of_int n / 100 - r\<bar> \<le> 1 / 200 + 1 / 10 ^ 12"
proof -
  define h :: rat where "h = (if r \<ge> 0 then 1 / 2 else - (1 / 2))"
  define t where "t = int64_of (f64_add (f64_mul (Fin r) (Fin 100)) (Fin h))"
  have t: "\<bar>of_int t - r * 100\<bar> \<le> 1 / 2 + 1 / 40000000000"
    unfolding t_def by (rule round2_half [OF assms h_def])
  then have bound: "\<bar>of_int t\<bar> \<le> (100001 :: rat)" using assms by (simp add: abs_if split: if_splits)
  then have "of_int \<bar>t\<bar> \<le> (of_int 100001 :: rat)" by simp
  then have "\<bar>t\<bar> \<le> 100001" by (simp only: of_int_le_iff)
  then have "\<bar>t\<bar> < 2 ^ 53" by simp
  from f64_of_int_exact [OF this] have "round2 (Fin r) = f64_div (Fin (of_int t)) (Fin 100)"
    by (cases "r \<ge> 0") (simp_all add: round2_def f64_nonneg_def h_def t_def)
  also have "\<dots> = f64_of_rat (t < 0) (of_int t / 100)" by (simp add: f64_steps(3))
  also have "\<dots> = Fin (round_f64 (of_int t / 100))"
  proof -
    have "t = 0 \<or> 1 \<le> \<bar>t\<bar>" by linarith
    then have "t = 0 \<or> (1::rat) \<le> \<bar>of_int t\<bar>" by (metis of_int_1_le_iff of_int_abs)
    then have "(of_int t / 100 :: rat) = 0 \<or> 1 / 1000 \<le> \<bar>of_int t / 100 :: rat\<bar>" by auto
    from round_f64_zero_iff [OF this] have zero: "round_f64 (of_int t / 100) = 0 \<longleftrightarrow> t = 0" by simp
    have "\<bar>of_int t / 100\<bar> \<le> (2 ^ 60 :: rat)" "\<bar>of_int t / 100\<bar> \<le> (100002 :: rat)" using bound by simp_all
    with f64_of_rat_value [of "of_int t / 100" "t < 0"] zero show ?thesis
      by (auto simp: f64_of_rat_def Let_def f64_inf_def f64_infinite_def split: if_splits)
  qed
  finally have "round2 (Fin r) = Fin (round_f64 (of_int t / 100))" .
  moreover have "\<bar>of_int t / 100 - r\<bar> \<le> 1 / 200 + 1 / 10 ^ 12" using t unfolding abs_le_iff by simp
  ultimately show ?thesis by blast
qed

text \<open>
  C34. Unless the precise-geography option is set, a coordinate of at most 1000 in size reaches an
  anonymous reader only coarsened: what is shown is the \<open>float64\<close> nearest to a whole number of
  hundredths, and this lies within half a hundredth of the true coordinate (about 550 metres), but for
  a millionth of a millionth, by which the rounding of the product and the sum may tip a tie.
\<close>

theorem public_coords_coarse:
  assumes "\<not> op_PreciseGeo opts" and "\<bar>lat\<bar> \<le> 1000" and "\<bar>lng\<bar> \<le> 1000"
  shows "\<exists>(m::int) (n::int) a b. publicCoords opts (Fin lat) (Fin lng) = (Fin a, Fin b) \<and>
    nearest_f64 a (of_int m / 100) \<and> \<bar>of_int m / 100 - lat\<bar> \<le> 1 / 200 + 1 / 10 ^ 12 \<and>
    nearest_f64 b (of_int n / 100) \<and> \<bar>of_int n / 100 - lng\<bar> \<le> 1 / 200 + 1 / 10 ^ 12"
proof -
  from round2_near [OF assms(2)] round2_near [OF assms(3)] obtain m n :: int where
    "round2 (Fin lat) = Fin (round_f64 (of_int m / 100))" "\<bar>of_int m / 100 - lat\<bar> \<le> 1 / 200 + 1 / 10 ^ 12"
    "round2 (Fin lng) = Fin (round_f64 (of_int n / 100))" "\<bar>of_int n / 100 - lng\<bar> \<le> 1 / 200 + 1 / 10 ^ 12"
    by blast
  with assms(1) round_f64_best show ?thesis by (auto simp: publicCoords_def)
qed

text \<open>At the \<open>float64\<close> of 1.115, which is below it, the steps give the \<open>float64\<close> of 1.12: the tie is tipped.\<close>

lemma round2_tie: "round2 (Fin (5021513584518103 / 2 ^ 52)) = Fin (1261007895663739 / 2 ^ 50)"
proof -
  let ?v = "5021513584518103 / 2 ^ 52 :: rat"
  have r: "round_f64 (?v * 100) = 223 / 2" "round_f64 (223 / 2 + 1 / 2) = 112" by code_simp+
  have "f64_mul (Fin ?v) (Fin 100) = Fin (223 / 2)"
    unfolding f64_steps(1) by (subst f64_of_rat_nonzero) (simp_all only: r, simp_all)
  moreover have "f64_add (Fin (223 / 2)) (Fin (1 / 2)) = Fin 112"
  proof -
    obtain neg where "f64_add (Fin (223 / 2)) (Fin (1 / 2)) = f64_of_rat neg (223 / 2 + 1 / 2)"
      using f64_steps(2) [of "Fin (223 / 2)" "1 / 2"] by (auto simp: f64_infinite_def f64_value_def)
    also have "\<dots> = Fin 112" by (subst f64_of_rat_nonzero) (simp_all only: r, simp_all)
    finally show ?thesis .
  qed
  moreover have "f64_of_int (int64_of (Fin 112)) = Fin 112"
    by (simp add: int64_of_def f64_infinite_def f64_value_def f64_of_int_exact)
  moreover have "f64_div (Fin 112) (Fin 100) = Fin (1261007895663739 / 2 ^ 50)"
    unfolding f64_steps(3) [OF numeral_neq_zero]
    by (subst f64_of_rat_nonzero) (simp_all only: round_f64_example(2), simp_all)
  ultimately show ?thesis by (simp add: round2_def f64_nonneg_def)
qed

theorem public_coords_coarse_witness:
  "\<exists>(m::int) a. round2 (Fin (5021513584518103 / 2 ^ 52)) = Fin a \<and> a = 1261007895663739 / 2 ^ 50 \<and>
     nearest_f64 a (of_int m / 100) \<and> \<bar>of_int m / 100 - 5021513584518103 / 2 ^ 52\<bar> \<le> (1 / 200 + 1 / 10 ^ 12 :: rat)"
proof -
  let ?opts = "\<lparr>op_PlaceholderJourney = False, op_PreciseGeo = False\<rparr>"
  have "\<bar>5021513584518103 / 2 ^ 52\<bar> \<le> (1000 :: rat)" "\<bar>- 32581 / 1000\<bar> \<le> (1000 :: rat)" by simp_all
  from public_coords_coarse [OF _ this, of ?opts] round2_tie show ?thesis
    by (auto simp: publicCoords_def)
qed

lemma sanitize_preview_free: "commercial_free (GMap (sanitizePreviewEntities opts preview))"
  unfolding sanitizePreviewEntities_def
  using commercial_free_strip [of "GMap preview"] by (intro redact_key_free) (simp add: the_map_def)

lemma sanitize_preview_safe:
  "list_all entry_safe (entities_of (mget (sanitizePreviewEntities opts preview) ''farmers''))"
  "list_all entry_safe (entities_of (mget (sanitizePreviewEntities opts preview) ''farms''))"
proof -
  have "list_all entry_safe (entities_of (map_option (redact_entities opts) v))" for v
    using redact_entities_safe [of opts] by (cases v) (simp_all add: entities_of_def)
  then show "list_all entry_safe (entities_of (mget (sanitizePreviewEntities opts preview) ''farmers''))"
    "list_all entry_safe (entities_of (mget (sanitizePreviewEntities opts preview) ''farms''))"
    by (simp_all add: sanitizePreviewEntities_def redact_key_lookup)
qed

text \<open>
  C35. A preview from the supply-chain service is sanitized before it is served: no commercial key
  is left at any depth of it, no farmer or farm it lists has a sensitive key, and outside these two
  lists a preview that had no commercial key is served as it came.
\<close>

theorem preview_sanitized:
  "commercial_free (GMap (sanitizePreviewEntities opts preview)) \<and>
   list_all entry_safe (entities_of (mget (sanitizePreviewEntities opts preview) ''farmers'')) \<and>
   list_all entry_safe (entities_of (mget (sanitizePreviewEntities opts preview) ''farms'')) \<and>
   (if commercial_free (GMap preview) \<and> k \<notin> {''farmers'', ''farms''}
    then mget (sanitizePreviewEntities opts preview) k = mget preview k else True)"
  using sanitize_preview_free sanitize_preview_safe strip_id [of "GMap preview"]
  by (auto simp: sanitizePreviewEntities_def redact_key_lookup the_map_def)

text \<open>
  The rules for a custody transfer, exactly: it is accepted if and only if it moves a lot or a
  batch, names both holders with more than white space, and states a finite quantity that is not
  negative (a negative zero is not); an event of any other type has no such rule.
\<close>

theorem validate_event_payload_exact:
  "ValidateEventPayload eventType entityType payload = Inr () \<longleftrightarrow>
    (if IsCustodyTransfer eventType
     then (entityType = ''lot'' \<or> entityType = ''batch'') \<and>
       (\<exists>s. mget payload ''from'' = Some (GStr s) \<and> TrimSpace s \<noteq> []) \<and>
       (\<exists>s. mget payload ''to'' = Some (GStr s) \<and> TrimSpace s \<noteq> []) \<and>
       (\<exists>q. numField payload ''quantity_kg'' = Some q \<and> f64_nonneg q \<and> q \<noteq> PosInf)
     else True)"
proof -
  have ends: "check_endpoints eventType payload keys = Inr () \<longleftrightarrow>
      (\<forall>k \<in> set keys. \<exists>s. mget payload k = Some (GStr s) \<and> TrimSpace s \<noteq> [])" for keys
    by (induction keys) (auto simp: as_str_def split: option.splits gval.splits)
  have quantity: "(case mget payload ''quantity_kg'' of None \<Rightarrow> Inl e | Some raw \<Rightarrow> check_quantity eventType raw) = Inr () \<longleftrightarrow>
      (\<exists>q. numField payload ''quantity_kg'' = Some q \<and> f64_nonneg q \<and> q \<noteq> PosInf)" for e
    by (auto simp: check_quantity_def numField_def f64_nonneg_def Let_def split: option.splits gval.splits f64.splits)
  show ?thesis
    using ends [of "[''from'', ''to'']"] quantity
    by (cases "check_endpoints eventType payload [''from'', ''to'']")
       (simp_all add: ValidateEventPayload_def del: check_endpoints.simps, auto simp del: check_endpoints.simps)
qed

section \<open>The composed journey\<close>

lemma first_by_key_spec:
  "distinct (map journey_key (first_by_key seen evs))"
  "journey_key ` set (first_by_key seen evs) = journey_key ` set evs - set seen"
  by (induction seen evs rule: first_by_key.induct) auto

lemma first_by_key_subset: "set (first_by_key seen evs) \<subseteq> set evs"
  by (induction seen evs rule: first_by_key.induct) auto

definition step_str :: "gmap \<Rightarrow> string \<Rightarrow> string" where
  "step_str st k = (case as_str (mget st k) of None \<Rightarrow> [] | Some s \<Rightarrow> s)"

definition step_key :: "gmap \<Rightarrow> string" where
  "step_key st = step_str st ''summary'' @ step_str st ''occurred_at''"

lemma step_str_journey [simp]:
  "step_str (journey_step ev) ''summary'' = te_event_type ev"
  "step_str (journey_step ev) ''occurred_at'' = journey_time ev"
  "step_key (journey_step ev) = journey_key ev"
  by (simp_all add: step_key_def step_str_def journey_step_def as_str_def journey_key_def)

text \<open>
  The journey an anonymous reader gets is in order of time and complete: every event is in it, an
  event type at a given second exactly once, and each step is the rendering of one of the events.
\<close>

theorem journey_complete_in_order:
  "sorted_wrt (\<lambda>a b. \<not> str_less (step_str b ''occurred_at'') (step_str a ''occurred_at'')) (composeJourney evs) \<and>
   distinct (map step_key (composeJourney evs)) \<and>
   step_key ` set (composeJourney evs) = journey_key ` set evs \<and>
   set (composeJourney evs) \<subseteq> journey_step ` set evs"
proof -
  let ?pairs = "map (\<lambda>ev. (journey_time ev, ev)) (first_by_key [] evs)"
  let ?sorted = "sort_by_key ?pairs"
  have time: "\<forall>x \<in> set ?sorted. fst x = journey_time (snd x)" by auto
  then have "sorted_wrt (\<lambda>a b. \<not> str_less (journey_time (snd b)) (journey_time (snd a))) ?sorted"
    using sort_by_key_sorted [of ?pairs] unfolding key_sorted_def by (auto elim!: sorted_wrt_mono_rel [rotated])
  then have "sorted_wrt (\<lambda>a b. \<not> str_less (step_str b ''occurred_at'') (step_str a ''occurred_at'')) (composeJourney evs)"
    by (simp add: composeJourney_def sorted_wrt_map)
  moreover have "mset (map step_key (composeJourney evs)) = mset (map journey_key (first_by_key [] evs))"
  proof -
    have "mset (map (journey_key \<circ> snd) ?sorted) = image_mset (journey_key \<circ> snd) (mset ?pairs)" by simp
    also have "\<dots> = mset (map journey_key (first_by_key [] evs))" by (simp add: image_mset.compositionality comp_def)
    finally show ?thesis by (simp add: composeJourney_def comp_def)
  qed
  then have "distinct (map step_key (composeJourney evs))" "set (map step_key (composeJourney evs)) = journey_key ` set evs"
    using first_by_key_spec [of "[]" evs] by (metis mset_eq_imp_distinct_iff, metis Diff_empty list.set_map mset_eq_setD empty_set)
  moreover have "set (composeJourney evs) \<subseteq> journey_step ` set evs"
    using first_by_key_subset [of "[]" evs] by (auto simp: composeJourney_def)
  ultimately show ?thesis by simp
qed

end
