(* ===== verification/Story.thy ===== *)
theory Story
  imports QrRegister EventBus ScmClient StoryRules
begin

text \<open>
  The public story of a lot: composed from the ledger, the entity projections and the supply-chain
  service (\<open>internal/story/compose.go\<close>), resolved for a scanned token and stored
  (\<open>internal/story/story.go\<close>), refreshed after an append (\<open>after_append.go\<close>), and the gate before a QR
  code is published (\<open>compliance.go\<close>).  The package variables \<open>scmFetcher\<close> and \<open>opts\<close> are a configuration.
\<close>

section \<open>Configuration\<close>

record StoryCfg =
  sc_scm :: "Client option"
  sc_net :: scm_net
  sc_opts :: Options

text \<open>\<open>x, _ := f()\<close>: the value, or the zero value when the call fails.\<close>

definition okC :: "('s, 'a) cmd \<Rightarrow> 'a \<Rightarrow> ('s, 'a) cmd" where
  "okC m d = handleC m (\<lambda>_. retC d) retC"

section \<open>Composition\<close>

definition lotStoryEventTypes :: "string list" where
  "lotStoryEventTypes = [''LOT_QR_PUBLISHED'', ''COA_ISSUED'', ''LAB_RESULT_RECORDED'', ''LOT_ASSEMBLED'',
     ''WET_MILL_STARTED'', ''WET_MILL_COMPLETE'', ''DRYING_STARTED'', ''DRYING_COMPLETE'', ''DRY_MILL_COMPLETE'',
     ''SAMPLE_SUBMITTED'', ''CHERRY_RECEIVED'', ''STAGE_CHANGED'']"

definition AffectsLotStory :: "string \<Rightarrow> bool" where
  "AffectsLotStory mappedType \<longleftrightarrow> mappedType \<in> set lotStoryEventTypes"

definition ApplyStoryOverride :: "gmap \<Rightarrow> override_row option \<Rightarrow> gmap" where
  "ApplyStoryOverride story ov = (case ov of None \<Rightarrow> story
     | Some o' \<Rightarrow>
        let s1 = (case ov_story_title o' of None \<Rightarrow> story | Some t \<Rightarrow> mput ''story_title'' (GStr t) story)
        in (case ov_story_body o' of None \<Rightarrow> s1 | Some b \<Rightarrow> mput ''story_body'' (GStr b) s1))"

definition applyStoredOverride :: "string \<Rightarrow> gmap \<Rightarrow> ('z db_scheme, gmap) cmd" where
  "applyStoredOverride lot story = bindC (GetStoryOverride lot) (\<lambda>ov. retC (ApplyStoryOverride story ov))"

definition story_standards :: "string list" where
  "story_standards = [''ISO 22005:2007'', ''GS1 EPCIS 2.0'', ''EU Reg. 2023/1115'', ''SCA Protocol'']"

definition base_story :: "string \<Rightarrow> string \<Rightarrow> gmap" where
  "base_story lot publicURL = [(''brand'', GStr ''IAG Africa Coffee Park''), (''public_url'', GStr publicURL),
     (''standards'', GStrs story_standards), (''product'', GMap [(''origin_country'', GStr ''Uganda'')]),
     (''lot'', GMap [(''business_id'', GStr lot)])]"

definition export_lot_map :: "ExportLot \<Rightarrow> gmap" where
  "export_lot_map l = [(''business_id'', GStr (el_BusinessID l)), (''destination'', GStr (el_Destination l)),
       (''batch_ids'', GStrs (el_BatchIDs l))] @
     (case el_CoaNumber l of None \<Rightarrow> [] | Some c \<Rightarrow> [(''coa_number'', GStr c)])"

text \<open>Events of a batch join the list unless one with the same id is already there.\<close>

definition add_unseen :: "TraceEvent list \<Rightarrow> TraceEvent list \<Rightarrow> TraceEvent list" where
  "add_unseen evs new = foldl (\<lambda>acc ev. if te_id ev \<in> te_id ` set acc then acc else acc @ [ev]) evs new"

fun batch_events :: "string list \<Rightarrow> TraceEvent list \<Rightarrow> ('z db_scheme, TraceEvent list) cmd" where
  "batch_events [] evs = retC evs"
| "batch_events (bid # bids) evs =
     bindC (okC (ListEventsForEntity ''batch'' bid 50) []) (\<lambda>new. batch_events bids (add_unseen evs new))"

definition farm_id :: "TraceEvent \<Rightarrow> string" where
  "farm_id ev = (if te_entity_type ev = ''farm'' then te_entity_business_id ev
     else case strMapField (te_related_ids ev) ''farm_business_id'' of Some i \<Rightarrow> i | None \<Rightarrow> [])"

definition party_id :: "TraceEvent \<Rightarrow> string" where
  "party_id ev = (let p = (if te_entity_type ev = ''party'' then te_entity_business_id ev else []) in
     if p \<noteq> [] then p
     else case strMapField (te_related_ids ev) ''party_business_id'' of Some i \<Rightarrow> i
       | None \<Rightarrow> (case strMapField (te_related_ids ev) ''farmer_business_id'' of Some i \<Rightarrow> i | None \<Rightarrow> []))"

text \<open>A farm without a projection is left out; a farmer without one is listed by id.\<close>

fun farms_loop :: "Options \<Rightarrow> string list \<Rightarrow> TraceEvent list \<Rightarrow> ('z db_scheme, gmap list) cmd" where
  "farms_loop opts seen [] = retC []"
| "farms_loop opts seen (ev # evs) =
     (if farm_id ev = [] \<or> farm_id ev \<in> set seen then farms_loop opts seen evs
      else handleC (GetEntityProjection ''farm'' (farm_id ev))
        (\<lambda>_. farms_loop opts (farm_id ev # seen) evs)
        (\<lambda>proj. bindC (farms_loop opts (farm_id ev # seen) evs) (\<lambda>fs. retC
           (redactPublicEntity opts (mmerge [(''business_id'', GStr (farm_id ev))] proj) # fs))))"

fun farmers_loop :: "Options \<Rightarrow> string list \<Rightarrow> TraceEvent list \<Rightarrow> ('z db_scheme, gmap list) cmd" where
  "farmers_loop opts seen [] = retC []"
| "farmers_loop opts seen (ev # evs) =
     (if party_id ev = [] \<or> party_id ev \<in> set seen then farmers_loop opts seen evs
      else bindC (okC (GetEntityProjection ''party'' (party_id ev)) []) (\<lambda>proj.
        bindC (farmers_loop opts (party_id ev # seen) evs) (\<lambda>fs. retC
           (redactPublicEntity opts (mmerge [(''business_id'', GStr (party_id ev))] proj) # fs))))"

definition put_entities :: "string \<Rightarrow> gmap list \<Rightarrow> gmap \<Rightarrow> gmap" where
  "put_entities key es story = (if es = [] then story else mput key (GMaps es) story)"

definition enrichFarmsFromProjections :: "Options \<Rightarrow> TraceEvent list \<Rightarrow> gmap \<Rightarrow> ('z db_scheme, gmap) cmd" where
  "enrichFarmsFromProjections opts evs story =
     bindC (farms_loop opts [] evs) (\<lambda>fs. retC (put_entities ''farms'' fs story))"

definition enrichFarmersFromProjections :: "Options \<Rightarrow> TraceEvent list \<Rightarrow> gmap \<Rightarrow> ('z db_scheme, gmap) cmd" where
  "enrichFarmersFromProjections opts evs story =
     bindC (farmers_loop opts [] evs) (\<lambda>fs. retC (put_entities ''farmers'' fs story))"

definition put_num :: "gmap \<Rightarrow> string \<Rightarrow> gmap \<Rightarrow> gmap" where
  "put_num data k product = (case numField data k of None \<Rightarrow> product | Some v \<Rightarrow> mput k (GFloat v) product)"

definition put_str :: "gmap \<Rightarrow> string \<Rightarrow> gmap \<Rightarrow> gmap" where
  "put_str data k product = (case strMapField data k of None \<Rightarrow> product | Some v \<Rightarrow> mput k (GStr v) product)"

definition product_of_event :: "TraceEvent \<Rightarrow> gmap \<Rightarrow> gmap" where
  "product_of_event ev product =
     (if te_event_type ev \<noteq> ''LAB_RESULT_RECORDED'' \<and> te_event_type ev \<noteq> ''qc.lab.result_recorded'' then product
      else let data = te_payload ev in
        put_str data ''origin_region'' (put_str data ''grade'' (put_num data ''cup_score'' (put_num data ''moisture'' product))))"

definition enrichProductFromEvents :: "TraceEvent list \<Rightarrow> gmap \<Rightarrow> gmap" where
  "enrichProductFromEvents evs story =
     (let product = (case as_map (mget story ''product'') of Some p \<Rightarrow> p | None \<Rightarrow> [(''origin_country'', GStr ''Uganda'')])
      in mput ''product'' (GMap (fold product_of_event evs product)) story)"

definition compose_from_events :: "StoryCfg \<Rightarrow> string \<Rightarrow> gmap \<Rightarrow> ('z db_scheme, gmap) cmd" where
  "compose_from_events cfg lot story =
     bindC (okC (ListEventsForEntity ''lot'' lot 100) []) (\<lambda>own.
     bindC (batch_events (case as_map (mget story ''lot'') of Some m \<Rightarrow> batchIDsFromLot (mget m ''batch_ids'') | None \<Rightarrow> []) own) (\<lambda>evs.
       let j = composeJourney evs;
           journey = (if j = [] \<and> op_PlaceholderJourney (sc_opts cfg) then defaultJourney else j);
           story1 = mput ''journey'' (GMaps journey) story
       in bindC (enrichFarmsFromProjections (sc_opts cfg) evs story1) (\<lambda>story2.
          bindC (enrichFarmersFromProjections (sc_opts cfg) evs story2) (\<lambda>story3.
            retC (enrichProductFromEvents evs story3)))))"

definition composeLotProjection :: "StoryCfg \<Rightarrow> string \<Rightarrow> string \<Rightarrow> ('z db_scheme, gmap) cmd" where
  "composeLotProjection cfg lot publicURL =
     (let story = base_story lot publicURL in
      if Client_Enabled (sc_scm cfg) then
        (case GetQRPreview (sc_net cfg) (sc_scm cfg) lot of
           Inr (Some preview) \<Rightarrow> retC (sanitizePreviewEntities (sc_opts cfg) preview)
         | _ \<Rightarrow> compose_from_events cfg lot
             (case GetExportLot (sc_net cfg) (sc_scm cfg) lot of
                Inr l \<Rightarrow> mput ''lot'' (GMap (export_lot_map l)) story | Inl _ \<Rightarrow> story))
      else compose_from_events cfg lot story)"

definition RebuildLotProjection :: "StoryCfg \<Rightarrow> string \<Rightarrow> string \<Rightarrow> ('z db_scheme, gmap) cmd" where
  "RebuildLotProjection cfg lot publicURL =
     bindC (composeLotProjection cfg lot publicURL) (applyStoredOverride lot)"

definition RebuildStoredLot :: "ext \<Rightarrow> StoryCfg \<Rightarrow> string \<Rightarrow> string \<Rightarrow> ('z db_scheme, bool) cmd" where
  "RebuildStoredLot X cfg lot publicURL =
     bindC (RebuildLotProjection cfg lot publicURL) (\<lambda>composed.
     bindC (UpsertStoryProjection X lot (Some composed)) (\<lambda>_. retC True))"

section \<open>Public payload\<close>

record PublicPayload =
  pp_Brand :: string
  pp_LotID :: string
  pp_Journey :: "gval list option"
  pp_Standards :: "string list"
  pp_PublicURL :: string
  pp_Story :: gmap
  pp_Status :: string

definition ComposeAndStoreLotStory :: "ext \<Rightarrow> StoryCfg \<Rightarrow> string \<Rightarrow> string \<Rightarrow> ('z db_scheme, unit) cmd" where
  "ComposeAndStoreLotStory X cfg lot publicURL =
     bindC (okC (RebuildLotProjection cfg lot publicURL) [(''lot_business_id'', GStr lot)]) (\<lambda>composed.
       UpsertStoryProjection X lot (Some
         (mput ''public_url'' (GStr publicURL) (mput ''status'' (GStr ''published'') (mput ''lot_business_id'' (GStr lot) composed)))))"

text \<open>Where the story comes from: composed now, the stored projection, or a placeholder.\<close>

definition story_source :: "StoryCfg \<Rightarrow> string \<Rightarrow> string \<Rightarrow> ('z db_scheme, gmap \<times> gval list option \<times> string) cmd" where
  "story_source cfg lot publicURL =
     handleC (RebuildLotProjection cfg lot publicURL)
       (\<lambda>_. handleC (GetStoryProjection lot)
          (\<lambda>_. retC ([(''lot_business_id'', GStr lot), (''message'', GStr (''Story pending for lot '' @ lot))], None, ''pending''))
          (\<lambda>cached. retC (cached, None, ''projected'')))
       (\<lambda>composed. retC (composed,
          (case mget composed ''journey'' of Some (GMaps j) \<Rightarrow> Some (map GMap j) | _ \<Rightarrow> None), ''composed''))"

definition resolvePublicQR :: "StoryCfg \<Rightarrow> string \<Rightarrow> string \<Rightarrow> bool \<Rightarrow> ('z db_scheme, PublicPayload) cmd" where
  "resolvePublicQR cfg token baseURL countScan =
     bindC (GetLotQRByToken token) (\<lambda>qr.
     bindC (if countScan then ignoreC (IncrementScanCount token) else retC ()) (\<lambda>_.
       let lot = lq_LotBusinessID qr; publicURL = baseURL @ ''/'' @ token in
       bindC (story_source cfg lot publicURL) (\<lambda>(story, journey, status).
       bindC (okC (applyStoredOverride lot story) story) (\<lambda>final.
         retC \<lparr>pp_Brand = ''IAG Africa Coffee Park'', pp_LotID = lot, pp_Journey = journey,
           pp_Standards = story_standards, pp_PublicURL = publicURL, pp_Story = final, pp_Status = status\<rparr>))))"

definition ResolvePublicQR :: "StoryCfg \<Rightarrow> string \<Rightarrow> string \<Rightarrow> ('z db_scheme, PublicPayload) cmd" where
  "ResolvePublicQR cfg token baseURL = resolvePublicQR cfg token baseURL True"

definition ResolvePublicQRNoCount :: "StoryCfg \<Rightarrow> string \<Rightarrow> string \<Rightarrow> ('z db_scheme, PublicPayload) cmd" where
  "ResolvePublicQRNoCount cfg token baseURL = resolvePublicQR cfg token baseURL False"

section \<open>After an append, and the publish gate\<close>

definition story_lot :: "string \<Rightarrow> string \<Rightarrow> gmap \<Rightarrow> string" where
  "story_lot entityType entityBusinessID related =
     (if entityType = ''lot'' then entityBusinessID
      else case as_str (mget related ''lot_business_id'') of Some v \<Rightarrow> v | None \<Rightarrow> [])"

definition AfterAppend :: "ext \<Rightarrow> StoryCfg \<Rightarrow> string \<Rightarrow> string \<Rightarrow> string \<Rightarrow> gmap \<Rightarrow> ('z db_scheme, unit) cmd" where
  "AfterAppend X cfg eventType entityType entityBusinessID related =
     (if \<not> AffectsLotStory eventType then retC ()
      else let lot = story_lot entityType entityBusinessID related in
        if lot = [] then retC ()
        else handleC (RebuildStoredLot X cfg lot []) (\<lambda>_. retC ())
          (\<lambda>ok. if ok then ignoreC (bindC (LotStoryUpdatedRow X lot) EnqueueOutbox) else retC ()))"

fun is_context_error :: "err \<Rightarrow> bool" where
  "is_context_error ErrContext = True"
| "is_context_error (ErrWrap _ e) = is_context_error e"
| "is_context_error _ = False"

definition isSCMTransportError :: "err \<Rightarrow> bool" where
  "isSCMTransportError e \<longleftrightarrow> is_context_error e \<or>
     (let msg = ToLower (err_text e) in
      Contains msg ''connection refused'' \<or> Contains msg ''timeout'' \<or> Contains msg ''deadline exceeded'' \<or>
      Contains msg ''no such host'' \<or> Contains msg ''scm 5'' \<or> Contains msg ''scm 502'' \<or> Contains msg ''scm 503'')"

definition ValidateLotPublish :: "ext \<Rightarrow> StoryCfg \<Rightarrow> string \<Rightarrow> ('z db_scheme, unit) cmd" where
  "ValidateLotPublish X cfg lot =
     (if Client_Enabled (sc_scm cfg) then
        (case Client_ValidateLotPublish (sc_net cfg) (sc_scm cfg) lot of
           Inl e \<Rightarrow> failC (if isSCMTransportError e then ErrComplianceGateUnavailable else e)
         | Inr _ \<Rightarrow> retC ())
      else bindC (LotHasCOA X lot) (\<lambda>has. if has then retC () else failC ErrCoARequired))"

section \<open>Lemmas\<close>

lemma keeps_okC [keeps_intros]: "keeps P m \<Longrightarrow> keeps P (okC m d)"
  unfolding okC_def by (intro keeps_intros)

lemma keeps_row_or_notfound [keeps_intros]: "keeps P (row_or_notfound r)"
  unfolding row_or_notfound_def by (intro keeps_intros)

text \<open>Composing and resolving only read: they keep whatever depends on the tables alone.\<close>

lemma reads_queries [keeps_intros]:
  assumes "tables_only P"
  shows "keeps P (ListEventsForEntity t b n)" "keeps P (GetEntityProjection t b)" "keeps P (GetStoryOverride b)"
    "keeps P (GetStoryProjection b)" "keeps P (GetLotQRByToken b)" "keeps P (LotHasCOA X b)"
  unfolding ListEventsForEntity_def listEvents_def ListEvents_def GetEntityProjection_def GetStoryOverride_def
    GetStoryProjection_def GetLotQRByToken_def LotHasCOA_def
  by (intro keeps_intros assms)+

lemma reads_batch_events [keeps_intros]: "tables_only P \<Longrightarrow> keeps P (batch_events bids evs)"
  by (induction bids arbitrary: evs) (auto intro!: keeps_intros)

lemma reads_farms [keeps_intros]: "tables_only P \<Longrightarrow> keeps P (farms_loop opts seen evs)"
  by (induction evs arbitrary: seen) (auto intro!: keeps_intros)

lemma reads_farmers [keeps_intros]: "tables_only P \<Longrightarrow> keeps P (farmers_loop opts seen evs)"
  by (induction evs arbitrary: seen) (auto intro!: keeps_intros)

lemma reads_rebuild [keeps_intros]:
  assumes "tables_only P"
  shows "keeps P (RebuildLotProjection cfg lot url)" "keeps P (applyStoredOverride lot st)"
proof -
  show ov: "keeps P (applyStoredOverride lot st)" for st
    unfolding applyStoredOverride_def by (intro keeps_intros assms)
  have "keeps P (compose_from_events cfg lot st)" for st
    unfolding compose_from_events_def enrichFarmsFromProjections_def enrichFarmersFromProjections_def Let_def
    by (intro keeps_intros assms)
  then have "keeps P (composeLotProjection cfg lot url)"
    unfolding composeLotProjection_def Let_def by (intro keeps_intros) auto
  with ov show "keeps P (RebuildLotProjection cfg lot url)"
    unfolding RebuildLotProjection_def by (intro keeps_intros)
qed

text \<open>Whatever farmers and farms a composed story has are redacted.\<close>

definition story_safe :: "gmap \<Rightarrow> bool" where
  "story_safe story \<longleftrightarrow> list_all entry_safe (entities_of (mget story ''farmers'')) \<and>
     list_all entry_safe (entities_of (mget story ''farms''))"

lemma story_safe_mput: "story_safe story \<Longrightarrow> k \<noteq> ''farmers'' \<Longrightarrow> k \<noteq> ''farms'' \<Longrightarrow> story_safe (mput k v story)"
  by (simp add: story_safe_def AList.update_conv')

lemma story_safe_put_entities:
  "story_safe story \<Longrightarrow> list_all entry_safe es \<Longrightarrow> k = ''farmers'' \<or> k = ''farms'' \<Longrightarrow> story_safe (put_entities k es story)"
  by (auto simp: put_entities_def story_safe_def AList.update_conv' entities_of_def)

lemma story_safe_override: "story_safe story \<Longrightarrow> story_safe (ApplyStoryOverride story ov)"
  by (auto simp: ApplyStoryOverride_def Let_def story_safe_mput split: option.split)

lemma farms_loop_safe: "farms_loop opts seen evs s = (Inr fs, s') \<Longrightarrow> list_all entry_safe fs"
proof (induction evs arbitrary: seen s fs s')
  case (Cons ev evs)
  from Cons.prems show ?case
    by (auto simp: handleC_def bindC_Inr_iff retC_def redact_safe dest: Cons.IH split: if_splits prod.splits sum.splits)
qed (simp add: retC_def)

lemma farmers_loop_safe: "farmers_loop opts seen evs s = (Inr fs, s') \<Longrightarrow> list_all entry_safe fs"
proof (induction evs arbitrary: seen s fs s')
  case (Cons ev evs)
  from Cons.prems show ?case
    by (auto simp: bindC_Inr_iff retC_def redact_safe dest: Cons.IH split: if_splits)
qed (simp add: retC_def)

lemma story_safe_product: "story_safe story \<Longrightarrow> story_safe (enrichProductFromEvents evs story)"
  by (simp add: enrichProductFromEvents_def Let_def story_safe_mput)

lemma compose_from_events_safe:
  "compose_from_events cfg lot story s = (Inr st, s') \<Longrightarrow> story_safe story \<Longrightarrow> story_safe st"
  by (auto simp: compose_from_events_def Let_def bindC_Inr_iff enrichFarmsFromProjections_def
      enrichFarmersFromProjections_def retC_def dest!: farms_loop_safe farmers_loop_safe
      intro!: story_safe_product story_safe_put_entities story_safe_mput)

lemma compose_safe:
  assumes "composeLotProjection cfg lot url s = (Inr c, s')"
  shows "story_safe c"
proof -
  have base: "story_safe (base_story lot url)" by (simp add: story_safe_def base_story_def entities_of_def)
  then have lot: "story_safe (case r of Inr l \<Rightarrow> mput ''lot'' (GMap (export_lot_map l)) (base_story lot url)
      | Inl _ \<Rightarrow> base_story lot url)" for r
    by (cases r) (simp_all add: story_safe_mput)
  consider (preview) p where "c = sanitizePreviewEntities (sc_opts cfg) p"
    | (export) "compose_from_events cfg lot (case GetExportLot (sc_net cfg) (sc_scm cfg) lot of
          Inr l \<Rightarrow> mput ''lot'' (GMap (export_lot_map l)) (base_story lot url) | Inl _ \<Rightarrow> base_story lot url) s = (Inr c, s')"
    | (plain) "compose_from_events cfg lot (base_story lot url) s = (Inr c, s')"
    using assms unfolding composeLotProjection_def Let_def
    by (cases "GetQRPreview (sc_net cfg) (sc_scm cfg) lot")
       (auto simp: retC_def split: if_splits option.splits)
  then show ?thesis
  proof cases
    case (preview p)
    then show ?thesis using sanitize_preview_safe [of "sc_opts cfg" p] by (simp add: story_safe_def)
  qed (use compose_from_events_safe lot base in blast)+
qed

lemma rebuild_safe: "RebuildLotProjection cfg lot url s = (Inr st, s') \<Longrightarrow> story_safe st"
  by (auto simp: RebuildLotProjection_def applyStoredOverride_def bindC_Inr_iff retC_def
      intro!: story_safe_override dest: compose_safe)

section \<open>A scan\<close>

lemma okC_total: "\<exists>a. fst (okC m d s) = Inr a"
  by (auto simp: okC_def handleC_def retC_def split: prod.split sum.split)

lemma story_source_total: "\<exists>a. fst (story_source cfg lot url s) = Inr a"
  by (auto simp: story_source_def handleC_def retC_def split: prod.split sum.split)

lemma story_source_safe:
  "story_source cfg lot url s = (Inr (story, journey, ''composed''), s') \<Longrightarrow> story_safe story"
  by (auto simp: story_source_def handleC_def retC_def dest: rebuild_safe split: prod.splits sum.splits)

lemma reads_story_source [keeps_intros]: "tables_only P \<Longrightarrow> keeps P (story_source cfg lot url)"
  unfolding story_source_def by (intro keeps_intros) auto

text \<open>
  What a scan may change: the clock, the script and the id supply move, and, when it counts, the rows
  with its token have one scan more and a new time of update; nothing else in any table.
\<close>

definition counted_row :: "string \<Rightarrow> int \<Rightarrow> qr_row \<Rightarrow> qr_row" where
  "counted_row token t r = (if qr_public_token r = token
     then r\<lparr>qr_scan_count := qr_scan_count r + 1, qr_updated_at := t\<rparr> else r)"

definition scan_effect :: "bool \<Rightarrow> string \<Rightarrow> 'z db_scheme \<Rightarrow> 'z db_scheme \<Rightarrow> bool" where
  "scan_effect cnt token s s' \<longleftrightarrow>
     ticks s (s'\<lparr>lot_qr_codes := lot_qr_codes s\<rparr>) \<and>
     (lot_qr_codes s' = lot_qr_codes s \<or>
      cnt \<and> (\<exists>t. lot_qr_codes s' = map (counted_row token t) (lot_qr_codes s)))"

lemma tables_only_scan: "tables_only (scan_effect cnt token s)"
  unfolding tables_only_def
proof (intro allI impI)
  fix t :: "'a db_scheme" and sc u n assume n: "fresh_id t \<le> n" and e: "scan_effect cnt token s t"
  let ?t = "t\<lparr>script := sc, now_us := u, fresh_id := n\<rparr>"
  have "?t\<lparr>lot_qr_codes := lot_qr_codes s\<rparr> = (t\<lparr>lot_qr_codes := lot_qr_codes s\<rparr>)\<lparr>script := sc, now_us := u, fresh_id := n\<rparr>"
    by simp
  moreover have "ticks (t\<lparr>lot_qr_codes := lot_qr_codes s\<rparr>) \<dots>" using n by (simp add: ticks_def)
  moreover have "ticks s (t\<lparr>lot_qr_codes := lot_qr_codes s\<rparr>)" using e by (simp add: scan_effect_def)
  ultimately have "ticks s (?t\<lparr>lot_qr_codes := lot_qr_codes s\<rparr>)" by (metis ticks_trans)
  then show "scan_effect cnt token s ?t" using e by (simp add: scan_effect_def)
qed

lemma scan_effect_refl: "scan_effect cnt token s s"
  by (simp add: scan_effect_def)

lemma increment_effect:
  assumes "increment_sql token s = Inr (u, s')"
  shows "scan_effect True token s s'"
  using assms by (auto simp: increment_sql_def scan_effect_def counted_row_def split: if_splits)

lemma scan_resolve:
  assumes "scan_effect cnt token s s'"
  shows "resolve_token s' = resolve_token s"
proof -
  have "map_option qr_lot_business_id (find (\<lambda>r. qr_public_token r = t \<and> qr_revoked_at r = None) (map (counted_row token u) rows)) =
      map_option qr_lot_business_id (find (\<lambda>r. qr_public_token r = t \<and> qr_revoked_at r = None) rows)" for t u rows
    by (induction rows) (auto simp: counted_row_def)
  with assms show ?thesis by (auto simp: scan_effect_def resolve_token_def active_by_def fun_eq_iff)
qed

lemma ticks_scan:
  assumes "ticks s t" and "scan_effect c token t u"
  shows "scan_effect c token s u"
proof -
  have "lot_qr_codes t = lot_qr_codes s" using ticks_db [OF assms(1)] by simp
  with assms(2) ticks_trans [OF assms(1)] show ?thesis by (auto simp: scan_effect_def)
qed

lemma count_effect:
  "scan_effect cnt token s (snd ((if cnt then ignoreC (IncrementScanCount token) else retC ()) s))"
proof (cases cnt)
  case True
  have "scan_effect True token s (snd (IncrementScanCount token s))"
    using ticks_scan [OF ticks_step_io scan_effect_refl] ticks_scan [OF ticks_step_io increment_effect]
    by (auto simp: IncrementScanCount_def execC_def Let_def split: io.split sum.split)
  with True show ?thesis by (simp add: ignoreC_snd)
qed (simp add: retC_def scan_effect_refl)

section \<open>Properties\<close>

text \<open>
  C18. A scan of a QR code, under any behaviour of the database and the supply-chain service: it is
  answered exactly when the token could be looked up and is live, and then for the lot the token
  belongs to; a story composed now shows no sensitive field of a farmer or a farm; and the scan
  changes no table at all but, when it counts, the row of its own token, which gets at most one scan
  more and a new time of update.
\<close>

theorem public_scan_safe:
  assumes "resolvePublicQR cfg token baseURL cnt s = (res, s')"
  shows "scan_effect cnt token s s' \<and>
    (case res of
       Inr p \<Rightarrow> next_io s = IoOk \<and> resolve_token s token = Some (pp_LotID p) \<and>
         (pp_Status p = ''composed'' \<longrightarrow> story_safe (pp_Story p))
     | Inl e \<Rightarrow> next_io s \<noteq> IoOk \<or> resolve_token s token = None)"
proof -
  obtain r t where get: "GetLotQRByToken token s = (r, t)" by (cases "GetLotQRByToken token s")
  have r: "r = (if next_io s \<noteq> IoOk then Inl ErrDB
      else case active_by (\<lambda>r. qr_public_token r = token) s of None \<Rightarrow> Inl ErrNotFound | Some q \<Rightarrow> Inr (to_LotQR q))"
    and t: "t = step_io s"
    using get by (auto simp: GetLotQRByToken_def bindC_def handleC_def queryC_def row_or_notfound_def retC_def failC_def
        active_by_def split: option.splits if_splits)
  show ?thesis
  proof (cases r)
    case (Inl e)
    then have "s' = t" "res = Inl e" using assms get by (auto simp: resolvePublicQR_def bindC_def handleC_def failC_def)
    with Inl r t show ?thesis
      by (auto simp: resolve_token_def intro: ticks_scan [OF ticks_step_io] scan_effect_refl split: if_splits option.splits)
  next
    case (Inr q)
    let ?lot = "lq_LotBusinessID q" and ?url = "baseURL @ ''/'' @ token"
    have q: "next_io s = IoOk" "resolve_token s token = Some ?lot"
      using Inr r by (auto simp: resolve_token_def to_LotQR_def split: if_splits option.splits)
    define u where "u = snd ((if cnt then ignoreC (IncrementScanCount token) else retC ()) t)"
    have cnt: "(if cnt then ignoreC (IncrementScanCount token) else retC ()) t = (Inr (), u)"
      by (simp add: u_def ignoreC_snd retC_def prod_eq_iff)
    obtain story journey status v where src: "story_source cfg ?lot ?url u = (Inr (story, journey, status), v)"
      using story_source_total [of cfg ?lot ?url u] by (metis prod.collapse surj_pair)
    obtain final w where fin: "okC (applyStoredOverride ?lot story) story v = (Inr final, w)"
      using okC_total [of "applyStoredOverride ?lot story" story v] by (metis prod.collapse)
    have res: "s' = w" "\<exists>p. res = Inr p \<and> pp_LotID p = ?lot \<and> pp_Status p = status \<and> pp_Story p = final"
      using assms get Inr cnt src fin
      by (auto simp: resolvePublicQR_def bindC_def handleC_def Let_def retC_def)
    have "scan_effect cnt token s u" unfolding u_def t by (rule ticks_scan [OF ticks_step_io count_effect])
    then have "scan_effect cnt token s v"
      using keepsD [OF reads_story_source [OF tables_only_scan]] src by (metis snd_conv)
    then have "scan_effect cnt token s w"
      using keepsD [OF keeps_okC [OF reads_rebuild(2) [OF tables_only_scan]]] fin by (metis snd_conv)
    moreover have "story_safe final" if "status = ''composed''"
    proof -
      have "story_safe story" using src that story_source_safe by simp
      with fin show ?thesis
        by (auto simp: okC_def handleC_def applyStoredOverride_def retC_def bindC_def failC_def story_safe_override
            split: prod.splits sum.splits)
    qed
    ultimately show ?thesis using res q by auto
  qed
qed

definition sample_cfg :: StoryCfg where
  "sample_cfg = \<lparr>sc_scm = None, sc_net = \<lparr>sn_authorize = Inr (), sn_get = (\<lambda>_. Inl ErrContext)\<rparr>,
     sc_opts = \<lparr>op_PlaceholderJourney = True, op_PreciseGeo = False\<rparr>\<rparr>"

theorem public_scan_safe_witness:
  "\<exists>p s'. resolvePublicQR sample_cfg ''t1'' ''https://trace'' True sample_qr = (Inr p, s') \<and>
     pp_LotID p = ''L-1'' \<and> scan_effect True ''t1'' sample_qr s' \<and> event_outbox s' = event_outbox sample_qr"
proof -
  obtain res s' where run: "resolvePublicQR sample_cfg ''t1'' ''https://trace'' True sample_qr = (res, s')"
    by (meson surj_pair)
  have "resolve_token sample_qr ''t1'' = Some ''L-1''"
    by (simp add: resolve_token_def active_by_def sample_qr_def empty_db_def)
  with public_scan_safe [OF run] run sample_qr_ok(3) show ?thesis
    by (auto simp: scan_effect_def dest!: ticks_db(9) split: sum.splits)
qed

text \<open>
  C36. The publish gate is exact and fails closed: it lets a lot pass if and only if the supply-chain
  service, when one is configured, answered its gate with a status below 400, or otherwise the ledger
  could be read and has a certificate of analysis for the lot.  It never writes.
\<close>

theorem publish_gate_exact:
  "(fst (ValidateLotPublish X cfg lot s) = Inr () \<longleftrightarrow>
     (if Client_Enabled (sc_scm cfg)
      then \<exists>r. authorized_get (sc_net cfg) (sc_scm cfg) (''/api/v1/export-lots/'' @ lot @ ''/publish-gate'') = Inr r \<and>
             hr_StatusCode r < 400
      else next_io s = IoOk \<and> list_ex (coa_row X lot) (trace_events s))) \<and>
   ticks s (snd (ValidateLotPublish X cfg lot s))"
proof (cases "Client_Enabled (sc_scm cfg)")
  case True
  then show ?thesis
    using gate_passes_iff [of "sc_net cfg" "sc_scm cfg" lot]
    by (auto simp: ValidateLotPublish_def failC_def retC_def split: sum.split)
next
  case False
  then show ?thesis
    by (auto simp: ValidateLotPublish_def bindC_def handleC_def LotHasCOA_def queryC_def failC_def retC_def)
qed

end
