(* ===== verification/EventSink.thy ===== *)
theory EventSink
  imports CustodyChain Story
begin

text \<open>
  What the writers of the ledger (the Kafka consumer, the supply-chain sync) rely on: appending keeps
  the store well-formed, an append that answers has its event under its idempotency key, and no event
  is ever lost.  The interface is a locale, interpreted on \<open>AppendEvent\<close>; the loops of the writers are
  proved once inside it.
\<close>

section \<open>The interface\<close>

locale event_sink =
  fixes inv :: "'s \<Rightarrow> bool" and stored :: "'k \<Rightarrow> 's \<Rightarrow> bool"
    and put :: "'e \<Rightarrow> ('s, 'r) cmd" and key :: "'e \<Rightarrow> 'k" and good :: "'e \<Rightarrow> bool"
  assumes put_inv: "good e \<Longrightarrow> keeps inv (put e)"
    and put_stores: "put e s = (Inr r, s') \<Longrightarrow> stored (key e) s'"
    and put_keeps: "keeps (stored k) (put e)"
begin

lemma put_all_stored:
  assumes "\<And>k e r. keeps (stored k) (after e r)"
    and "forC es (\<lambda>e. bindC (put e) (after e)) s = (Inr (), s')" and "e \<in> set es"
  shows "stored (key e) s'"
  using assms(2,3)
proof (induction es arbitrary: s)
  case (Cons d es)
  from Cons.prems(1) obtain r t u where run: "put d s = (Inr r, t)" "after d r t = (Inr (), u)"
      "forC es (\<lambda>e. bindC (put e) (after e)) u = (Inr (), s')"
    by (auto simp: bindC_Inr_iff)
  have "keeps (stored (key d)) (forC es (\<lambda>e. bindC (put e) (after e)))"
    by (intro keeps_forC keeps_bindC put_keeps assms(1))
  moreover have "stored (key d) u"
    using keepsD [OF assms(1) put_stores [OF run(1)], of d r] run(2) by simp
  ultimately have "stored (key d) s'"
    using keepsD [of "stored (key d)" "forC es (\<lambda>e. bindC (put e) (after e))" u] run(3) by simp
  with Cons run(3) show ?case by auto
qed simp

lemma put_all_inv:
  assumes "\<And>e r. keeps inv (after e r)" and "\<And>e. e \<in> set es \<Longrightarrow> good e"
  shows "keeps inv (forC es (\<lambda>e. bindC (put e) (after e)))"
  using assms by (intro keeps_forC keeps_bindC put_inv) auto

end

section \<open>The ledger as a sink\<close>

fun keyed :: "string option \<Rightarrow> 'z db_scheme \<Rightarrow> bool" where
  "keyed None s = True"
| "keyed (Some k) s = list_ex (\<lambda>r. te_idempotency_key r = Some k) (trace_events s)"

lemma keyed_iff: "keyed k s \<longleftrightarrow> k = None \<or> (\<exists>r \<in> set (trace_events s). te_idempotency_key r = k)"
  by (cases k) (auto simp: list_ex_iff)

lemma keyed_cong: "trace_events s' = trace_events s \<Longrightarrow> keyed k s' = keyed k s"
  by (simp add: keyed_iff)

lemma tables_only_keyed: "tables_only (keyed k)"
  by (simp add: tables_only_def keyed_iff)

text \<open>Of all tables an append changes only the ledger and the chain, and it only adds to the ledger.\<close>

definition appends_only :: "'z db_scheme \<Rightarrow> 'z db_scheme \<Rightarrow> bool" where
  "appends_only s s' \<longleftrightarrow> (\<exists>later. trace_events s' = trace_events s @ later) \<and>
     kafka_dedupe s' = kafka_dedupe s \<and> event_outbox s' = event_outbox s \<and> lot_qr_codes s' = lot_qr_codes s \<and>
     scm_sync_state s' = scm_sync_state s"

lemma ticks_appends_only: "ticks s s' \<Longrightarrow> appends_only s s'"
  using ticks_db [of s s'] by (simp add: appends_only_def)

lemma AppendEvent_appends_only: "appends_only s (snd (AppendEvent X ce i s))"
proof (cases "ce \<and> EqualFold (in_EntityType i) ''batch''")
  case True
  let ?i = "append_defaults (now_us s) i"
  have eq: "AppendEvent X ce i s = appendEventChained X ?i s" using True by (simp add: AppendEvent_batch)
  show ?thesis
  proof (cases rule: appendEventChained_effect [of s X ?i, case_names same grown])
    case same
    then show ?thesis by (simp add: eq ticks_appends_only)
  next
    case (grown r rel t pay s1 s')
    show ?thesis
      using ticks_db [OF grown(4)] ticks_db [OF grown(6)] ticks_db [OF grown(8)] grown(7)
      by (auto simp: appends_only_def eq insert_chain_sql_Inr)
  qed
next
  case False
  let ?i = "append_defaults (now_us s) i"
  have ins: "appends_only (step_io s) s'" if "insert_event_sql X ?i (step_io s) = Inr (ev, s')" for ev s'
    using that by (cases rule: insert_event_sql_Inr) (simp_all add: appends_only_def)
  then have "appends_only s s'" if "insert_event_sql X ?i (step_io s) = Inr (ev, s')" for ev s'
    using that by (fastforce simp: appends_only_def)
  with ticks_appends_only [OF ticks_step_io, of s] show ?thesis
    by (auto simp: AppendEvent_plain [OF False] execC_def Let_def split: io.split sum.split)
qed

lemma AppendEvent_frame [simp]:
  "kafka_dedupe (snd (AppendEvent X ce i s)) = kafka_dedupe s"
  "event_outbox (snd (AppendEvent X ce i s)) = event_outbox s"
  "lot_qr_codes (snd (AppendEvent X ce i s)) = lot_qr_codes s"
  "scm_sync_state (snd (AppendEvent X ce i s)) = scm_sync_state s"
  using AppendEvent_appends_only [of s X ce i] by (simp_all add: appends_only_def)

lemma keeps_keyed_AppendEvent: "keeps (keyed k) (AppendEvent X ce i)"
proof (rule keepsI)
  fix s :: "'a db_scheme" assume "keyed k s"
  with AppendEvent_appends_only [of s X ce i] show "keyed k (snd (AppendEvent X ce i s))"
    by (auto simp: keyed_iff appends_only_def)
qed

interpretation sink: event_sink "store_ok X" keyed "AppendEvent X ce" in_IdempotencyKey
    "\<lambda>i. jsonb_stable X (or_empty (in_Payload i))" for X ce
proof unfold_locales
  show "keyed (in_IdempotencyKey i) s'" if run: "AppendEvent X ce i s = (Inr ev, s')" for i s ev s'
  proof (cases "in_IdempotencyKey i")
    case (Some k)
    from AppendEvent_stored(1) [OF run Some] obtain r where
      "find (\<lambda>r. te_idempotency_key r = Some k) (trace_events s') = Some r" by blast
    with find_Some_set show ?thesis by (fastforce simp: Some list_ex_iff)
  qed simp
qed (rule keeps_AppendEvent keeps_keyed_AppendEvent; assumption?)+

section \<open>Writers that leave the ledger alone\<close>

text \<open>
  The side tables are the projections, the outbox and the dead letters.  A predicate that does not look
  at them survives every write to them.
\<close>

definition same_main :: "'z db_scheme \<Rightarrow> 'z db_scheme \<Rightarrow> bool" where
  "same_main s s' \<longleftrightarrow> trace_events s' = trace_events s \<and> custody_chain s' = custody_chain s \<and>
     anchor_batches s' = anchor_batches s \<and> lot_qr_codes s' = lot_qr_codes s \<and> kafka_dedupe s' = kafka_dedupe s \<and>
     scm_sync_state s' = scm_sync_state s \<and> fresh_id s \<le> fresh_id s'"

definition main_pred :: "('z db_scheme \<Rightarrow> bool) \<Rightarrow> bool" where
  "main_pred P \<longleftrightarrow> (\<forall>s s'. same_main s s' \<longrightarrow> P s \<longrightarrow> P s')"

lemma main_predD: "main_pred P \<Longrightarrow> P s \<Longrightarrow> same_main s s' \<Longrightarrow> P s'"
  by (auto simp: main_pred_def)

lemma main_pred_tables:
  assumes "main_pred P"
  shows "tables_only P"
  unfolding tables_only_def
proof (intro allI impI)
  fix s :: "'a db_scheme" and sc t n assume "fresh_id s \<le> n" "P s"
  then show "P (s\<lparr>script := sc, now_us := t, fresh_id := n\<rparr>)"
    by (intro main_predD [OF assms \<open>P s\<close>]) (simp add: same_main_def)
qed

lemma main_pred_conj: "main_pred P \<Longrightarrow> main_pred Q \<Longrightarrow> main_pred (\<lambda>s. P s \<and> Q s)"
  by (auto simp: main_pred_def)

lemma main_pred_store_ok: "main_pred (store_ok X)"
proof -
  have "ledger_ok s'" if "same_main s s'" "ledger_ok s" for s s' :: "'a db_scheme"
    using that by (auto simp: same_main_def ledger_ok_def intro: order_less_le_trans)
  moreover have "chain_ok X s'" if "same_main s s'" "chain_ok X s" for s s' :: "'a db_scheme"
    using that by (simp add: chain_ok_def same_main_def)
  ultimately show ?thesis by (auto simp: main_pred_def store_ok_def)
qed

lemma main_pred_keyed: "main_pred (keyed k)"
  by (simp add: main_pred_def keyed_iff same_main_def)

lemma keeps_side_writes [keeps_intros]:
  assumes "main_pred P"
  shows "keeps P (UpsertStoryProjection X lot p)" "keeps P (UpsertEntityProjection X t b p)"
    "keeps P (EnqueueOutbox row)" "keeps P (LotStoryUpdatedRow X lot)"
proof -
  show "keeps P (UpsertStoryProjection X lot p)" "keeps P (UpsertEntityProjection X t b p)" "keeps P (EnqueueOutbox row)"
    unfolding UpsertStoryProjection_def UpsertEntityProjection_def EnqueueOutbox_def enqueueOutbox_def
    by (rule keeps_execC [OF main_pred_tables [OF assms]],
        erule main_predD [OF assms]; force simp: same_main_def enqueue_sql_def split: option.splits)+
  show "keeps P (LotStoryUpdatedRow X lot)"
    unfolding LotStoryUpdatedRow_def NewEnvelope_def
    by (rule keepsI, erule main_predD [OF assms]) (simp add: same_main_def bindC_def handleC_def retC_def)
qed

text \<open>Refreshing a story never touches what the ledger says.\<close>

lemma keeps_AfterAppend [keeps_intros]:
  assumes "main_pred P"
  shows "keeps P (AfterAppend X cfg t e b rel)"
  unfolding AfterAppend_def RebuildStoredLot_def Let_def
  by (intro keeps_intros main_pred_tables [OF assms] assms)

end
