(* ===== verification/ScmSync.thy ===== *)
theory ScmSync
  imports EventSink
begin

text \<open>
  \<open>internal/scmsync\<close>: the copy of the supply-chain service's custody events and QR codes into this
  service, page by page from a stored mark, under a lock that keeps one process syncing at a time.
  The result a run counts up through a pointer is part of the state.  What a run sees of the other side
  is an argument: the source tables, which do not change during a run and may change in any way between
  runs, and whether another session holds the lock.
\<close>

section \<open>State\<close>

record scmEvent =
  se_scmID :: string
  se_createdAt :: int
  se_occurredAt :: int
  se_eventType :: string
  se_entityType :: string
  se_businessID :: "string option"
  se_entityID :: "string option"
  se_related :: "gmap option"
  se_payload :: "gmap option"

record scm_qr =
  sq_lot :: string
  sq_token :: string
  sq_version :: int
  sq_published :: "int option"
  sq_revoked :: "int option"
  sq_scans :: int

text \<open>\<open>Result\<close> is filled while a run goes on and is saved even when it fails.\<close>

record Result =
  rs_Full :: bool
  rs_Scanned :: nat
  rs_Copied :: nat
  rs_Existing :: nat
  rs_Skipped :: nat
  rs_QRCopied :: nat

record sync = bus +
  sync_res :: Result

record source =
  src_events :: "scmEvent list"     \<comment> \<open>rows of \<open>public.trace_events\<close> with the business id resolved\<close>
  src_qrs :: "scm_qr list"          \<comment> \<open>\<open>public.lot_qr_codes\<close> joined to \<open>public.export_lots\<close>\<close>
  src_locked :: bool                \<comment> \<open>another session holds the advisory lock\<close>

record Syncer =
  sy_PageSize :: int
  sy_MaxPerTick :: int
  sy_Window :: int                        \<comment> \<open>microseconds\<close>
  sy_FullEvery :: nat
  sy_chain :: bool
  sy_story :: StoryCfg

definition Syncer_New :: "bool \<Rightarrow> StoryCfg \<Rightarrow> Syncer" where
  "Syncer_New ch cfg = \<lparr>sy_PageSize = 500, sy_MaxPerTick = 5000, sy_Window = 600000000, sy_FullEvery = 60,
     sy_chain = ch, sy_story = cfg\<rparr>"

definition SourceService :: string where
  "SourceService = ''iag-supply-chain-migration''"

definition IdempotencyPrefix :: string where
  "IdempotencyPrefix = ''scm-migrate:''"

definition modify_res :: "(Result \<Rightarrow> Result) \<Rightarrow> ('z sync_scheme, unit) cmd" where
  "modify_res f = modifyC (\<lambda>s. s\<lparr>sync_res := f (sync_res s)\<rparr>)"

section \<open>The mark\<close>

record mark =
  mk_createdAt :: int
  mk_id :: string

definition mark_after :: "mark \<Rightarrow> mark \<Rightarrow> bool" where
  "mark_after m o' \<longleftrightarrow> mk_createdAt o' < mk_createdAt m \<or>
     mk_createdAt m = mk_createdAt o' \<and> str_less (mk_id o') (mk_id m)"

definition row_mark :: "scmEvent \<Rightarrow> mark" where
  "row_mark e = \<lparr>mk_createdAt = se_createdAt e, mk_id = se_scmID e\<rparr>"

definition sync_window :: "Syncer \<Rightarrow> int" where
  "sync_window y = (if sy_Window y \<le> 0 then 600000000 else sy_Window y)"

definition loadMark :: "('z db_scheme, mark \<times> bool) cmd" where
  "loadMark = handleC
     (queryC (\<lambda>s. case scm_sync_state s of None \<Rightarrow> None
        | Some r \<Rightarrow> map_option (\<lambda>t. \<lparr>mk_createdAt = t, mk_id = sy_last_scm_id r\<rparr>) (sy_last_created_at r)))
     (\<lambda>e. failC (ErrWrap ''load sync mark'' e))
     (\<lambda>m. case m of None \<Rightarrow> retC (\<lparr>mk_createdAt = zero_time, mk_id = []\<rparr>, False) | Some k \<Rightarrow> retC (k, True))"

definition no_sync_state :: sync_state_row where
  "no_sync_state = \<lparr>sy_last_created_at = None, sy_last_scm_id = [], sy_last_run_at = None, sy_last_copied = 0, sy_last_error = []\<rparr>"

definition sync_state :: "'z db_scheme \<Rightarrow> sync_state_row" where
  "sync_state s = (case scm_sync_state s of None \<Rightarrow> no_sync_state | Some r \<Rightarrow> r)"

definition saveMark :: "mark \<Rightarrow> ('z db_scheme, unit) cmd" where
  "saveMark m = execC (\<lambda>s. Inr ((), s\<lparr>scm_sync_state :=
     Some ((sync_state s)\<lparr>sy_last_created_at := Some (mk_createdAt m), sy_last_scm_id := mk_id m\<rparr>)\<rparr>))"

text \<open>\<open>_, _ = Exec\<close>: a failure to record the run is dropped.\<close>

definition saveRun :: "err option \<Rightarrow> ('z sync_scheme, unit) cmd" where
  "saveRun runErr = ignoreC (execC (\<lambda>s. Inr ((), s\<lparr>scm_sync_state :=
     Some ((sync_state s)\<lparr>sy_last_run_at := Some (now_us s), sy_last_copied := int (rs_Copied (sync_res s)),
       sy_last_error := (case runErr of None \<Rightarrow> [] | Some e \<Rightarrow> err_text e)\<rparr>)\<rparr>)))"

section \<open>Reading pages\<close>

text \<open>Order by \<open>(created_at, id)\<close>; ids are compared byte-wise, as \<open>mark.after\<close> compares them.\<close>

fun insert_row :: "scmEvent \<Rightarrow> scmEvent list \<Rightarrow> scmEvent list" where
  "insert_row e [] = [e]"
| "insert_row e (d # ds) = (if mark_after (row_mark e) (row_mark d) then d # insert_row e ds else e # d # ds)"

definition sort_rows :: "scmEvent list \<Rightarrow> scmEvent list" where
  "sort_rows es = foldr insert_row es []"

definition rows_after :: "mark option \<Rightarrow> scmEvent list \<Rightarrow> scmEvent list" where
  "rows_after start es = sort_rows (case start of None \<Rightarrow> es | Some m \<Rightarrow> filter (\<lambda>e. mark_after (row_mark e) m) es)"

definition page_of :: "mark option \<Rightarrow> nat \<Rightarrow> scmEvent list \<Rightarrow> scmEvent list" where
  "page_of start limit es = take limit (rows_after start es)"

definition readPage :: "source \<Rightarrow> mark option \<Rightarrow> nat \<Rightarrow> ('z db_scheme, scmEvent list) cmd" where
  "readPage src start limit =
     wrapC ''read public.trace_events'' (queryC (\<lambda>_. page_of start limit (src_events src)))"

section \<open>Copying a page\<close>

definition scm_key :: "scmEvent \<Rightarrow> string" where
  "scm_key e = IdempotencyPrefix @ se_scmID e"

definition existing_keys :: "scmEvent list \<Rightarrow> 'z db_scheme \<Rightarrow> string list" where
  "existing_keys page s = filter (\<lambda>k. keyed (Some k) s) (map scm_key page)"

text \<open>The first loop: what is already there or has no business id is counted and left out.\<close>

definition is_existing :: "string list \<Rightarrow> scmEvent \<Rightarrow> bool" where
  "is_existing have e \<longleftrightarrow> scm_key e \<in> set have"

definition is_unresolved :: "scmEvent \<Rightarrow> bool" where
  "is_unresolved e \<longleftrightarrow> se_businessID e = None \<or> se_businessID e = Some []"

text \<open>\<open>sort.SliceStable\<close> by occurrence, then id.\<close>

definition occurs_before :: "scmEvent \<Rightarrow> scmEvent \<Rightarrow> bool" where
  "occurs_before a b \<longleftrightarrow> (if se_occurredAt a \<noteq> se_occurredAt b then se_occurredAt a < se_occurredAt b
     else str_less (se_scmID a) (se_scmID b))"

fun insert_todo :: "scmEvent \<Rightarrow> scmEvent list \<Rightarrow> scmEvent list" where
  "insert_todo e [] = [e]"
| "insert_todo e (d # ds) = (if occurs_before d e then d # insert_todo e ds else e # d # ds)"

definition sort_todo :: "scmEvent list \<Rightarrow> scmEvent list" where
  "sort_todo es = foldr insert_todo es []"

definition scm_input :: "ext \<Rightarrow> scmEvent \<Rightarrow> AppendEventInput" where
  "scm_input X e = \<lparr>in_OccurredAt = se_occurredAt e, in_EventType = se_eventType e, in_EntityType = se_entityType e,
     in_EntityBusinessID = (case se_businessID e of Some b \<Rightarrow> b | None \<Rightarrow> []),
     in_EntityID = Option.bind (se_entityID e) (x_uuid_parse X), in_RelatedIDs = se_related e, in_ActorUserID = None,
     in_SourceService = SourceService, in_Payload = se_payload e, in_IdempotencyKey = Some (scm_key e)\<rparr>"

definition put_scm :: "ext \<Rightarrow> Syncer \<Rightarrow> scmEvent \<Rightarrow> ('z db_scheme, TraceEvent) cmd" where
  "put_scm X y e = wrapC (''append scm event '' @ se_scmID e) (AppendEvent X (sy_chain y) (scm_input X e))"

definition after_copy :: "ext \<Rightarrow> Syncer \<Rightarrow> scmEvent \<Rightarrow> TraceEvent \<Rightarrow> ('z sync_scheme, unit) cmd" where
  "after_copy X y e ev =
     (if \<not> ev_Inserted ev then modify_res (\<lambda>r. r\<lparr>rs_Existing := rs_Existing r + 1\<rparr>)
      else bindC (modify_res (\<lambda>r. r\<lparr>rs_Copied := rs_Copied r + 1\<rparr>))
        (\<lambda>_. AfterAppend X (sy_story y) (te_event_type ev) (te_entity_type ev) (te_entity_business_id ev) (te_related_ids ev)))"

definition copyPage :: "ext \<Rightarrow> Syncer \<Rightarrow> scmEvent list \<Rightarrow> ('z sync_scheme, unit) cmd" where
  "copyPage X y page =
     (if page = [] then retC ()
      else bindC (wrapC ''existing keys'' (queryC (existing_keys page))) (\<lambda>have.
        let fresh = filter (\<lambda>e. \<not> is_existing have e) page;
            todo = sort_todo (filter (\<lambda>e. \<not> is_unresolved e) fresh)
        in bindC (modify_res (\<lambda>r. r\<lparr>rs_Existing := rs_Existing r + length (filter (is_existing have) page),
                rs_Skipped := rs_Skipped r + length (filter is_unresolved fresh)\<rparr>)) (\<lambda>_.
           forC todo (\<lambda>e. bindC (put_scm X y e) (after_copy X y e)))))"

section \<open>QR codes\<close>

definition insert_qr_sql :: "scm_qr \<Rightarrow> 'z db_scheme \<Rightarrow> err + (nat \<times> 'z db_scheme)" where
  "insert_qr_sql q s =
     (if list_ex (\<lambda>r. qr_lot_business_id r = sq_lot q \<or> qr_public_token r = sq_token q) (lot_qr_codes s) then Inr (0, s)
      else Inr (1, s\<lparr>lot_qr_codes := lot_qr_codes s @ [\<lparr>qr_lot_business_id = sq_lot q, qr_public_token = sq_token q,
             qr_version = sq_version q, qr_published_at = sq_published q, qr_revoked_at = sq_revoked q,
             qr_scan_count = sq_scans q, qr_created_at = now_us s, qr_updated_at = now_us s\<rparr>]\<rparr>))"

text \<open>\<open>res.QRCopied = n\<close> also when a later insert fails.\<close>

definition copy_qr :: "scm_qr \<Rightarrow> ('z sync_scheme, unit) cmd" where
  "copy_qr q = bindC (wrapC (''insert qr '' @ sq_lot q) (execC (insert_qr_sql q)))
     (\<lambda>n. modify_res (\<lambda>r. r\<lparr>rs_QRCopied := rs_QRCopied r + n\<rparr>))"

definition copyQRCodes :: "source \<Rightarrow> ('z sync_scheme, unit) cmd" where
  "copyQRCodes src = bindC (wrapC ''read public.lot_qr_codes'' (queryC (\<lambda>_. src_qrs src))) (\<lambda>qs. forC qs copy_qr)"

section \<open>A run\<close>

definition raise_mark :: "scmEvent list \<Rightarrow> mark \<times> bool \<Rightarrow> mark \<times> bool" where
  "raise_mark page hm = foldl (\<lambda>(high, hasMark) e.
     if \<not> hasMark \<or> mark_after (row_mark e) high then (row_mark e, True) else (high, hasMark)) hm page"

definition page_size :: "Syncer \<Rightarrow> nat" where
  "page_size y = (if sy_PageSize y \<le> 0 then 500 else nat (sy_PageSize y))"

text \<open>\<open>mark_after\<close> is a strict order, and pages come in its order; so the page loop moves forward.\<close>

lemma mark_after_trans: "mark_after a b \<Longrightarrow> mark_after b c \<Longrightarrow> mark_after a c"
  by (auto simp: mark_after_def intro: str_less_trans)

lemma mark_after_irrefl [simp]: "\<not> mark_after a a"
  by (simp add: mark_after_def)

lemma mark_after_total: "\<not> mark_after a b \<Longrightarrow> \<not> mark_after b a \<Longrightarrow> a = b"
  by (cases a; cases b) (auto simp: mark_after_def dest: str_less_total)

definition in_order :: "scmEvent list \<Rightarrow> bool" where
  "in_order es = sorted_wrt (\<lambda>a b. \<not> mark_after (row_mark a) (row_mark b)) es"

lemma mset_sort_rows [simp]: "mset (sort_rows es) = mset es"
proof -
  have "mset (insert_row e ds) = add_mset e (mset ds)" for e ds by (induction ds) simp_all
  then show ?thesis by (induction es) (simp_all add: sort_rows_def)
qed

lemma set_sort_rows [simp]: "set (sort_rows es) = set es"
  by (metis mset_sort_rows set_mset_mset)

lemma length_sort_rows [simp]: "length (sort_rows es) = length es"
  by (metis mset_sort_rows size_mset)

lemma sort_rows_in_order: "in_order (sort_rows es)"
proof -
  have set: "set (insert_row e ds) = insert e (set ds)" for e ds by (induction ds) auto
  have "in_order (insert_row e ds)" if "in_order ds" for e ds
    using that
  proof (induction ds)
    case (Cons d ds)
    show ?case
    proof (cases "mark_after (row_mark e) (row_mark d)")
      case True
      then have "\<not> mark_after (row_mark d) (row_mark e)" using mark_after_trans mark_after_irrefl by blast
      with True Cons show ?thesis by (auto simp: in_order_def set)
    next
      case False
      have "\<not> mark_after (row_mark e) (row_mark x)" if "\<not> mark_after (row_mark d) (row_mark x)" for x
        using that False mark_after_trans [of "row_mark e" "row_mark x" "row_mark d"] mark_after_total [of "row_mark d" "row_mark x"]
        by (cases "mark_after (row_mark x) (row_mark d)") auto
      with False Cons.prems show ?thesis by (auto simp: in_order_def)
    qed
  qed (simp add: in_order_def)
  then show ?thesis by (induction es) (simp_all add: sort_rows_def, simp add: in_order_def)
qed

text \<open>The rows after the last one of a full page are the rest, so fewer.\<close>

definition after_from :: "mark option \<Rightarrow> scmEvent \<Rightarrow> bool" where
  "after_from start e \<longleftrightarrow> (case start of None \<Rightarrow> True | Some m \<Rightarrow> mark_after (row_mark e) m)"

lemma after_from_Some: "after_from (Some m) = (\<lambda>e. mark_after (row_mark e) m)"
  by (simp add: after_from_def fun_eq_iff)

lemma rows_after_filter: "rows_after start es = sort_rows (filter (after_from start) es)"
proof (cases start)
  case None
  then show ?thesis by (simp add: rows_after_def after_from_def)
next
  case (Some m)
  then show ?thesis by (simp add: rows_after_def after_from_Some)
qed

lemma page_advances:
  assumes "length (page_of start n es) = n" and "n > 0"
  shows "length (rows_after (Some (row_mark (last (page_of start n es)))) es) + n \<le> length (rows_after start es)"
    and "\<forall>e \<in> set es. after_from start e \<longrightarrow>
          e \<in> set (page_of start n es) \<or> after_from (Some (row_mark (last (page_of start n es)))) e \<or>
          row_mark e = row_mark (last (page_of start n es))"
proof -
  let ?rs = "rows_after start es" and ?m = "row_mark (last (page_of start n es))"
  let ?p = "page_of start n es"
  have split: "?rs = ?p @ drop n ?rs" by (simp add: page_of_def)
  have ne: "?p \<noteq> []" using assms by auto
  have ord: "in_order (?p @ drop n ?rs)" using split sort_rows_in_order by (metis rows_after_filter)
  have le: "\<not> mark_after (row_mark x) ?m" if "x \<in> set ?p" for x
  proof -
    from ord have "in_order ?p" by (simp add: in_order_def sorted_wrt_append)
    with ne have "in_order (butlast ?p @ [last ?p])" by simp
    moreover from that ne have "x \<in> set (butlast ?p) \<or> x = last ?p" by (metis append_butlast_last_id in_set_conv_decomp set_ConsD Un_iff set_append empty_iff list.set(1))
    ultimately show ?thesis by (auto simp: in_order_def sorted_wrt_append)
  qed
  have from_m: "after_from start (last ?p)"
  proof -
    have "last ?p \<in> set ?rs" using ne by (metis in_set_takeD last_in_set page_of_def)
    then show ?thesis by (simp add: rows_after_filter)
  qed
  have imp: "after_from start e" if "after_from (Some ?m) e" for e
    using that from_m mark_after_trans by (cases start) (auto simp: after_from_def)
  have "mset (filter (after_from (Some ?m)) es) = filter_mset (after_from (Some ?m)) (mset ?rs)"
    by (simp add: rows_after_filter filter_filter_mset) (metis (mono_tags, lifting) filter_cong imp mset_filter)
  also have "\<dots> = filter_mset (after_from (Some ?m)) (mset (drop n ?rs))"
    using le by (subst split) (auto simp: after_from_def)
  finally have "length (filter (after_from (Some ?m)) es) \<le> length (drop n ?rs)"
    by (metis size_filter_mset_lesseq size_mset)
  moreover have "n \<le> length ?rs" using assms by (simp add: page_of_def)
  ultimately show "length (rows_after (Some ?m) es) + n \<le> length ?rs" by (simp add: rows_after_filter)
  show "\<forall>e \<in> set es. after_from start e \<longrightarrow> e \<in> set ?p \<or> after_from (Some ?m) e \<or> row_mark e = ?m"
  proof (intro ballI impI)
    fix e assume "e \<in> set es" "after_from start e"
    then have "e \<in> set ?rs" by (simp add: rows_after_filter)
    then have "e \<in> set ?p \<or> e \<in> set (drop n ?rs)" by (metis Un_iff set_append split)
    moreover have "\<not> mark_after ?m (row_mark e)" if "e \<in> set (drop n ?rs)"
      using that ord ne by (auto simp: in_order_def sorted_wrt_append)
    ultimately show "e \<in> set ?p \<or> after_from (Some ?m) e \<or> row_mark e = ?m"
      using mark_after_total by (fastforce simp: after_from_def)
  qed
qed

function page_loop :: "ext \<Rightarrow> Syncer \<Rightarrow> source \<Rightarrow> bool \<Rightarrow> mark option \<Rightarrow> mark \<times> bool \<Rightarrow> ('z sync_scheme, unit) cmd" where
  "page_loop X y src full start hm =
     (let page = page_of start (page_size y) (src_events src); hm' = raise_mark page hm in
      bindC (readPage src start (page_size y)) (\<lambda>_.
      bindC (modify_res (\<lambda>r. r\<lparr>rs_Scanned := rs_Scanned r + length page\<rparr>)) (\<lambda>_.
      bindC (copyPage X y page) (\<lambda>_.
      bindC (if page = [] then retC () else saveMark (fst hm')) (\<lambda>_.
      bindC (getC (\<lambda>s. rs_Scanned (sync_res s))) (\<lambda>scanned.
        if length page < page_size y \<or> \<not> full \<and> sy_MaxPerTick y > 0 \<and> int scanned \<ge> sy_MaxPerTick y then retC ()
        else page_loop X y src full (Some (row_mark (last page))) hm'))))))"
  by pat_completeness auto
termination
proof (relation "measure (\<lambda>(X, y, src, full, start, hm). length (rows_after start (src_events src)))", simp, goal_cases)
  case (1 X y src full start hm page hm')
  then have "length (page_of start (page_size y) (src_events src)) = page_size y" "page_size y > 0"
    by (auto simp: page_of_def page_size_def)
  with page_advances(1) [OF this] 1 show ?case by simp
qed

declare page_loop.simps [simp del]

definition sync_run :: "ext \<Rightarrow> Syncer \<Rightarrow> source \<Rightarrow> bool \<Rightarrow> ('z sync_scheme, unit) cmd" where
  "sync_run X y src full' =
     bindC loadMark (\<lambda>(cur, hasMark).
       let full = (full' \<or> \<not> hasMark) in
       bindC (modify_res (\<lambda>r. r\<lparr>rs_Full := full\<rparr>)) (\<lambda>_.
       bindC (page_loop X y src full
           (if full then None else Some \<lparr>mk_createdAt = mk_createdAt cur - sync_window y, mk_id = []\<rparr>) (cur, hasMark)) (\<lambda>_.
         copyQRCodes src)))"

definition empty_result :: "bool \<Rightarrow> Result" where
  "empty_result full = \<lparr>rs_Full = full, rs_Scanned = 0, rs_Copied = 0, rs_Existing = 0, rs_Skipped = 0, rs_QRCopied = 0\<rparr>"

text \<open>\<open>Run\<close> returns the result beside the error; here the result is left in the state.\<close>

definition Sync_Run :: "ext \<Rightarrow> Syncer \<Rightarrow> source \<Rightarrow> bool \<Rightarrow> ('z sync_scheme, unit) cmd" where
  "Sync_Run X y src full =
     bindC (modify_res (\<lambda>_. empty_result full)) (\<lambda>_.
     bindC (queryC (\<lambda>_. ())) (\<lambda>_.
     bindC (wrapC ''sync lock'' (queryC (\<lambda>_. \<not> src_locked src))) (\<lambda>got.
       if \<not> got then failC ErrLocked
       else handleC (sync_run X y src full)
         (\<lambda>e. bindC (saveRun (Some e)) (\<lambda>_. bindC (ignoreC (queryC (\<lambda>_. ()))) (\<lambda>_. failC e)))
         (\<lambda>_. bindC (saveRun None) (\<lambda>_. ignoreC (queryC (\<lambda>_. ())))))))"

text \<open>\<open>Tick\<close> number \<open>n\<close> (counted from 0) of the loop.\<close>

definition Tick :: "ext \<Rightarrow> Syncer \<Rightarrow> source \<Rightarrow> nat \<Rightarrow> ('z sync_scheme, unit) cmd" where
  "Tick X y src n = Sync_Run X y src (n = 0 \<or> sy_FullEvery y > 0 \<and> n mod sy_FullEvery y = 0)"

text \<open>\<open>Loop\<close>: one tick per state of the source; the error of a tick is dropped.\<close>

fun sync_loop :: "ext \<Rightarrow> Syncer \<Rightarrow> nat \<Rightarrow> source list \<Rightarrow> ('z sync_scheme, unit) cmd" where
  "sync_loop X y n [] = retC ()"
| "sync_loop X y n (src # srcs) = bindC (ignoreC (Tick X y src n)) (\<lambda>_. sync_loop X y (Suc n) srcs)"

section \<open>Lemmas\<close>

lemma keeps_modify_res [keeps_intros]: "main_pred P \<Longrightarrow> keeps P (modify_res f)"
  unfolding modify_res_def by (rule keepsI) (auto simp: modifyC_def same_main_def elim!: main_predD)

lemma keeps_after_copy [keeps_intros]: "main_pred P \<Longrightarrow> keeps P (after_copy X y e ev)"
  unfolding after_copy_def by (intro keeps_intros)

interpretation scm: event_sink "store_ok X" keyed "put_scm X y" "\<lambda>e. Some (scm_key e)"
    "\<lambda>e. jsonb_stable X (or_empty (se_payload e))" for X y
proof unfold_locales
  show "keyed (Some (scm_key e)) s'" if run: "put_scm X y e s = (Inr ev, s')" for e s ev s'
  proof -
    from run have "AppendEvent X (sy_chain y) (scm_input X e) s = (Inr ev, s')" by (simp add: put_scm_def wrapC_Inr_iff)
    from sink.put_stores [OF this] show ?thesis by (simp add: scm_input_def)
  qed
  show "keeps (store_ok X) (put_scm X y e)" if "jsonb_stable X (or_empty (se_payload e))" for e
    using that unfolding put_scm_def by (intro keeps_intros sink.put_inv) (simp add: scm_input_def)
  show "keeps (keyed k) (put_scm X y e)" for k e
    unfolding put_scm_def by (intro keeps_intros keeps_keyed_AppendEvent)
qed

lemma set_sort_todo [simp]: "set (sort_todo es) = set es"
proof -
  have "set (insert_todo e ds) = insert e (set ds)" for e ds by (induction ds) auto
  then show ?thesis by (induction es) (simp_all add: sort_todo_def)
qed

lemma keeps_copyPage:
  assumes "main_pred P" and "\<And>e. e \<in> set page \<Longrightarrow> keeps P (put_scm X y e)"
  shows "keeps P (copyPage X y page)"
  unfolding copyPage_def Let_def
  by (intro keeps_intros assms(1) main_pred_tables [OF assms(1)] assms(2)) auto

lemma copyPage_keyed:
  assumes "copyPage X y page s = (Inr (), s')" and "e \<in> set page" and "\<not> is_unresolved e"
  shows "keyed (Some (scm_key e)) s'"
proof -
  define have' where "have' = existing_keys page (step_io s)"
  define todo where "todo = sort_todo (filter (\<lambda>e. \<not> is_unresolved e) (filter (\<lambda>e. \<not> is_existing have' e) page))"
  have "page \<noteq> []" using assms(2) by auto
  with assms(1) obtain t where t: "forC todo (\<lambda>e. bindC (put_scm X y e) (after_copy X y e)) t = (Inr (), s')"
      and same: "trace_events t = trace_events s"
    by (auto simp: copyPage_def Let_def bindC_Inr_iff wrapC_Inr_iff queryC_Inr_iff modify_res_def modifyC_def
        have'_def todo_def)
  show ?thesis
  proof (cases "is_existing have' e")
    case True
    then have "keyed (Some (scm_key e)) t" by (auto simp: is_existing_def have'_def existing_keys_def same list_ex_iff)
    moreover have "keeps (keyed (Some (scm_key e))) (forC todo (\<lambda>e. bindC (put_scm X y e) (after_copy X y e)))"
      by (intro keeps_intros scm.put_keeps main_pred_keyed)
    ultimately show ?thesis using keepsD [of "keyed (Some (scm_key e))" _ t] t by force
  next
    case False
    with assms(2,3) have "e \<in> set todo" by (simp add: todo_def)
    with scm.put_all_stored [OF _ t] show ?thesis by (simp add: keeps_after_copy [OF main_pred_keyed])
  qed
qed

lemma page_of_subset: "set (page_of start n es) \<subseteq> set es"
  by (auto simp: page_of_def rows_after_filter dest: in_set_takeD)

lemma keeps_page_loop:
  assumes "main_pred P" and "\<And>e. e \<in> set (src_events src) \<Longrightarrow> keeps P (put_scm X y e)" and "\<And>m. keeps P (saveMark m)"
  shows "keeps P (page_loop X y src full start hm)"
  using assms(2)
proof (induction X y src full start hm rule: page_loop.induct)
  case (1 X y src full start hm)
  have copy: "keeps P (copyPage X y (page_of start (page_size y) (src_events src)))"
    using "1.prems" page_of_subset by (intro keeps_copyPage assms(1)) blast
  show ?case
    unfolding page_loop.simps [of X y src full start hm] Let_def readPage_def
    by (intro keeps_intros assms(1,3) copy main_pred_tables [OF assms(1)] "1.IH" "1.prems") auto
qed

text \<open>A predicate on the ledger and the chain alone also survives the writes to the sync state and the QR table.\<close>

definition ledger_pred :: "('z db_scheme \<Rightarrow> bool) \<Rightarrow> bool" where
  "ledger_pred P \<longleftrightarrow> (\<forall>s s'. trace_events s' = trace_events s \<and> custody_chain s' = custody_chain s \<and>
     anchor_batches s' = anchor_batches s \<and> fresh_id s \<le> fresh_id s' \<longrightarrow> P s \<longrightarrow> P s')"

lemma ledger_pred_main: "ledger_pred P \<Longrightarrow> main_pred P"
  unfolding ledger_pred_def main_pred_def same_main_def by blast

lemma ledger_pred_keyed: "ledger_pred (keyed k)"
  by (simp add: ledger_pred_def keyed_iff)

lemma ledger_pred_store_ok: "ledger_pred (store_ok X)"
  unfolding ledger_pred_def
proof (intro allI impI, elim conjE)
  fix s s' :: "'a db_scheme"
  assume "trace_events s' = trace_events s" "custody_chain s' = custody_chain s" "fresh_id s \<le> fresh_id s'" "store_ok X s"
  then show "store_ok X s'"
    by (auto simp: store_ok_def ledger_ok_def chain_ok_def intro: order_less_le_trans)
qed

lemma keeps_ledger_exec:
  assumes "ledger_pred P"
    and "\<And>s a s'. f s = Inr (a, s') \<Longrightarrow> trace_events s' = trace_events s \<and> custody_chain s' = custody_chain s \<and>
      anchor_batches s' = anchor_batches s \<and> fresh_id s \<le> fresh_id s'"
  shows "keeps P (execC f)"
proof (rule keeps_execC [OF main_pred_tables [OF ledger_pred_main [OF assms(1)]]])
  show "P s'" if "P s" "f s = Inr (a, s')" for s a s'
    using assms(1) that(1) assms(2) [OF that(2)] unfolding ledger_pred_def by blast
qed

lemma keeps_sync_writes:
  assumes "ledger_pred P"
  shows "keeps P (saveMark m)" "keeps P (saveRun err)" "keeps P (copyQRCodes src)"
proof -
  show "keeps P (saveMark m)" unfolding saveMark_def by (rule keeps_ledger_exec [OF assms]) auto
  show "keeps P (saveRun err)"
    unfolding saveRun_def by (intro keeps_intros keeps_ledger_exec [OF assms]) auto
  show "keeps P (copyQRCodes src)"
    unfolding copyQRCodes_def copy_qr_def
    by (intro keeps_intros main_pred_tables ledger_pred_main keeps_ledger_exec assms) (auto simp: insert_qr_sql_def split: if_splits)
qed

lemma keeps_Sync_Run:
  assumes "ledger_pred P" and "\<And>e. e \<in> set (src_events src) \<Longrightarrow> keeps P (put_scm X y e)"
  shows "keeps P (Sync_Run X y src full)"
  unfolding Sync_Run_def sync_run_def loadMark_def Let_def
  by (intro keeps_intros keeps_page_loop keeps_sync_writes main_pred_tables ledger_pred_main assms)

lemma keyed_page_loop: "keeps (keyed k) (page_loop X y src full start hm)"
  by (intro keeps_page_loop main_pred_keyed scm.put_keeps keeps_sync_writes ledger_pred_keyed)

lemma saveMark_ledger:
  assumes "saveMark m s = (r, s')"
  shows "trace_events s' = trace_events s"
proof -
  have "keeps (\<lambda>z. trace_events z = trace_events s) (saveMark m)"
    unfolding saveMark_def by (rule keeps_execC) (auto simp: tables_only_def)
  from keepsD [OF this, of s] assms show ?thesis by simp
qed

lemma page_loop_step:
  fixes s :: "'z sync_scheme"
  assumes "page_loop X y src True start hm s = (Inr (), s')"
  obtains t u v :: "'z sync_scheme" where "copyPage X y (page_of start (page_size y) (src_events src)) t = (Inr (), u)"
    and "trace_events v = trace_events u"
    and "if length (page_of start (page_size y) (src_events src)) < page_size y then s' = v
      else page_loop X y src True (Some (row_mark (last (page_of start (page_size y) (src_events src)))))
        (raise_mark (page_of start (page_size y) (src_events src)) hm) v = (Inr (), s')"
proof -
  let ?p = "page_of start (page_size y) (src_events src)" and ?hm = "raise_mark (page_of start (page_size y) (src_events src)) hm"
  from assms obtain t u v where copied: "copyPage X y ?p t = (Inr (), u)"
      and save: "(if ?p = [] then retC () else saveMark (fst ?hm)) u = (Inr (), v)"
      and rest: "(if length ?p < page_size y then retC ()
        else page_loop X y src True (Some (row_mark (last ?p))) ?hm) v = (Inr (), s')"
    by (auto simp: page_loop.simps [of X y src True start hm] Let_def bindC_Inr_iff getC_def)
  from save have same: "trace_events v = trace_events u"
    by (auto simp: retC_def dest: saveMark_ledger split: if_splits)
  from rest have "if length ?p < page_size y then s' = v
      else page_loop X y src True (Some (row_mark (last ?p))) ?hm v = (Inr (), s')"
    by (auto simp: retC_def)
  with copied same show thesis by (rule that)
qed

text \<open>A full pass that ends well has every row it went over in the ledger.\<close>

lemma page_loop_keyed:
  fixes s :: "'z sync_scheme"
  assumes "page_loop X y src True start hm s = (Inr (), s')" and "distinct (map se_scmID (src_events src))"
    and "e \<in> set (src_events src)" and "after_from start e" and "\<not> is_unresolved e"
  shows "keyed (Some (scm_key e)) s'"
  using assms
proof (induction X y src "True" start hm arbitrary: s rule: page_loop.induct)
  case (1 X y src start hm)
  let ?p = "page_of start (page_size y) (src_events src)"
  let ?next = "page_loop X y src True (Some (row_mark (last ?p))) (raise_mark ?p hm)"
  from "1.prems"(1) obtain t u v :: "'z sync_scheme" where copied: "copyPage X y ?p t = (Inr (), u)"
    and same: "trace_events v = trace_events u"
    and rest: "if length ?p < page_size y then s' = v else ?next v = (Inr (), s')"
    by (rule page_loop_step)
  have in_page: ?case if "e \<in> set ?p"
  proof -
    have v: "keyed (Some (scm_key e)) v"
      using copyPage_keyed [OF copied that "1.prems"(5)] keyed_cong [OF same] by simp
    show ?thesis
    proof (cases "length ?p < page_size y")
      case False
      with rest have "?next v = (Inr (), s')" by simp
      with keepsD [OF keyed_page_loop v, of X y src True "Some (row_mark (last ?p))" "raise_mark ?p hm"]
      show ?thesis by simp
    qed (use rest v in simp)
  qed
  show ?case
  proof (cases "length ?p < page_size y")
    case True
    then have "?p = rows_after start (src_events src)" by (simp add: page_of_def)
    with "1.prems"(3,4) have "e \<in> set ?p" by (simp add: rows_after_filter)
    then show ?thesis by (rule in_page)
  next
    case False
    then have full: "length ?p = page_size y" "page_size y > 0"
      by (auto simp: page_of_def page_size_def)
    from False rest have next': "?next v = (Inr (), s')" by simp
    from page_advances(2) [OF full] "1.prems"(3,4)
    consider "e \<in> set ?p" | "after_from (Some (row_mark (last ?p))) e" | "row_mark e = row_mark (last ?p)"
      by blast
    then show ?thesis
    proof cases
      case 1
      then show ?thesis by (rule in_page)
    next
      case 2
      show ?thesis
        using "1.hyps" [OF refl refl _ next' "1.prems"(2,3) 2 "1.prems"(5)] False by simp
    next
      case 3
      from full have l: "last ?p \<in> set ?p" by (metis last_in_set length_0_conv less_numeral_extra(3))
      then have "last ?p \<in> set (src_events src)" using page_of_subset by blast
      moreover from 3 have "se_scmID e = se_scmID (last ?p)" by (simp add: row_mark_def)
      ultimately have "e = last ?p" using "1.prems"(2,3) by (metis distinct_map inj_onD)
      with l have "e \<in> set ?p" by simp
      then show ?thesis by (rule in_page)
    qed
  qed
qed

lemma sync_run_keyed:
  assumes "sync_run X y src True s = (Inr (), s')" and "distinct (map se_scmID (src_events src))"
    and "e \<in> set (src_events src)" and "\<not> is_unresolved e"
  shows "keyed (Some (scm_key e)) s'"
proof -
  from assms(1) obtain hm t u where loop: "page_loop X y src True None hm t = (Inr (), u)"
      and qr: "copyQRCodes src u = (Inr (), s')"
    by (auto simp: sync_run_def Let_def bindC_Inr_iff modify_res_def modifyC_def split: prod.splits)
  from page_loop_keyed [OF loop assms(2,3) _ assms(4)] have "keyed (Some (scm_key e)) u" by (simp add: after_from_def)
  with keepsD [OF keeps_sync_writes(3) [OF ledger_pred_keyed]] qr show ?thesis by (metis snd_conv)
qed

text \<open>C17. A full pass of the sync that returns without an error leaves every event of the source that
  has an entity id in the ledger, under its migration key.  No failure of a statement, no page border and
  no tie of two timestamps loses one.\<close>

theorem sync_copies_everything:
  assumes "Sync_Run X y src True s = (Inr (), s')" and "distinct (map se_scmID (src_events src))"
    and "e \<in> set (src_events src)" and "\<not> is_unresolved e"
  shows "keyed (Some (scm_key e)) s'"
proof -
  from assms(1) obtain t u v where run: "sync_run X y src True t = (Inr (), u)" and saved: "saveRun None u = (Inr (), v)"
      and unlock: "ignoreC (queryC (\<lambda>_. ())) v = (Inr (), s')"
    by (auto simp: Sync_Run_def handleC_def bindC_def failC_def wrapC_def split: prod.splits sum.splits if_splits)
  have u: "keyed (Some (scm_key e)) u" using sync_run_keyed [OF run assms(2-4)] .
  have v: "keyed (Some (scm_key e)) v"
    using keepsD [OF keeps_sync_writes(2) [OF ledger_pred_keyed] u, of None] saved by simp
  have "keeps (keyed (Some (scm_key e))) (ignoreC (queryC (\<lambda>_. ())))"
    by (intro keeps_intros tables_only_keyed)
  from keepsD [OF this v] unlock show ?thesis by simp
qed

definition sample_event :: scmEvent where
  "sample_event = \<lparr>se_scmID = ''9'', se_createdAt = 50, se_occurredAt = 40, se_eventType = ''SITE_NOTE'',
     se_entityType = ''farm'', se_businessID = Some ''F-1'', se_entityID = None, se_related = None, se_payload = None\<rparr>"

definition sample_source :: source where
  "sample_source = \<lparr>src_events = [sample_event], src_qrs = [], src_locked = False\<rparr>"

lemma sample_source_io: "src_locked sample_source = False" "src_qrs sample_source = []"
  by (simp_all add: sample_source_def)

definition sample_sync :: sync where
  "sample_sync = db.extend (empty_db [] 100) \<lparr>kafka_script = [], kafka_log = [], sync_res = empty_result True\<rparr>"

lemma sample_put:
  assumes "script s = []" "trace_events s = []"
  shows "\<exists>ev t. put_scm sample_ext (Syncer_New False sample_cfg) sample_event s = (Inr ev, t) \<and>
    te_event_type ev = ''SITE_NOTE'' \<and> script t = []"
  using assms
  by (simp add: put_scm_def wrapC_def handleC_def retC_def Syncer_New_def AppendEvent_plain healthy insert_event_sql_def
      stored_under_def append_defaults_def scm_input_def or_empty_def sample_event_def Let_def SourceService_def
      zero_time_def returned_event_def new_row_def)

lemma sample_copied:
  assumes "script s = []" "trace_events s = []"
  shows "\<exists>u. copyPage sample_ext (Syncer_New False sample_cfg) [sample_event] s = (Inr (), u) \<and> script u = []"
proof -
  have todo: "existing_keys [sample_event] s = []" "is_unresolved sample_event = False" "sort_todo [sample_event] = [sample_event]"
    using assms by (simp_all add: existing_keys_def is_unresolved_def sort_todo_def, simp add: sample_event_def)
  from sample_put [OF assms] obtain ev t where put:
      "put_scm sample_ext (Syncer_New False sample_cfg) sample_event s = (Inr ev, t)"
      "te_event_type ev = ''SITE_NOTE''" "script t = []" by blast
  have story: "AffectsLotStory ''SITE_NOTE'' = False" by code_simp
  show ?thesis
    by (simp add: copyPage_def Let_def bindC_def handleC_def wrapC_def healthy_queryC [OF assms(1)] todo is_existing_def
        modify_res_def modifyC_def retC_def put after_copy_def AfterAppend_def story)
qed

lemma sample_pages:
  assumes "script s = []" "trace_events s = []"
  shows "\<exists>u. page_loop sample_ext (Syncer_New False sample_cfg) sample_source True None hm s = (Inr (), u) \<and> script u = []"
proof -
  have page: "page_of None 500 [sample_event] = [sample_event]" by (simp add: page_of_def rows_after_def sort_rows_def)
  have size: "page_size (Syncer_New False sample_cfg) = 500" by (simp add: page_size_def Syncer_New_def)
  let ?s = "s\<lparr>sync_res := (sync_res s)\<lparr>rs_Scanned := rs_Scanned (sync_res s) + 1\<rparr>\<rparr>"
  from sample_copied [of ?s] assms obtain u where "copyPage sample_ext (Syncer_New False sample_cfg) [sample_event] ?s = (Inr (), u)"
      "script u = []" by auto
  with assms show ?thesis
    by (simp add: page_loop.simps [of sample_ext] Let_def page size readPage_def bindC_def handleC_def wrapC_def healthy
        modify_res_def modifyC_def saveMark_def getC_def retC_def sample_source_def)
qed

theorem sync_copies_everything_witness:
  "\<exists>s'. Sync_Run sample_ext (Syncer_New False sample_cfg) sample_source True sample_sync = (Inr (), s') \<and>
     keyed (Some ''scm-migrate:9'') s'"
proof -
  let ?s = "sample_sync\<lparr>sync_res := (empty_result True)\<lparr>rs_Full := True\<rparr>\<rparr>"
  have s: "script ?s = []" "trace_events ?s = []" "scm_sync_state ?s = None"
    by (simp_all add: sample_sync_def db.defs empty_db_def)
  from sample_pages [OF s(1,2), of "(\<lparr>mk_createdAt = zero_time, mk_id = []\<rparr>, False)"] obtain u where
    "page_loop sample_ext (Syncer_New False sample_cfg) sample_source True None (\<lparr>mk_createdAt = zero_time, mk_id = []\<rparr>, False) ?s =
       (Inr (), u)" "script u = []" by auto
  with s have "\<exists>s'. Sync_Run sample_ext (Syncer_New False sample_cfg) sample_source True sample_sync = (Inr (), s')"
    by (simp add: Sync_Run_def sync_run_def loadMark_def copyQRCodes_def saveRun_def ignoreC_def bindC_def handleC_def
        wrapC_def healthy modify_res_def modifyC_def retC_def Let_def sample_source_io)
  then obtain s' where "Sync_Run sample_ext (Syncer_New False sample_cfg) sample_source True sample_sync = (Inr (), s')" ..
  with sync_copies_everything [OF this, of sample_event] show ?thesis
    by (auto simp: sample_source_def sample_event_def is_unresolved_def scm_key_def IdempotencyPrefix_def simp del: keyed.simps)
qed

end
