(* ===== verification/Consumer.thy ===== *)
theory Consumer
  imports ScmSync
begin

text \<open>
  The incoming side of the event bus: \<open>internal/consumer/consumer.go\<close> with its counters
  (\<open>internal/metrics/metrics.go\<close>).  A delivery is what one \<open>FetchMessage\<close> returns; the broker may
  deliver a message again at any time.  \<open>parse\<close> is the JSON parser, \<open>None\<close> its error.
\<close>

section \<open>Counters\<close>

record ingest = sync +
  m_consumed :: int
  m_projected :: int
  m_failed :: int
  m_deadLettered :: int
  m_deduped :: int

definition IncConsumed :: "('z ingest_scheme, unit) cmd" where
  "IncConsumed = modifyC (\<lambda>s. s\<lparr>m_consumed := m_consumed s + 1\<rparr>)"

definition IncProjected :: "('z ingest_scheme, unit) cmd" where
  "IncProjected = modifyC (\<lambda>s. s\<lparr>m_projected := m_projected s + 1\<rparr>)"

definition IncFailed :: "('z ingest_scheme, unit) cmd" where
  "IncFailed = modifyC (\<lambda>s. s\<lparr>m_failed := m_failed s + 1\<rparr>)"

definition IncDeadLettered :: "('z ingest_scheme, unit) cmd" where
  "IncDeadLettered = modifyC (\<lambda>s. s\<lparr>m_deadLettered := m_deadLettered s + 1\<rparr>)"

definition IncDeduped :: "('z ingest_scheme, unit) cmd" where
  "IncDeduped = modifyC (\<lambda>s. s\<lparr>m_deduped := m_deduped s + 1\<rparr>)"

record Snapshot =
  sn_Consumed :: int
  sn_Projected :: int
  sn_Failed :: int
  sn_DeadLettered :: int
  sn_Deduped :: int

definition metrics_Snapshot :: "'z ingest_scheme \<Rightarrow> Snapshot" where
  "metrics_Snapshot s = \<lparr>sn_Consumed = m_consumed s, sn_Projected = m_projected s, sn_Failed = m_failed s,
     sn_DeadLettered = m_deadLettered s, sn_Deduped = m_deduped s\<rparr>"

section \<open>Messages\<close>

record cloudEvent =
  ce_ID :: string
  ce_Type :: string
  ce_Time :: string
  ce_Data :: "gmap option"

definition decode_event :: "(string \<Rightarrow> gval option) \<Rightarrow> string \<Rightarrow> err + cloudEvent" where
  "decode_event parse body = (case parse body of
     None \<Rightarrow> Inl (ErrMsg ''invalid character'')
   | Some GNil \<Rightarrow> Inr \<lparr>ce_ID = [], ce_Type = [], ce_Time = [], ce_Data = None\<rparr>
   | Some (GMap m) \<Rightarrow>
       bindE (dec_str (struct_get m ''id'')) (\<lambda>i.
       bindE (dec_str (struct_get m ''type'')) (\<lambda>t.
       bindE (dec_str (struct_get m ''time'')) (\<lambda>w.
       bindE (case struct_get m ''data'' of None \<Rightarrow> Inr None | Some (GMap d) \<Rightarrow> Inr (Some d) | Some _ \<Rightarrow> Inl type_error) (\<lambda>d.
         Inr \<lparr>ce_ID = i, ce_Type = t, ce_Time = w, ce_Data = d\<rparr>))))
   | Some _ \<Rightarrow> Inl type_error)"

text \<open>The id to dedupe by: the envelope's, else the message key, else the first 128 bytes of the body.\<close>

definition event_id :: "kafka_msg \<Rightarrow> cloudEvent \<Rightarrow> string" where
  "event_id m e =
     (if ce_ID e \<noteq> [] then ce_ID e else if km_Key m \<noteq> [] then km_Key m
      else if length (km_Value m) > 128 then take 128 (km_Value m) else km_Value m)"

definition strField :: "gmap \<Rightarrow> string \<Rightarrow> string \<times> bool" where
  "strField data key = (case mget data key of Some (GStr s) \<Rightarrow> (s, s \<noteq> []) | _ \<Rightarrow> ([], False))"

text \<open>The cases of the switch that read one field: type, mapped type, entity type, field.\<close>

definition event_table :: "(string \<times> string \<times> string \<times> string) list" where
  "event_table = [
     (''scm.batch.stage_changed'', ''STAGE_CHANGED'', ''batch'', ''batch_business_id''),
     (''scm.lot.qr_published'', ''LOT_QR_PUBLISHED'', ''lot'', ''lot_business_id''),
     (''scm.intake.received'', ''CHERRY_RECEIVED'', ''batch'', ''batch_business_id''),
     (''scm.farm.registered'', ''FARM_REGISTERED'', ''farm'', ''farm_business_id''),
     (''scm.party.created'', ''PARTY_CREATED'', ''party'', ''party_business_id''),
     (''scm.party.updated'', ''PARTY_UPDATED'', ''party'', ''party_business_id''),
     (''scm.party.member_changed'', ''MEMBER_CHANGED'', ''party'', ''member_business_id''),
     (''scm.farm.updated'', ''FARM_UPDATED'', ''farm'', ''farm_business_id''),
     (''scm.lot.assembled'', ''LOT_ASSEMBLED'', ''lot'', ''lot_business_id''),
     (''mes.wetmill.started'', ''WET_MILL_STARTED'', ''batch'', ''batch_business_id''),
     (''mes.drying.started'', ''DRYING_STARTED'', ''batch'', ''batch_business_id''),
     (''mes.wetmill.completed'', ''WET_MILL_COMPLETE'', ''batch'', ''batch_business_id''),
     (''mes.drying.completed'', ''DRYING_COMPLETE'', ''batch'', ''batch_business_id''),
     (''mes.drymill.completed'', ''DRY_MILL_COMPLETE'', ''batch'', ''batch_business_id''),
     (''qc.lab.result_recorded'', ''LAB_RESULT_RECORDED'', ''batch'', ''batch_business_id''),
     (''qc.sample.submitted'', ''SAMPLE_SUBMITTED'', ''batch'', ''batch_business_id'')]"

definition mapEvent :: "string \<Rightarrow> gmap \<Rightarrow> string \<times> string \<times> string" where
  "mapEvent eventType data =
     (case map_of event_table eventType of
        Some (mapped, entity, field) \<Rightarrow> (mapped, entity, fst (strField data field))
      | None \<Rightarrow>
          if eventType = ''qc.coa.issued'' then
            (if snd (strField data ''lot_business_id'') then (''COA_ISSUED'', ''lot'', fst (strField data ''lot_business_id''))
             else (''COA_ISSUED'', ''batch'', fst (strField data ''batch_business_id'')))
          else ([], [], []))"

definition sourceFor :: "string \<Rightarrow> string" where
  "sourceFor eventType =
     (if HasPrefix eventType ''mes.'' then ''iag-mes''
      else if HasPrefix eventType ''qc.'' then ''iag-quality-control'' else ''iag-supply-chain'')"

fun unique_topics_loop :: "string list \<Rightarrow> string list \<Rightarrow> string list" where
  "unique_topics_loop seen [] = []"
| "unique_topics_loop seen (p # ps) =
     (let t = TrimSpace p in
      if t = [] \<or> t \<in> set seen then unique_topics_loop seen ps else t # unique_topics_loop (t # seen) ps)"

definition uniqueTopics :: "string list \<Rightarrow> string list" where
  "uniqueTopics parts = unique_topics_loop [] parts"

section \<open>Projection\<close>

record Config =
  cf_Brokers :: "string list"
  cf_SupplyChainTopic :: string
  cf_ProductionTopic :: string
  cf_QualityTopic :: string

text \<open>
  \<open>cn_chain\<close> is the store's chain switch; \<open>cn_story\<close> holds the consumer's own client and the package's
  story options; \<open>cn_pub\<close> says whether there is a publisher.
\<close>

record Consumer =
  cn_cfg :: Config
  cn_chain :: bool
  cn_story :: StoryCfg
  cn_pub :: bool

definition dead_letter_sql ::
  "ext \<Rightarrow> string \<Rightarrow> string \<Rightarrow> string \<Rightarrow> string \<Rightarrow> gmap \<Rightarrow> 'z db_scheme \<Rightarrow> err + (unit \<times> 'z db_scheme)" where
  "dead_letter_sql X eventID topic eventType reason data s =
     (case enc_jsonb X data of None \<Rightarrow> Inl ErrDB
      | Some p \<Rightarrow>
          if eventID \<noteq> [] \<and> list_ex (\<lambda>d. dl_event_id d = eventID) (kafka_dead_letter s) then Inr ((), s)
          else Inr ((), s\<lparr>kafka_dead_letter := kafka_dead_letter s @ [\<lparr>dl_event_id = eventID, dl_topic = topic,
                 dl_event_type = eventType, dl_reason = reason, dl_payload = p, dl_received_at = now_us s\<rparr>]\<rparr>))"

definition deadLetter :: "ext \<Rightarrow> string \<Rightarrow> string \<Rightarrow> string \<Rightarrow> string \<Rightarrow> gmap \<Rightarrow> ('z ingest_scheme, unit) cmd" where
  "deadLetter X eventID topic eventType reason data =
     bindC (ignoreC (execC (dead_letter_sql X eventID topic eventType reason data))) (\<lambda>_. IncDeadLettered)"

definition maybeRebuildLotStory :: "ext \<Rightarrow> Consumer \<Rightarrow> string \<Rightarrow> gmap \<Rightarrow> string \<Rightarrow> ('z db_scheme, unit) cmd" where
  "maybeRebuildLotStory X c lot data mappedType =
     (if \<not> AffectsLotStory mappedType then retC ()
      else let publicURL = (if snd (strField data ''public_url'') then fst (strField data ''public_url'') else []) in
        handleC (RebuildLotProjection (cn_story c) lot publicURL) (\<lambda>_. retC ())
          (\<lambda>composed. handleC (UpsertStoryProjection X lot (Some composed)) (\<lambda>_. retC ())
             (\<lambda>_. if cn_pub c then ignoreC (EmitLotStoryUpdated X lot) else retC ())))"

definition batch_rebuild_types :: "string list" where
  "batch_rebuild_types = [''WET_MILL_STARTED'', ''WET_MILL_COMPLETE'', ''DRYING_STARTED'', ''DRYING_COMPLETE'',
     ''DRY_MILL_COMPLETE'', ''SAMPLE_SUBMITTED'', ''LAB_RESULT_RECORDED'', ''CHERRY_RECEIVED'', ''STAGE_CHANGED'', ''COA_ISSUED'']"

definition maybeRebuildLotsForBatch :: "ext \<Rightarrow> Consumer \<Rightarrow> string \<Rightarrow> gmap \<Rightarrow> string \<Rightarrow> ('z db_scheme, unit) cmd" where
  "maybeRebuildLotsForBatch X c batch data mappedType =
     (if mappedType \<notin> set batch_rebuild_types then retC ()
      else if \<not> Client_Enabled (sc_scm (cn_story c)) then retC ()
      else case ListLotsForBatch (sc_net (cn_story c)) (sc_scm (cn_story c)) batch of
        Inl _ \<Rightarrow> retC ()
      | Inr lots \<Rightarrow> forC lots (\<lambda>lot. maybeRebuildLotStory X c lot data mappedType))"

definition projectEntity :: "ext \<Rightarrow> string \<Rightarrow> string \<Rightarrow> string \<Rightarrow> gmap \<Rightarrow> ('z db_scheme, unit) cmd" where
  "projectEntity X eventType mappedType entityID data =
     (if entityID = [] then retC ()
      else if eventType \<in> {''scm.party.created'', ''scm.party.updated''} then
        ignoreC (UpsertEntityProjection X ''party'' entityID (Some data))
      else if eventType \<in> {''scm.farm.registered'', ''scm.farm.updated''} then
        ignoreC (UpsertEntityProjection X ''farm'' entityID (Some data))
      else if eventType = ''scm.lot.assembled'' \<and> mappedType = ''LOT_ASSEMBLED'' then
        ignoreC (UpsertEntityProjection X ''lot'' entityID (Some data))
      else retC ())"

definition consumer_input :: "int \<Rightarrow> string \<Rightarrow> string \<Rightarrow> gmap \<Rightarrow> AppendEventInput" where
  "consumer_input occurred eventID eventType data = (case mapEvent eventType data of (mapped, entity, entityID) \<Rightarrow>
     \<lparr>in_OccurredAt = occurred, in_EventType = mapped, in_EntityType = entity, in_EntityBusinessID = entityID,
      in_EntityID = None, in_RelatedIDs = Some data, in_ActorUserID = None, in_SourceService = sourceFor eventType,
      in_Payload = Some data, in_IdempotencyKey = Some eventID\<rparr>)"

text \<open>What follows the append: the entity projections and the stories it may change.\<close>

definition after_projection :: "ext \<Rightarrow> Consumer \<Rightarrow> string \<Rightarrow> string \<Rightarrow> string \<Rightarrow> gmap \<Rightarrow> ('z ingest_scheme, unit) cmd" where
  "after_projection X c eventType mappedType entityID data =
     bindC IncProjected (\<lambda>_.
     bindC (projectEntity X eventType mappedType entityID data) (\<lambda>_.
       if snd (strField data ''lot_business_id'')
       then maybeRebuildLotStory X c (fst (strField data ''lot_business_id'')) data mappedType
       else if snd (strField data ''batch_business_id'')
       then maybeRebuildLotsForBatch X c (fst (strField data ''batch_business_id'')) data mappedType
       else retC ()))"

definition projectEvent :: "ext \<Rightarrow> Consumer \<Rightarrow> string \<Rightarrow> string \<Rightarrow> string \<Rightarrow> gmap option \<Rightarrow> ('z ingest_scheme, unit) cmd" where
  "projectEvent X c eventID eventType topic data' =
     (let data = or_empty data' in
      bindC (getC now_us) (\<lambda>occurred.
        case mapEvent eventType data of (mappedType, entityType, entityID) \<Rightarrow>
          if mappedType = [] then deadLetter X eventID topic eventType ''unmapped_event_type'' data
          else bindC (AppendEvent X (cn_chain c) (consumer_input occurred eventID eventType data)) (\<lambda>_.
            after_projection X c eventType mappedType entityID data)))"

definition mark_seen_sql :: "string \<Rightarrow> string \<Rightarrow> 'z db_scheme \<Rightarrow> err + (unit \<times> 'z db_scheme)" where
  "mark_seen_sql eventID topic s =
     (if list_ex (\<lambda>d. fst d = eventID) (kafka_dedupe s) then Inr ((), s)
      else Inr ((), s\<lparr>kafka_dedupe := kafka_dedupe s @ [(eventID, topic)]\<rparr>))"

definition seen_before :: "string \<Rightarrow> 'z db_scheme \<Rightarrow> bool" where
  "seen_before eventID s = list_ex (\<lambda>d. fst d = eventID) (kafka_dedupe s)"

definition event_type :: "kafka_msg \<Rightarrow> cloudEvent \<Rightarrow> string" where
  "event_type m e = (if ce_Type e = [] then km_Key m else ce_Type e)"

definition handleMessage :: "ext \<Rightarrow> (string \<Rightarrow> gval option) \<Rightarrow> Consumer \<Rightarrow> kafka_msg \<Rightarrow> ('z ingest_scheme, unit) cmd" where
  "handleMessage X parse c m =
     bindC (liftC (decode_event parse (km_Value m))) (\<lambda>e.
       let eventID = event_id m e in
       bindC (queryC (seen_before eventID)) (\<lambda>seen.
         if seen then IncDeduped
         else bindC IncConsumed (\<lambda>_.
           bindC (projectEvent X c eventID (event_type m e) (km_Topic m) (ce_Data e)) (\<lambda>_.
             execC (mark_seen_sql eventID (km_Topic m))))))"

section \<open>The loop\<close>

text \<open>One \<open>FetchMessage\<close>: an error, or a message with whether its commit will succeed.\<close>

datatype delivery = FetchErr | Fetched kafka_msg bool

text \<open>The loop returns the messages whose offset was committed.\<close>

fun consume_loop :: "ext \<Rightarrow> (string \<Rightarrow> gval option) \<Rightarrow> Consumer \<Rightarrow> delivery list \<Rightarrow> ('z ingest_scheme, kafka_msg list) cmd" where
  "consume_loop X parse c [] = retC []"
| "consume_loop X parse c (FetchErr # ds) = consume_loop X parse c ds"
| "consume_loop X parse c (Fetched m ok # ds) =
     handleC (handleMessage X parse c m)
       (\<lambda>_. bindC IncFailed (\<lambda>_. consume_loop X parse c ds))
       (\<lambda>_. bindC (consume_loop X parse c ds) (\<lambda>ms. retC (if ok then m # ms else ms)))"

definition Consumer_Run :: "ext \<Rightarrow> (string \<Rightarrow> gval option) \<Rightarrow> Consumer \<Rightarrow> delivery list \<Rightarrow> ('z ingest_scheme, kafka_msg list) cmd" where
  "Consumer_Run X parse c ds =
     (if cf_Brokers (cn_cfg c) = [] then retC []
      else if uniqueTopics [cf_SupplyChainTopic (cn_cfg c), cf_ProductionTopic (cn_cfg c), cf_QualityTopic (cn_cfg c)] = []
      then retC []
      else consume_loop X parse c ds)"

section \<open>Lemmas\<close>

lemma keeps_modify_counter:
  assumes "main_pred P" and "\<And>s. same_main s (f s)"
  shows "keeps P (modifyC f)"
  by (rule keepsI) (simp add: modifyC_def main_predD [OF assms(1) _ assms(2)])

lemma keeps_counters [keeps_intros]:
  assumes "main_pred P"
  shows "keeps P IncConsumed" "keeps P IncProjected" "keeps P IncFailed" "keeps P IncDeadLettered" "keeps P IncDeduped"
  unfolding IncConsumed_def IncProjected_def IncFailed_def IncDeadLettered_def IncDeduped_def
  by (rule keeps_modify_counter [OF assms]; simp add: same_main_def)+

lemma keeps_projections [keeps_intros]:
  assumes "main_pred P"
  shows "keeps P (projectEntity X et mt ei data)" "keeps P (maybeRebuildLotStory X c lot data mt)"
    "keeps P (maybeRebuildLotsForBatch X c b data mt)" "keeps P (deadLetter X ei tp et rs data)"
proof -
  show "keeps P (projectEntity X et mt ei data)"
    unfolding projectEntity_def by (intro keeps_intros assms)
  show lot: "keeps P (maybeRebuildLotStory X c lot data mt)" for lot
    unfolding maybeRebuildLotStory_def EmitLotStoryUpdated_def Let_def
    by (intro keeps_intros main_pred_tables [OF assms] assms)
  show "keeps P (maybeRebuildLotsForBatch X c b data mt)"
    unfolding maybeRebuildLotsForBatch_def by (intro keeps_intros lot)
  show "keeps P (deadLetter X ei tp et rs data)"
    unfolding deadLetter_def
  proof (intro keeps_intros assms keeps_execC main_pred_tables [OF assms])
    fix s s' :: "'a ingest_scheme" and a assume "dead_letter_sql X ei tp et rs data s = Inr (a, s')"
    then have "same_main s s'" by (auto simp: dead_letter_sql_def same_main_def split: option.splits if_splits)
    moreover assume "P s"
    ultimately show "P s'" by (blast intro: main_predD [OF assms])
  qed
qed

text \<open>What a message's handling keeps, besides the append itself and the dedupe mark.\<close>

lemma keeps_projectEvent:
  assumes "main_pred P" and "\<And>t. keeps P (AppendEvent X (cn_chain c) (consumer_input t ei et (or_empty data)))"
  shows "keeps P (projectEvent X c ei et tp data)"
  unfolding projectEvent_def after_projection_def Let_def
  by (intro keeps_intros assms)

lemma handleMessage_decoded:
  "decode_event parse (km_Value m) = Inr e \<Longrightarrow> handleMessage X parse c m =
     bindC (queryC (seen_before (event_id m e))) (\<lambda>seen.
       if seen then IncDeduped
       else bindC IncConsumed (\<lambda>_.
         bindC (projectEvent X c (event_id m e) (event_type m e) (km_Topic m) (ce_Data e)) (\<lambda>_.
           execC (mark_seen_sql (event_id m e) (km_Topic m)))))"
  by (simp add: handleMessage_def liftC_def bindC_def handleC_def retC_def Let_def fun_eq_iff)

lemma keeps_handleMessage:
  assumes "main_pred P"
    and "\<And>e t. decode_event parse (km_Value m) = Inr e \<Longrightarrow>
          keeps P (AppendEvent X (cn_chain c) (consumer_input t (event_id m e) (event_type m e) (or_empty (ce_Data e))))"
    and "\<And>i t. keeps P (execC (mark_seen_sql i t))"
  shows "keeps P (handleMessage X parse c m)"
proof (cases "decode_event parse (km_Value m)")
  case (Inl e)
  then show ?thesis by (auto simp: handleMessage_def liftC_def bindC_def handleC_def failC_def keeps_def)
next
  case (Inr e)
  show ?thesis
    unfolding handleMessage_decoded [OF Inr]
    by (intro keeps_intros assms(1,3) main_pred_tables [OF assms(1)] keeps_projectEvent assms(2) [OF Inr])
qed

text \<open>The dedupe table only grows, and keeps its key unique.\<close>

lemma main_pred_seen: "main_pred (seen_before i)"
  by (simp add: main_pred_def seen_before_def same_main_def)

lemma main_pred_dedupe: "main_pred (\<lambda>s. distinct (map fst (kafka_dedupe s)))"
  by (simp add: main_pred_def same_main_def)

lemma keeps_seen:
  "keeps (seen_before i) (execC (mark_seen_sql j t))" "keeps (seen_before i) (AppendEvent X ce inp)"
proof -
  show "keeps (seen_before i) (execC (mark_seen_sql j t))"
    by (rule keeps_execC [OF main_pred_tables [OF main_pred_seen]])
       (auto simp: mark_seen_sql_def seen_before_def split: if_splits)
  show "keeps (seen_before i) (AppendEvent X ce inp)"
    by (rule keepsI) (simp add: seen_before_def)
qed

lemma seen_handleMessage: "keeps (seen_before i) (handleMessage X parse c m)"
  by (intro keeps_handleMessage main_pred_seen keeps_seen)

lemma keyed_handleMessage: "keeps (keyed k) (handleMessage X parse c m)"
proof (intro keeps_handleMessage main_pred_keyed keeps_keyed_AppendEvent)
  show "keeps (keyed k) (execC (mark_seen_sql i t))" for i t
    by (rule keeps_execC [OF main_pred_tables [OF main_pred_keyed]])
       (auto simp: mark_seen_sql_def keyed_iff split: if_splits)
qed

lemma keeps_consume_loop:
  assumes "main_pred P" and "\<And>m ok. Fetched m ok \<in> set ds \<Longrightarrow> keeps P (handleMessage X parse c m)"
  shows "keeps P (consume_loop X parse c ds)"
  using assms(2)
proof (induction ds)
  case (Cons d ds)
  then show ?case by (cases d) (auto intro!: keeps_intros assms(1))
qed (simp add: keeps_retC)

section \<open>Properties\<close>

lemma seen_consume_loop: "keeps (seen_before i) (consume_loop X parse c ds)"
  by (intro keeps_consume_loop main_pred_seen seen_handleMessage)

lemma keyed_consume_loop: "keeps (keyed k) (consume_loop X parse c ds)"
  by (intro keeps_consume_loop main_pred_keyed keyed_handleMessage)

lemma projectEvent_keyed:
  assumes "projectEvent X c i et tp data s = (Inr (), s')" and "fst (mapEvent et (or_empty data)) \<noteq> []"
  shows "keyed (Some i) s'"
proof -
  obtain mt en ei where m: "mapEvent et (or_empty data) = (mt, en, ei)" by (metis surj_pair)
  let ?inp = "consumer_input (now_us s) i et (or_empty data)"
  from assms obtain ev t where run: "AppendEvent X (cn_chain c) ?inp s = (Inr ev, t)"
      "after_projection X c et mt ei (or_empty data) t = (Inr (), s')"
    by (auto simp: projectEvent_def Let_def m bindC_Inr_iff getC_def)
  have "keyed (Some i) t" using sink.put_stores [OF run(1)] m by (simp add: consumer_input_def)
  moreover have "keeps (keyed (Some i)) (after_projection X c et mt ei (or_empty data))"
    unfolding after_projection_def by (intro keeps_intros main_pred_keyed)
  ultimately show ?thesis using keepsD [of "keyed (Some i)" _ t] run(2) by force
qed

text \<open>The messages that carry an id, and those whose type the service knows.\<close>

definition carries :: "(string \<Rightarrow> gval option) \<Rightarrow> string \<Rightarrow> kafka_msg \<Rightarrow> bool" where
  "carries parse i m \<longleftrightarrow> (case decode_event parse (km_Value m) of Inr e \<Rightarrow> event_id m e = i | Inl _ \<Rightarrow> False)"

definition known_type :: "(string \<Rightarrow> gval option) \<Rightarrow> kafka_msg \<Rightarrow> bool" where
  "known_type parse m \<longleftrightarrow> (case decode_event parse (km_Value m) of
     Inr e \<Rightarrow> fst (mapEvent (event_type m e) (or_empty (ce_Data e))) \<noteq> [] | Inl _ \<Rightarrow> False)"

lemma carriesE:
  assumes "carries parse i m"
  obtains e where "decode_event parse (km_Value m) = Inr e" "event_id m e = i"
  using assms by (auto simp: carries_def split: sum.splits)

lemma handled_seen:
  assumes "handleMessage X parse c m s = (Inr (), s')" and "carries parse i m"
  shows "seen_before i s'"
proof -
  from assms(2) obtain e where e: "decode_event parse (km_Value m) = Inr e" "event_id m e = i" by (rule carriesE)
  show ?thesis
  proof (cases "seen_before i s")
    case True
    with keepsD [OF seen_handleMessage, of i s X parse c m] assms(1) show ?thesis by simp
  next
    case False
    with assms(1) obtain u where "execC (mark_seen_sql i (km_Topic m)) u = (Inr (), s')"
      by (auto simp: handleMessage_decoded [OF e(1)] e(2) bindC_Inr_iff queryC_Inr_iff seen_before_def)
    then show ?thesis by (auto simp: execC_Inr_iff mark_seen_sql_def seen_before_def split: if_splits)
  qed
qed

text \<open>An id is marked only when its event is in the ledger: whatever fails, at every moment.\<close>

definition marks_kept :: "string \<Rightarrow> 'z db_scheme \<Rightarrow> bool" where
  "marks_kept i s \<longleftrightarrow> (seen_before i s \<longrightarrow> keyed (Some i) s)"

lemma main_pred_marks: "main_pred (marks_kept i)"
  by (simp add: main_pred_def marks_kept_def seen_before_def keyed_iff same_main_def)

lemma marks_AppendEvent: "keeps (marks_kept i) (AppendEvent X ce inp)"
  using keeps_keyed_AppendEvent [of "Some i" X ce inp] by (auto simp: keeps_def marks_kept_def seen_before_def)

lemma marks_mark_seen:
  assumes "j = i \<Longrightarrow> keyed (Some i) s" and "marks_kept i s"
  shows "marks_kept i (snd (execC (mark_seen_sql j tp) s))"
proof (cases "j = i")
  case True
  have "keeps (keyed (Some i)) (execC (mark_seen_sql j tp))"
    by (rule keeps_execC [OF main_pred_tables [OF main_pred_keyed]])
       (auto simp: mark_seen_sql_def keyed_iff split: if_splits)
  with assms(1) [OF True] show ?thesis by (auto simp: marks_kept_def dest: keepsD)
next
  case False
  have "keeps (marks_kept i) (execC (mark_seen_sql j tp))"
    by (rule keeps_execC [OF main_pred_tables [OF main_pred_marks]])
       (use False in \<open>auto simp: mark_seen_sql_def marks_kept_def seen_before_def keyed_iff split: if_splits\<close>)
  then show ?thesis using assms(2) by (rule keepsD)
qed

lemma marks_handleMessage:
  assumes "carries parse i m \<Longrightarrow> known_type parse m"
  shows "keeps (marks_kept i) (handleMessage X parse c m)"
proof (cases "decode_event parse (km_Value m)")
  case (Inl e)
  then show ?thesis by (auto simp: handleMessage_def liftC_def bindC_def handleC_def failC_def keeps_def)
next
  case (Inr e)
  let ?i = "event_id m e"
  let ?project = "projectEvent X c ?i (event_type m e) (km_Topic m) (ce_Data e) :: ('a ingest_scheme, unit) cmd"
  have "keeps (marks_kept i) (bindC ?project (\<lambda>_. execC (mark_seen_sql ?i (km_Topic m))))"
  proof (rule keepsI)
    fix s :: "'a ingest_scheme" assume "marks_kept i s"
    obtain r t where run: "?project s = (r, t)" by (cases "?project s")
    have t: "marks_kept i t"
      using keepsD [OF keeps_projectEvent [OF main_pred_marks marks_AppendEvent] \<open>marks_kept i s\<close>] run by (metis snd_conv)
    have "keyed (Some i) t" if "r = Inr ()" "?i = i"
      using projectEvent_keyed [of X c ?i "event_type m e" "km_Topic m" "ce_Data e" s t] run that assms Inr
      by (simp add: carries_def known_type_def del: keyed.simps)
    with marks_mark_seen [OF _ t] t run
    show "marks_kept i (snd (bindC ?project (\<lambda>_. execC (mark_seen_sql ?i (km_Topic m))) s))"
      by (cases r) (auto simp: bindC_def handleC_def failC_def simp del: keyed.simps)
  qed
  note body = keeps_bindC [OF keeps_counters(1) [OF main_pred_marks] this]
  show ?thesis
    unfolding handleMessage_decoded [OF Inr]
  proof (rule keeps_bindC)
    show "keeps (marks_kept i) (queryC (seen_before ?i) :: ('a ingest_scheme, bool) cmd)"
      by (intro keeps_intros main_pred_tables [OF main_pred_marks])
  qed (simp add: body keeps_counters [OF main_pred_marks])
qed

lemma acked_seen:
  assumes "consume_loop X parse c ds s = (res, s')"
  shows "\<exists>acked. res = Inr acked \<and> (\<forall>m \<in> set acked. carries parse i m \<longrightarrow> seen_before i s')"
  using assms
proof (induction X parse c ds arbitrary: s res rule: consume_loop.induct)
  case (3 X parse c m ok ds)
  obtain r t where run: "handleMessage X parse c m s = (r, t)" by (cases "handleMessage X parse c m s")
  show ?case
  proof (cases r)
    case (Inl e)
    with 3 run show ?thesis by (auto simp: handleC_def bindC_def IncFailed_def modifyC_def)
  next
    case (Inr u)
    obtain r' where rest: "consume_loop X parse c ds t = (r', s')"
      using 3(3) run Inr by (auto simp: handleC_def bindC_def failC_def retC_def split: prod.splits sum.splits)
    from 3(2) [OF this] obtain acked where "r' = Inr acked" "\<forall>m \<in> set acked. carries parse i m \<longrightarrow> seen_before i s'"
      by blast
    moreover have "seen_before i s'" if "carries parse i m"
      using handled_seen [of X parse c m s t i] run Inr that
        keepsD [OF seen_consume_loop, of i t X parse c ds] rest by simp
    ultimately show ?thesis
      using 3(3) run Inr rest by (auto simp: handleC_def bindC_def retC_def)
  qed
qed (auto simp: retC_def)

text \<open>
  C16. No message is lost, whatever the database does and however often the broker delivers again.  Take
  any run of deliveries in which every message with the id \<open>i\<close> has a type the service knows, from a state
  in which \<open>i\<close> is not marked as seen (or its event is in the ledger).  After the run the id is marked only if an
  event is in the ledger under it, so a later delivery is never dropped as a duplicate of an event that was not
  stored; and if the offset of a message with this id was committed, whether it was projected or
  dropped as a duplicate, the id is marked and the event is in the ledger.
\<close>

theorem consumer_no_loss:
  assumes "consume_loop X parse c ds s = (res, s')"
    and "seen_before i s \<longrightarrow> keyed (Some i) s"
    and "\<And>m ok. Fetched m ok \<in> set ds \<Longrightarrow> carries parse i m \<Longrightarrow> known_type parse m"
  shows "(seen_before i s' \<longrightarrow> keyed (Some i) s') \<and>
    (\<exists>acked. res = Inr acked \<and>
       (\<forall>m \<in> set acked. carries parse i m \<longrightarrow> seen_before i s' \<and> keyed (Some i) s'))"
proof -
  have "keeps (marks_kept i) (consume_loop X parse c ds)"
    by (intro keeps_consume_loop main_pred_marks marks_handleMessage assms(3))
  then have "marks_kept i s'"
    using keepsD [of "marks_kept i" _ s] assms(1,2) unfolding marks_kept_def by (metis snd_conv)
  with acked_seen [OF assms(1), of i] show ?thesis unfolding marks_kept_def by blast
qed

text \<open>
  Delivering it again is harmless: after the success and any further deliveries, the same message
  changes no table and only the counter of deduplicated messages, whatever the database does.
\<close>

theorem consumer_redelivery:
  assumes "handleMessage X parse c m s = (Inr (), s1)" and "consume_loop X parse c ds s1 = (res, s2)"
    and "handleMessage X parse c m s2 = (r, s3)"
  shows "ticks s2 (s3\<lparr>m_deduped := m_deduped s2\<rparr>) \<and> (r = Inr () \<or> r = Inl ErrDB)"
proof -
  obtain e where e: "decode_event parse (km_Value m) = Inr e"
    using assms(1) by (cases "decode_event parse (km_Value m)") (auto simp: handleMessage_def liftC_def bindC_def handleC_def failC_def)
  let ?i = "event_id m e"
  have "seen_before ?i s1" by (rule handled_seen [OF assms(1)]) (simp add: carries_def e)
  then have "seen_before ?i s2" using keepsD [OF seen_consume_loop, of ?i s1 X parse c ds] assms(2) by simp
  then have seen: "seen_before ?i (step_io s2)" by (simp add: seen_before_def)
  have "s3 = (if next_io s2 = IoOk then (step_io s2)\<lparr>m_deduped := m_deduped (step_io s2) + 1\<rparr> else step_io s2)"
    and r: "r = (if next_io s2 = IoOk then Inr () else Inl ErrDB)"
    using assms(3) seen by (auto simp: handleMessage_decoded [OF e] bindC_def handleC_def queryC_def failC_def
        IncDeduped_def modifyC_def split: if_splits)
  moreover have "m_deduped (step_io s2) = m_deduped s2" by (simp add: step_io_def split: list.split)
  then have "(step_io s2)\<lparr>m_deduped := m_deduped s2\<rparr> = step_io s2"
    by (cases "step_io s2") simp
  ultimately show ?thesis by auto
qed

definition sample_parse :: "string \<Rightarrow> gval option" where
  "sample_parse body = (if body = ''{}'' then Some (GMap [(''id'', GStr ''e1''), (''type'', GStr ''scm.intake.received'')]) else None)"

definition sample_message :: kafka_msg where
  "sample_message = \<lparr>km_Topic = ''iag.supply-chain'', km_Key = ''B-1'', km_Value = ''{}'', km_Headers = []\<rparr>"

definition sample_consumer :: Consumer where
  "sample_consumer = \<lparr>cn_cfg = \<lparr>cf_Brokers = [''k''], cf_SupplyChainTopic = ''t'', cf_ProductionTopic = [], cf_QualityTopic = []\<rparr>,
     cn_chain = False, cn_story = sample_cfg, cn_pub = True\<rparr>"

definition sample_ingest :: ingest where
  "sample_ingest = db.extend (empty_db [] 100) \<lparr>kafka_script = [], kafka_log = [], sync_res = empty_result False, m_consumed = 0, m_projected = 0, m_failed = 0, m_deadLettered = 0, m_deduped = 0\<rparr>"

lemma sample_decode: "decode_event sample_parse (km_Value sample_message) =
    Inr \<lparr>ce_ID = ''e1'', ce_Type = ''scm.intake.received'', ce_Time = [], ce_Data = None\<rparr>"
  by (simp add: sample_message_def sample_parse_def decode_event_def struct_get_def EqualFold_def fold_case_plain plain_def bindE_def
      del: fold_case.simps)

lemma sample_ingest_state:
  "script sample_ingest = []" "now_us sample_ingest = 100" "trace_events sample_ingest = []" "kafka_dedupe sample_ingest = []"
  by (simp_all add: sample_ingest_def db.defs empty_db_def)

lemma sample_appended:
  assumes "script s = []" "trace_events s = []"
  shows "\<exists>ev t. AppendEvent sample_ext False (consumer_input now ''e1'' ''scm.intake.received'' []) s = (Inr ev, t) \<and>
    script t = [] \<and> kafka_dedupe t = kafka_dedupe s"
  using assms
  by (simp add: AppendEvent_plain healthy insert_event_sql_def stored_under_def append_defaults_def consumer_input_def
      mapEvent_def event_table_def or_empty_def Let_def)

lemma sample_handled_by:
  assumes s: "script s = []" "kafka_dedupe s = []"
    and app: "AppendEvent sample_ext (cn_chain c) (consumer_input (now_us s) ''e1'' ''scm.intake.received'' []) (s\<lparr>m_consumed := m_consumed s + 1\<rparr>) = (Inr ev, t)"
      "script t = []" "kafka_dedupe t = []"
  shows "handleMessage sample_ext sample_parse c sample_message s =
    (Inr (), t\<lparr>m_projected := m_projected t + 1, kafka_dedupe := [(''e1'', ''iag.supply-chain'')]\<rparr>)"
proof -
  let ?s = "s\<lparr>m_consumed := m_consumed s + 1\<rparr>"
  have "mapEvent ''scm.intake.received'' [] = (''CHERRY_RECEIVED'', ''batch'', [])" by code_simp
  then have "projectEvent sample_ext c ''e1'' ''scm.intake.received'' ''iag.supply-chain'' None ?s =
      after_projection sample_ext c ''scm.intake.received'' ''CHERRY_RECEIVED'' [] [] t"
    using app(1) by (simp add: projectEvent_def or_empty_def bindC_def handleC_def getC_def)
  also have "\<dots> = (Inr (), t\<lparr>m_projected := m_projected t + 1\<rparr>)"
    by (simp add: after_projection_def IncProjected_def modifyC_def bindC_def handleC_def projectEntity_def strField_def retC_def)
  finally show ?thesis
    using app(2,3) s
    unfolding handleMessage_decoded [OF sample_decode]
    by (simp add: bindC_def handleC_def healthy_queryC healthy_execC seen_before_def
        IncConsumed_def modifyC_def event_id_def event_type_def sample_message_def mark_seen_sql_def)
qed

lemma sample_handled: "fst (handleMessage sample_ext sample_parse sample_consumer sample_message sample_ingest) = Inr ()"
proof -
  have s: "script sample_ingest = []" "trace_events sample_ingest = []" "kafka_dedupe sample_ingest = []" by (simp_all add: sample_ingest_state)
  then obtain ev t where "AppendEvent sample_ext False (consumer_input (now_us sample_ingest) ''e1'' ''scm.intake.received'' [])
      (sample_ingest\<lparr>m_consumed := m_consumed sample_ingest + 1\<rparr>) = (Inr ev, t)" "script t = []" "kafka_dedupe t = []"
    using sample_appended [of "sample_ingest\<lparr>m_consumed := m_consumed sample_ingest + 1\<rparr>" "now_us sample_ingest"] by auto
  with sample_handled_by [of sample_ingest sample_consumer] s show ?thesis by (simp add: sample_consumer_def)
qed

theorem consumer_no_loss_witness:
  "\<exists>s'. consume_loop sample_ext sample_parse sample_consumer [Fetched sample_message True] sample_ingest =
     (Inr [sample_message], s') \<and> seen_before ''e1'' s' \<and> keyed (Some ''e1'') s'"
proof -
  obtain s' where "handleMessage sample_ext sample_parse sample_consumer sample_message sample_ingest = (Inr (), s')"
    using sample_handled by (metis prod.collapse)
  then have run: "consume_loop sample_ext sample_parse sample_consumer [Fetched sample_message True] sample_ingest =
      (Inr [sample_message], s')"
    by (simp add: handleC_def bindC_def retC_def)
  have m: "carries sample_parse ''e1'' sample_message"
    by (simp add: carries_def sample_decode event_id_def)
  have "mapEvent ''scm.intake.received'' [] = (''CHERRY_RECEIVED'', ''batch'', [])" by code_simp
  then have known: "known_type sample_parse sample_message"
    by (simp add: known_type_def sample_decode event_type_def or_empty_def)
  have "\<not> seen_before ''e1'' sample_ingest" by (simp add: seen_before_def sample_ingest_state)
  with consumer_no_loss [OF run, of "''e1''"] known m run show ?thesis by (auto simp del: keyed.simps)
qed

theorem consumer_redelivery_witness:
  "\<exists>s1 r s3. handleMessage sample_ext sample_parse sample_consumer sample_message sample_ingest = (Inr (), s1) \<and>
     handleMessage sample_ext sample_parse sample_consumer sample_message s1 = (r, s3) \<and>
     ticks s1 (s3\<lparr>m_deduped := m_deduped s1\<rparr>)"
proof -
  obtain s1 where run: "handleMessage sample_ext sample_parse sample_consumer sample_message sample_ingest = (Inr (), s1)"
    using sample_handled by (metis prod.collapse)
  have "consume_loop sample_ext sample_parse sample_consumer [] s1 = (Inr [], s1)" by (simp add: retC_def)
  moreover obtain r s3 where again: "handleMessage sample_ext sample_parse sample_consumer sample_message s1 = (r, s3)" by (meson surj_pair)
  ultimately show ?thesis using consumer_redelivery [OF run _ again] run by blast
qed

end
