(* ===== verification/Base64.thy ===== *)
theory Base64
  imports GoLib
begin

text \<open>
  \<open>encoding/base64\<close> as far as the service uses it: \<open>StdEncoding\<close> (padded) and \<open>RawURLEncoding\<close>
  (unpadded, with \<open>-\<close> and \<open>_\<close>).  Decoding skips line breaks and ignores left-over bits, as Go does.
\<close>

section \<open>Alphabets\<close>

definition letters :: string where
  "letters = ''ABCDEFGHIJKLMNOPQRSTUVWXYZabcdefghijklmnopqrstuvwxyz0123456789''"

definition std_alphabet :: string where
  "std_alphabet = letters @ ''+/''"

definition url_alphabet :: string where
  "url_alphabet = letters @ ''-_''"

fun position :: "char \<Rightarrow> string \<Rightarrow> nat option" where
  "position c [] = None"
| "position c (d # ds) = (if c = d then Some 0 else map_option Suc (position c ds))"

section \<open>Encoding\<close>

fun sextets :: "nat list \<Rightarrow> nat list" where
  "sextets (x # y # z # bs) =
     x div 4 # (x mod 4 * 16 + y div 16) # (y mod 16 * 4 + z div 64) # z mod 64 # sextets bs"
| "sextets [x, y] = [x div 4, x mod 4 * 16 + y div 16, y mod 16 * 4]"
| "sextets [x] = [x div 4, x mod 4 * 16]"
| "sextets [] = []"

definition raw_encode :: "string \<Rightarrow> string \<Rightarrow> string" where
  "raw_encode alphabet bs = map (nth alphabet) (sextets (map of_char bs))"

definition padding :: "nat \<Rightarrow> string" where
  "padding n = replicate ((4 - n mod 4) mod 4) (CHR ''='')"

definition StdEncode :: "string \<Rightarrow> string" where
  "StdEncode bs = (let t = raw_encode std_alphabet bs in t @ padding (length t))"

definition RawURLEncode :: "string \<Rightarrow> string" where
  "RawURLEncode bs = raw_encode url_alphabet bs"

section \<open>Decoding\<close>

fun octets :: "nat list \<Rightarrow> nat list option" where
  "octets (a # b # c # d # vs) =
     map_option (\<lambda>bs. (a * 4 + b div 16) # ((b mod 16) * 16 + c div 4) # ((c mod 4) * 64 + d) # bs) (octets vs)"
| "octets [a, b, c] = Some [a * 4 + b div 16, (b mod 16) * 16 + c div 4]"
| "octets [a, b] = Some [a * 4 + b div 16]"
| "octets [a] = None"
| "octets [] = Some []"

definition raw_decode :: "string \<Rightarrow> string \<Rightarrow> string option" where
  "raw_decode alphabet t = (case all_some (map (\<lambda>c. position c alphabet) t) of
     None \<Rightarrow> None | Some vs \<Rightarrow> map_option (map byte) (octets vs))"

definition no_breaks :: "string \<Rightarrow> string" where
  "no_breaks = filter (\<lambda>c. c \<noteq> CHR 0x0A \<and> c \<noteq> CHR 0x0D)"

text \<open>One or two padding characters must complete the last group of four, and nothing may follow.\<close>

definition StdDecode :: "string \<Rightarrow> string option" where
  "StdDecode t = (let u = no_breaks t in
     if length u mod 4 \<noteq> 0 then None
     else if HasSuffix u ''=='' then raw_decode std_alphabet (take (length u - 2) u)
     else if HasSuffix u ''='' then raw_decode std_alphabet (take (length u - 1) u)
     else raw_decode std_alphabet u)"

definition RawURLDecode :: "string \<Rightarrow> string option" where
  "RawURLDecode t = raw_decode url_alphabet (no_breaks t)"

section \<open>Round trip\<close>

lemma div_zero: "x < 256 \<Longrightarrow> x div 4 < 64" "x < 256 \<Longrightarrow> x div 16 < 16" "x < 256 \<Longrightarrow> x div 64 < (4 :: nat)"
  by simp_all

lemma pack2: "y < 16 \<Longrightarrow> (a * 16 + y) div 16 = a" "y < 16 \<Longrightarrow> (a * 16 + y) mod 16 = (y :: nat)"
  by simp_all

lemma pack4: "z < 4 \<Longrightarrow> (b * 4 + z) div 4 = b" "z < 4 \<Longrightarrow> (b * 4 + z) mod 4 = (z :: nat)"
  by simp_all

lemma sextets_bound: "list_all (\<lambda>x. x < 256) bs \<Longrightarrow> list_all (\<lambda>v. v < 64) (sextets bs)"
proof (induction bs rule: sextets.induct)
  case (1 x y z bs)
  then have "x mod 4 * 16 + y div 16 < 64" "y mod 16 * 4 + z div 64 < 64"
    using div_zero(2) [of y] div_zero(3) [of z] mod_less_divisor [of 4 x] mod_less_divisor [of 16 y] by auto
  with 1 show ?case by (auto simp: div_zero)
qed (auto simp: div_zero; linarith)+

lemma octets_sextets: "list_all (\<lambda>x. x < 256) bs \<Longrightarrow> octets (sextets bs) = Some bs"
  by (induction bs rule: sextets.induct) (simp_all add: pack2 pack4 div_zero mult.commute [of _ 4] mult.commute [of _ 16] del: div_mult_self1)

lemma alphabets:
  "distinct std_alphabet" "length std_alphabet = 64" "distinct url_alphabet" "length url_alphabet = 64"
  "list_all (\<lambda>c. c \<noteq> CHR ''='' \<and> c \<noteq> CHR 0x0A \<and> c \<noteq> CHR 0x0D) std_alphabet"
  "list_all (\<lambda>c. c \<noteq> CHR 0x0A \<and> c \<noteq> CHR 0x0D) url_alphabet"
  by code_simp+

lemma position_nth: "distinct cs \<Longrightarrow> v < length cs \<Longrightarrow> position (cs ! v) cs = Some v"
proof (induction cs arbitrary: v)
  case (Cons c cs)
  then show ?case by (cases v) (auto simp: nth_eq_iff_index_eq)
qed simp

lemma all_some_map_Some: "(\<And>x. x \<in> set xs \<Longrightarrow> f x = Some (g x)) \<Longrightarrow> all_some (map f xs) = Some (map g xs)"
  by (induction xs) auto

lemma raw_round_trip:
  assumes "distinct cs" "length cs = 64"
  shows "raw_decode cs (raw_encode cs bs) = Some bs"
proof -
  let ?vs = "sextets (map of_char bs)"
  have bytes: "list_all (\<lambda>x. x < 256) (map of_char bs :: nat list)" by (auto simp: list_all_iff of_char_bound)
  have "position (cs ! v) cs = Some v" if "v \<in> set ?vs" for v
    using sextets_bound [OF bytes] that assms by (intro position_nth) (auto simp: list_all_iff)
  then have "all_some (map (\<lambda>v. position (cs ! v) cs) ?vs) = Some (map (\<lambda>v. v) ?vs)" by (rule all_some_map_Some)
  then have "all_some (map (\<lambda>c. position c cs) (raw_encode cs bs)) = Some ?vs" by (simp add: raw_encode_def o_def)
  then show ?thesis using octets_sextets [OF bytes] by (simp add: raw_decode_def o_def)
qed

lemma raw_encode_chars: "length cs = 64 \<Longrightarrow> set (raw_encode cs bs) \<subseteq> set cs"
proof -
  assume "length cs = 64"
  moreover have "list_all (\<lambda>v. v < 64) (sextets (map of_char bs))"
    by (rule sextets_bound) (auto simp: list_all_iff of_char_bound)
  ultimately show ?thesis by (auto simp: raw_encode_def list_all_iff)
qed

lemma length_sextets: "length (sextets bs) = (4 * length bs + 2) div 3"
  by (induction bs rule: sextets.induct) auto

lemma HasSuffix_iff: "HasSuffix s p \<longleftrightarrow> (\<exists>r. s = r @ p)"
proof
  assume "HasSuffix s p"
  then have "s = take (length s - length p) s @ p" by (metis HasSuffix_def append_take_drop_id)
  then show "\<exists>r. s = r @ p" ..
qed (auto simp: HasSuffix_def)

lemma StdDecode_StdEncode: "StdDecode (StdEncode bs) = Some bs"
proof -
  let ?t = "raw_encode std_alphabet bs"
  have chars: "set ?t \<subseteq> set std_alphabet" by (rule raw_encode_chars) (rule alphabets)
  then have no: "CHR ''='' \<notin> set ?t" "CHR 0x0A \<notin> set ?t" "CHR 0x0D \<notin> set ?t"
    using alphabets(5) by (auto simp: list_all_iff)
  have clean: "no_breaks (?t @ padding n) = ?t @ padding n" for n
    using no by (auto simp: no_breaks_def padding_def filter_id_conv)
  have raw: "raw_decode std_alphabet ?t = Some bs" by (rule raw_round_trip) (rule alphabets)+
  have "length ?t = (4 * length bs + 2) div 3" by (simp add: raw_encode_def length_sextets)
  then have "length ?t mod 4 \<noteq> 1" by presburger
  moreover have "length ?t mod 4 < 4" by simp
  ultimately consider "length ?t mod 4 = 0" | "length ?t mod 4 = 2" | "length ?t mod 4 = 3" by linarith
  then show ?thesis
  proof cases
    case 1
    have "\<not> HasSuffix ?t ''==''" "\<not> HasSuffix ?t ''=''"
      using no(1) by (auto simp: HasSuffix_iff)
    with 1 clean [of "length ?t"] raw show ?thesis by (simp add: StdDecode_def StdEncode_def Let_def padding_def)
  next
    case 2
    then have "padding (length ?t) = ''==''" by (simp add: padding_def numeral_2_eq_2)
    moreover from 2 have "(length ?t + 2) mod 4 = 0" by presburger
    ultimately show ?thesis using clean [of "length ?t"] raw
      by (simp add: StdDecode_def StdEncode_def Let_def HasSuffix_def)
  next
    case 3
    then have p: "padding (length ?t) = ''=''" by (simp add: padding_def)
    from 3 have "(length ?t + 1) mod 4 = 0" by presburger
    moreover have "\<not> HasSuffix (?t @ ''='') ''==''"
    proof
      assume "HasSuffix (?t @ ''='') ''==''"
      then obtain r where "?t @ ''='' = (r @ ''='') @ ''=''" by (auto simp: HasSuffix_iff)
      then have "?t = r @ ''=''" by (rule append_same_eq [THEN iffD1])
      with no(1) show False by simp
    qed
    moreover have "HasSuffix (?t @ ''='') ''=''" by (auto simp: HasSuffix_iff)
    ultimately show ?thesis using p clean [of "length ?t"] raw by (simp add: StdDecode_def StdEncode_def Let_def)
  qed
qed

lemma RawURLDecode_RawURLEncode: "RawURLDecode (RawURLEncode bs) = Some bs"
proof -
  have "set (raw_encode url_alphabet bs) \<subseteq> set url_alphabet" by (rule raw_encode_chars) (rule alphabets)
  then have "no_breaks (raw_encode url_alphabet bs) = raw_encode url_alphabet bs"
    using alphabets(6) by (auto simp: no_breaks_def filter_id_conv list_all_iff)
  with raw_round_trip [OF alphabets(3,4)] show ?thesis by (simp add: RawURLDecode_def RawURLEncode_def)
qed

end
