(* ===== verification/AuthGate.thy ===== *)
theory AuthGate
  imports Consumer Base64 "HOL-Library.Word"
begin

unbundle bit_operations_syntax

text \<open>
  The way of a request to its handler: the error answers of \<open>apierr\<close>, the claims and the key set of
  \<open>authclient\<close> (both under \<open>third_party/platform-go\<close>), the middlewares of \<open>internal/middleware\<close> and
  the refresh of the key set in \<open>cmd/server/main.go\<close>.  The parser of signed tokens, the token bucket of
  one client and the fetch of the key set are arguments.
\<close>

section \<open>Requests and answers\<close>

record request =
  rq_Method :: string
  rq_Path :: string
  rq_Params :: "(string \<times> string) list"
  rq_Query :: "(string \<times> string) list"
  rq_Headers :: "(string \<times> string) list"
  rq_Body :: string
  rq_ClientIP :: string       \<comment> \<open>as gin derives it from the peer and the trusted proxies\<close>

text \<open>\<open>c.Param\<close>, \<open>c.Query\<close> and \<open>c.GetHeader\<close>: the value, or the empty string.\<close>

definition get_or_empty :: "(string \<times> string) list \<Rightarrow> string \<Rightarrow> string" where
  "get_or_empty m k = (case map_of m k of Some v \<Rightarrow> v | None \<Rightarrow> [])"

text \<open>What is written: a body with its status, an error envelope with details, or a status alone.\<close>

datatype 'a answer =
    Answer nat 'a
  | Refused nat string string "(string \<times> string) list"
  | Bare nat

fun status_of :: "'a answer \<Rightarrow> nat" where
  "status_of (Answer n a) = n"
| "status_of (Refused n c m d) = n"
| "status_of (Bare n) = n"

type_synonym ('s, 'a) handler = "'s \<Rightarrow> 'a answer \<times> 's"

definition reply :: "nat \<Rightarrow> 'a \<Rightarrow> ('s, 'a) handler" where
  "reply n a = (\<lambda>s. (Answer n a, s))"

definition write_err :: "nat \<Rightarrow> string \<Rightarrow> string \<Rightarrow> ('s, 'a) handler" where
  "write_err n code message = (\<lambda>s. (Refused n code message [], s))"

definition write_with :: "nat \<Rightarrow> string \<Rightarrow> string \<Rightarrow> (string \<times> string) list \<Rightarrow> ('s, 'a) handler" where
  "write_with n code message details = (\<lambda>s. (Refused n code message details, s))"

definition Unauthorized :: "string \<Rightarrow> ('s, 'a) handler" where
  "Unauthorized m = write_err 401 ''UNAUTHORIZED'' (if m = [] then ''authentication required'' else m)"

definition BadRequest :: "string \<Rightarrow> ('s, 'a) handler" where
  "BadRequest m = write_err 400 ''BAD_REQUEST'' (if m = [] then ''invalid request'' else m)"

definition NotFound :: "string \<Rightarrow> ('s, 'a) handler" where
  "NotFound m = write_err 404 ''NOT_FOUND'' (if m = [] then ''resource not found'' else m)"

text \<open>\<open>v, err := f(); if err != nil { ... }\<close> in a handler, and a call whose result is not looked at.\<close>

definition tryH :: "('s, 'b) cmd \<Rightarrow> (err \<Rightarrow> ('s, 'a) handler) \<Rightarrow> ('b \<Rightarrow> ('s, 'a) handler) \<Rightarrow> ('s, 'a) handler" where
  "tryH m f g = (\<lambda>s. case m s of (Inl e, s') \<Rightarrow> f e s' | (Inr b, s') \<Rightarrow> g b s')"

definition doH :: "('s, 'b) cmd \<Rightarrow> ('s, 'a) handler \<Rightarrow> ('s, 'a) handler" where
  "doH m h = (\<lambda>s. h (snd (m s)))"

section \<open>Claims\<close>

record Claims =
  cl_Email :: string
  cl_Name :: string
  cl_PrincipalType :: string
  cl_ClientID :: string
  cl_IsSuperuser :: bool
  cl_IsStaff :: bool
  cl_Groups :: "string list"
  cl_Permissions :: "string list"
  cl_Subject :: string

definition HasPermission :: "Claims \<Rightarrow> string \<Rightarrow> bool" where
  "HasPermission c name \<longleftrightarrow> cl_IsSuperuser c \<or> list_ex (\<lambda>p. p = name) (cl_Permissions c)"

section \<open>The verifier\<close>

record rsa_key =
  rk_N :: nat
  rk_E :: "64 word"

text \<open>
  \<open>ParseWithClaims\<close> of the token library, with issuer, audience, RS256 and expiry demanded: it asks a
  function for the key of the token's header and answers with the claims and whether the token is valid.
\<close>

type_synonym jwt_parser = "(gmap \<Rightarrow> err + rsa_key) \<Rightarrow> string \<Rightarrow> err + (Claims \<times> bool)"

type_synonym key_set = "(string \<times> rsa_key) list"

definition key_for :: "key_set \<Rightarrow> gmap \<Rightarrow> err + rsa_key" where
  "key_for keys header =
     (let kid = (case as_str (mget header ''kid'') of Some k \<Rightarrow> k | None \<Rightarrow> []) in
      if kid = [] then Inl (ErrMsg ''authclient: token missing kid header'')
      else case map_of keys kid of
        None \<Rightarrow> Inl (ErrMsg (''authclient: unknown kid '' @ kid))
      | Some key \<Rightarrow> Inr key)"

definition Verify :: "jwt_parser \<Rightarrow> key_set \<Rightarrow> string \<Rightarrow> err + Claims" where
  "Verify jwt keys token = (case jwt (key_for keys) token of
     Inl e \<Rightarrow> Inl e
   | Inr (claims, valid) \<Rightarrow> if valid then Inr claims else Inl (ErrMsg ''authclient: invalid token''))"

definition HasKeys :: "key_set \<Rightarrow> bool" where
  "HasKeys keys \<longleftrightarrow> length keys > 0"

text \<open>One entry of the key document: an RSA key with an id whose two numbers decode, or nothing.\<close>

record jwk =
  jk_Kty :: string
  jk_Kid :: string
  jk_N :: string
  jk_E :: string

definition big_endian :: "string \<Rightarrow> nat" where
  "big_endian bs = foldl (\<lambda>n b. 256 * n + of_char b) 0 bs"

definition usable_key :: "jwk \<Rightarrow> (string \<times> rsa_key) option" where
  "usable_key k =
     (if jk_Kty k \<noteq> ''RSA'' \<or> jk_Kid k = [] then None
      else case (RawURLDecode (jk_N k), RawURLDecode (jk_E k)) of
        (Some nBytes, Some eBytes) \<Rightarrow>
          Some (jk_Kid k, \<lparr>rk_N = big_endian nBytes, rk_E = foldl (\<lambda>e b. push_bit 8 e OR of_char b) 0 eBytes\<rparr>)
      | _ \<Rightarrow> None)"

definition key_set_of :: "jwk list \<Rightarrow> key_set" where
  "key_set_of ks = foldl (\<lambda>m k. case usable_key k of None \<Rightarrow> m | Some (kid, key) \<Rightarrow> AList.update kid key m) [] ks"

text \<open>
  \<open>Refresh\<close> replaces the key set when the fetched document has usable keys and leaves it otherwise.
  The fetch and its JSON are an argument.
\<close>

definition Refresh :: "err + jwk list \<Rightarrow> key_set \<Rightarrow> (err + unit) \<times> key_set" where
  "Refresh fetched keys = (case fetched of
     Inl e \<Rightarrow> (Inl e, keys)
   | Inr doc \<Rightarrow> if key_set_of doc = [] then (Inl (ErrMsg ''authclient: jwks contained no usable RSA keys''), keys)
       else (Inr (), key_set_of doc))"

text \<open>
  The load at boot: at most five attempts, the first that works ends it.  One element per attempt: what
  the fetch gives, and whether the context is done after it or during the wait that follows.
\<close>

fun refresh_attempts :: "(err + jwk list) list \<Rightarrow> bool list \<Rightarrow> nat \<Rightarrow> key_set \<Rightarrow> (err + unit) \<times> key_set" where
  "refresh_attempts (f # fs) (done' # ds) (Suc n) keys =
     (case Refresh f keys of
        (Inr (), keys') \<Rightarrow> (Inr (), keys')
      | (Inl e, keys') \<Rightarrow> if done' then (Inl ErrContext, keys') else if n = 0 then (Inl e, keys')
          else refresh_attempts fs ds n keys')"
| "refresh_attempts _ _ _ keys = (Inl ErrContext, keys)"

definition refreshJWKSWithRetry :: "(err + jwk list) list \<Rightarrow> bool list \<Rightarrow> key_set \<Rightarrow> (err + unit) \<times> key_set" where
  "refreshJWKSWithRetry fs ds keys = refresh_attempts fs ds 5 keys"

text \<open>The loop: the wait before each refresh, in seconds, and the key sets that result.\<close>

definition refresh_wait :: "key_set \<Rightarrow> nat" where
  "refresh_wait keys = (if \<not> HasKeys keys then 15 else 900)"

fun jwksRefreshLoop :: "(err + jwk list) list \<Rightarrow> key_set \<Rightarrow> (nat \<times> key_set) list" where
  "jwksRefreshLoop [] keys = []"
| "jwksRefreshLoop (f # fs) keys =
     (let keys' = snd (Refresh f keys) in (refresh_wait keys, keys') # jwksRefreshLoop fs keys')"

section \<open>Authentication\<close>

record principal =
  pr_UserID :: uuid
  pr_Claims :: Claims

record PlatformAuth =
  pa_authMode :: string
  pa_verify :: "(string \<Rightarrow> err + Claims) option"    \<comment> \<open>\<open>None\<close>: no verifier\<close>

definition isPublicProbePath :: "string \<Rightarrow> bool" where
  "isPublicProbePath path \<longleftrightarrow> path = ''/health'' \<or> path = ''/healthz'' \<or> path = ''/ready''"

definition isPublicTracePath :: "string \<Rightarrow> bool" where
  "isPublicTracePath path \<longleftrightarrow> HasPrefix path ''/public/q/''"

definition bearerToken :: "request \<Rightarrow> string" where
  "bearerToken rq = (let header = get_or_empty (rq_Headers rq) ''Authorization'' in
     if HasPrefix header ''Bearer '' then TrimPrefix header ''Bearer '' else [])"

text \<open>A middleware gets the rest of the chain as an argument; not calling it is \<open>Abort\<close>.\<close>

definition fromJWT :: "ext \<Rightarrow> PlatformAuth \<Rightarrow> request \<Rightarrow> (principal option \<Rightarrow> ('s, 'a) handler) \<Rightarrow> ('s, 'a) handler" where
  "fromJWT X m rq next = (case pa_verify m of
     None \<Rightarrow> write_err 503 ''SERVICE_UNAVAILABLE'' ''JWT verifier not configured''
   | Some verify \<Rightarrow>
       let token = bearerToken rq in
       if token = [] then next None
       else case verify token of
         Inl _ \<Rightarrow> Unauthorized ''invalid or expired token''
       | Inr claims \<Rightarrow>
           let uid = (case x_uuid_parse X (cl_Subject claims) of Some u \<Rightarrow> u | None \<Rightarrow> uuid_Nil)
           in next (Some \<lparr>pr_UserID = uid, pr_Claims = claims\<rparr>))"

definition VerifyBearerToken :: "ext \<Rightarrow> PlatformAuth \<Rightarrow> string \<Rightarrow> err + (uuid \<times> Claims)" where
  "VerifyBearerToken X m tokenStr = (case pa_verify m of
     None \<Rightarrow> Inl (ErrMsg ''jwt verifier not configured'')
   | Some verify \<Rightarrow> bindE (verify tokenStr) (\<lambda>claims.
       Inr (case x_uuid_parse X (cl_Subject claims) of Some u \<Rightarrow> u | None \<Rightarrow> uuid_Nil, claims)))"

definition AttachPrincipal :: "ext \<Rightarrow> PlatformAuth \<Rightarrow> request \<Rightarrow> (principal option \<Rightarrow> ('s, 'a) handler) \<Rightarrow> ('s, 'a) handler" where
  "AttachPrincipal X m rq next =
     (if isPublicProbePath (rq_Path rq) \<or> isPublicTracePath (rq_Path rq) then next None
      else if pa_authMode m = ''jwt'' then fromJWT X m rq next
      else next None)"

definition UserID :: "principal option \<Rightarrow> uuid option" where
  "UserID p = map_option pr_UserID p"

definition PlatformClaims :: "principal option \<Rightarrow> Claims option" where
  "PlatformClaims p = map_option pr_Claims p"

definition RequireAuth :: "request \<Rightarrow> principal option \<Rightarrow> ('s, 'a) handler \<Rightarrow> ('s, 'a) handler" where
  "RequireAuth rq p next =
     (if isPublicProbePath (rq_Path rq) \<or> isPublicTracePath (rq_Path rq) then next
      else if UserID p = None then Unauthorized ''authentication required'' else next)"

definition RequirePermission :: "string \<Rightarrow> principal option \<Rightarrow> ('s, 'a) handler \<Rightarrow> ('s, 'a) handler" where
  "RequirePermission code p next =
     (case PlatformClaims p of
        Some claims \<Rightarrow>
          if HasPermission claims code then next
          else write_with 403 ''FORBIDDEN'' (''permission denied: '' @ code) [(''required_permission'', code)]
      | None \<Rightarrow> write_with 403 ''FORBIDDEN'' (''permission denied: '' @ code) [(''required_permission'', code)])"

definition ActorName :: "principal option \<Rightarrow> string" where
  "ActorName p = (case PlatformClaims p of
     None \<Rightarrow> ''anonymous''
   | Some c \<Rightarrow>
       if TrimSpace (cl_Name c) \<noteq> [] then TrimSpace (cl_Name c)
       else if TrimSpace (cl_Email c) \<noteq> [] then TrimSpace (cl_Email c)
       else if cl_Subject c \<noteq> [] then cl_Subject c else ''anonymous'')"

end
