(* ===== verification/WebState.thy ===== *)
theory WebState
  imports AuthGate
begin

text \<open>
  What the HTTP layer keeps beside the tables: the request log (\<open>internal/auditlog/store.go\<close>,
  \<open>middleware/audit.go\<close>), the payload cache (\<open>internal/cache/json_cache.go\<close>), the buckets of the rate
  limiter (\<open>middleware/ratelimit.go\<close>) and the throttle of the alerts (\<open>internal/notify/publisher.go\<close>).
\<close>

section \<open>State\<close>

record api_row =
  ar_method :: string
  ar_path :: string
  ar_status_code :: int
  ar_user_name :: string
  ar_duration_ms :: int
  ar_client_ip :: string
  ar_logged_at :: int

text \<open>A cache entry is a text and the time it expires; each call to the cache takes one outcome.\<close>

record cache_entry =
  ce_text :: string
  ce_expires :: int

text \<open>The token bucket of one client is known by the times it was asked, newest last.\<close>

record limiterMap =
  lm_buckets :: "(string \<times> int list) list"
  lm_lastSeen :: "(string \<times> int) list"

record web = ingest +
  api_audit :: "api_row list"
  qr_cache :: "(string \<times> cache_entry) list"
  redis_script :: "bool list"
  limits :: limiterMap
  alert_last :: "(string \<times> int) list"

section \<open>The request log\<close>

definition log_sql :: "api_row \<Rightarrow> 'z web_scheme \<Rightarrow> err + (unit \<times> 'z web_scheme)" where
  "log_sql r s = Inr ((), s\<lparr>api_audit := api_audit s @ [r\<lparr>ar_logged_at := now_us s\<rparr>]\<rparr>)"

definition LogAPIRequest :: "api_row \<Rightarrow> ('z web_scheme, unit) cmd" where
  "LogAPIRequest r = execC (log_sql r)"

definition audit_limit :: "int \<Rightarrow> int" where
  "audit_limit limit = (if limit \<le> 0 \<or> limit > 200 then 50 else limit)"

text \<open>\<open>CountBounded\<close> with its default cap.\<close>

definition CountBounded :: "nat \<Rightarrow> nat" where
  "CountBounded rows = min rows 10000"

definition ListAPIAuditLogs :: "int \<Rightarrow> ('z web_scheme, api_row list \<times> nat) cmd" where
  "ListAPIAuditLogs limit =
     bindC (wrapC ''bounded count'' (queryC (\<lambda>s. CountBounded (length (api_audit s))))) (\<lambda>total.
     bindC (queryC (\<lambda>s. take (nat (audit_limit limit)) (sort_key (\<lambda>r. - ar_logged_at r) (api_audit s)))) (\<lambda>rows.
       retC (rows, total)))"

definition APIMonitoringActivity :: "int \<Rightarrow> ('z web_scheme, api_row list) cmd" where
  "APIMonitoringActivity limit = bindC (ListAPIAuditLogs limit) (\<lambda>(items, _). retC items)"

record monitoring =
  mo_requests_24h :: nat
  mo_errors_24h :: nat
  mo_avg_duration_ms :: rat
  mo_trace_events :: nat
  mo_active_qr_codes :: nat
  mo_kafka_consumer_enabled :: bool
  mo_total_qr_scans :: int
  mo_kafka_events_seen :: nat
  mo_kafka_dead_letters :: nat

definition last_day :: "'z web_scheme \<Rightarrow> api_row list" where
  "last_day s = filter (\<lambda>r. ar_logged_at r \<ge> now_us s - 86400000000) (api_audit s)"

definition APIMonitoringSummary :: "('z web_scheme, nat \<times> nat \<times> rat) cmd" where
  "APIMonitoringSummary = queryC (\<lambda>s. let rows = last_day s in
     (length rows, length (filter (\<lambda>r. ar_status_code r \<ge> 400) rows),
      if rows = [] then 0 else of_int (sum_list (map ar_duration_ms rows)) / of_nat (length rows)))"

text \<open>Each further number is left at zero when its query fails.\<close>

definition MonitoringSummary :: "bool \<Rightarrow> ('z web_scheme, monitoring) cmd" where
  "MonitoringSummary kafkaEnabled =
     bindC APIMonitoringSummary (\<lambda>(total, errors, avg).
     bindC (okC (queryC (\<lambda>s. length (trace_events s))) 0) (\<lambda>events.
     bindC (okC (queryC (\<lambda>s. length (filter (\<lambda>r. qr_revoked_at r = None) (lot_qr_codes s)))) 0) (\<lambda>activeQR.
     bindC (okC (queryC (\<lambda>s. sum_list (map qr_scan_count (lot_qr_codes s)))) 0) (\<lambda>totalScans.
     bindC (okC (queryC (\<lambda>s. length (kafka_dedupe s))) 0) (\<lambda>dedupeCount.
     bindC (okC (queryC (\<lambda>s. length (kafka_dead_letter s))) 0) (\<lambda>deadLetterCount.
       retC \<lparr>mo_requests_24h = total, mo_errors_24h = errors, mo_avg_duration_ms = avg, mo_trace_events = events,
         mo_active_qr_codes = activeQR, mo_kafka_consumer_enabled = kafkaEnabled, mo_total_qr_scans = totalScans,
         mo_kafka_events_seen = dedupeCount, mo_kafka_dead_letters = deadLetterCount\<rparr>))))))"

definition RecentDeadLetters :: "int \<Rightarrow> ('z web_scheme, dead_letter_row list) cmd" where
  "RecentDeadLetters limit = queryC (\<lambda>s.
     take (nat (audit_limit limit)) (sort_key (\<lambda>d. - dl_received_at d) (kafka_dead_letter s)))"

text \<open>
  \<open>RequestAudit\<close>: the handler runs first; probes and public scans are not logged; a failed write is dropped.
\<close>

definition RequestAudit :: "bool \<Rightarrow> request \<Rightarrow> principal option \<Rightarrow> ('z web_scheme, 'a) handler \<Rightarrow> ('z web_scheme, 'a) handler" where
  "RequestAudit audit rq p next = (\<lambda>s.
     case next s of (a, s1) \<Rightarrow>
       if \<not> audit \<or> isPublicProbePath (rq_Path rq) \<or> isPublicTracePath (rq_Path rq) then (a, s1)
       else (a, snd (ignoreC (LogAPIRequest
         \<lparr>ar_method = rq_Method rq, ar_path = rq_Path rq, ar_status_code = int (status_of a), ar_user_name = ActorName p,
          ar_duration_ms = (now_us s1 - now_us s) div 1000, ar_client_ip = rq_ClientIP rq, ar_logged_at = 0\<rparr>) s1)))"

section \<open>The payload cache\<close>

definition redis_ok :: "'z web_scheme \<Rightarrow> bool" where
  "redis_ok s = (case redis_script s of [] \<Rightarrow> True | b # _ \<Rightarrow> b)"

definition redis_step :: "'z web_scheme \<Rightarrow> 'z web_scheme" where
  "redis_step s = s\<lparr>redis_script := tl (redis_script s)\<rparr>"

datatype redis_get = RedisErr | RedisNil | RedisText string

definition redis_Get :: "string \<Rightarrow> 'z web_scheme \<Rightarrow> redis_get \<times> 'z web_scheme" where
  "redis_Get key s =
     (if \<not> redis_ok s then RedisErr
      else case map_of (qr_cache s) key of
        Some e \<Rightarrow> if now_us s < ce_expires e then RedisText (ce_text e) else RedisNil
      | None \<Rightarrow> RedisNil, redis_step s)"

definition redis_Set :: "string \<Rightarrow> string \<Rightarrow> int \<Rightarrow> 'z web_scheme \<Rightarrow> 'z web_scheme" where
  "redis_Set key v ttl s =
     (if redis_ok s then (redis_step s)\<lparr>qr_cache := AList.update key \<lparr>ce_text = v, ce_expires = now_us s + ttl\<rparr> (qr_cache s)\<rparr>
      else redis_step s)"

definition redis_Del :: "string \<Rightarrow> 'z web_scheme \<Rightarrow> 'z web_scheme" where
  "redis_Del key s = (if redis_ok s then (redis_step s)\<lparr>qr_cache := AList.delete key (qr_cache s)\<rparr> else redis_step s)"

text \<open>
  \<open>GetOrSet\<close> of a cache with a server (\<open>Some\<close> its time to live) or without one.  \<open>marshal\<close> and
  \<open>unmarshal\<close> are the JSON form of what is cached and its reading into the destination.
\<close>

definition copyViaJSON :: "('a \<Rightarrow> string option) \<Rightarrow> (string \<Rightarrow> err + 'b) \<Rightarrow> 'a \<Rightarrow> err + 'b" where
  "copyViaJSON marshal unmarshal src = (case marshal src of
     None \<Rightarrow> Inl (ErrMsg ''json: unsupported value'') | Some t \<Rightarrow> unmarshal t)"

definition GetOrSet :: "int option \<Rightarrow> string \<Rightarrow> ('a \<Rightarrow> string option) \<Rightarrow> (string \<Rightarrow> err + 'b) \<Rightarrow>
    ('z web_scheme, 'a) cmd \<Rightarrow> ('z web_scheme, 'b) cmd" where
  "GetOrSet c key marshal unmarshal load = (case c of
     None \<Rightarrow> bindC load (\<lambda>v. liftC (copyViaJSON marshal unmarshal v))
   | Some ttl \<Rightarrow> (\<lambda>s. case redis_Get key s of
       (RedisText raw, s1) \<Rightarrow> liftC (unmarshal raw) s1
     | (RedisErr, s1) \<Rightarrow> bindC load (\<lambda>v. liftC (copyViaJSON marshal unmarshal v)) s1
     | (RedisNil, s1) \<Rightarrow> bindC load (\<lambda>v s2. case marshal v of
           None \<Rightarrow> liftC (copyViaJSON marshal unmarshal v) s2
         | Some b \<Rightarrow> liftC (unmarshal b) (redis_Set key b ttl s2)) s1))"

definition cache_Delete :: "int option \<Rightarrow> string \<Rightarrow> ('z web_scheme, unit) cmd" where
  "cache_Delete c key = (case c of None \<Rightarrow> retC () | Some _ \<Rightarrow> modifyC (redis_Del key))"

section \<open>The rate limiter\<close>

text \<open>
  \<open>allow\<close> is the third-party limiter: whether a bucket of the given rate per minute and burst lets a call
  pass, from the times of the earlier calls and the time of this one.
\<close>

record limiter_cfg =
  lc_perMinute :: f64
  lc_burst :: int

fun f64_positive :: "f64 \<Rightarrow> bool" where
  "f64_positive (Fin x) = (x > 0)"
| "f64_positive NegZero = False"
| "f64_positive PosInf = True"
| "f64_positive NegInf = False"
| "f64_positive NaN = True"     \<comment> \<open>\<open>perMinute <= 0\<close> is false\<close>

definition newLimiterMap :: "f64 \<Rightarrow> int \<Rightarrow> limiter_cfg \<times> limiterMap" where
  "newLimiterMap perMinute burst =
     (\<lparr>lc_perMinute = (if \<not> f64_positive perMinute then Fin 60 else perMinute), lc_burst = (if burst \<le> 0 then 10 else burst)\<rparr>,
      \<lparr>lm_buckets = [], lm_lastSeen = []\<rparr>)"

text \<open>The bucket of a client; with more than 1024 of them those not seen for an hour are dropped.\<close>

definition limiter_get :: "string \<Rightarrow> int \<Rightarrow> limiterMap \<Rightarrow> int list \<times> limiterMap" where
  "limiter_get key now m =
     (let calls = (case map_of (lm_buckets m) key of None \<Rightarrow> [] | Some h \<Rightarrow> h);
          buckets = (case map_of (lm_buckets m) key of None \<Rightarrow> AList.update key [] (lm_buckets m) | Some _ \<Rightarrow> lm_buckets m);
          seen = AList.update key now (lm_lastSeen m)
      in (calls,
         if length buckets > 1024 then
           let stale = map fst (filter (\<lambda>(k, t). t < now - 3600000000) seen) in
           \<lparr>lm_buckets = filter (\<lambda>(k, _). k \<notin> set stale) buckets, lm_lastSeen = filter (\<lambda>(k, _). k \<notin> set stale) seen\<rparr>
         else \<lparr>lm_buckets = buckets, lm_lastSeen = seen\<rparr>))"

type_synonym bucket = "limiter_cfg \<Rightarrow> int list \<Rightarrow> int \<Rightarrow> bool"

text \<open>\<open>lm.get(key).Allow()\<close>.\<close>

definition limiter_step :: "bucket \<Rightarrow> limiter_cfg \<Rightarrow> string \<Rightarrow> int \<Rightarrow> limiterMap \<Rightarrow> bool \<times> limiterMap" where
  "limiter_step allow lc key now m =
     (case limiter_get key now m of (calls, m1) \<Rightarrow>
        (allow lc calls now, m1\<lparr>lm_buckets := AList.update key (calls @ [now]) (lm_buckets m1)\<rparr>))"

definition PublicRateLimit :: "bucket \<Rightarrow> limiter_cfg \<Rightarrow> request \<Rightarrow> ('z web_scheme, 'a) handler \<Rightarrow> ('z web_scheme, 'a) handler" where
  "PublicRateLimit allow lc rq next = (\<lambda>s.
     let key = (if rq_ClientIP rq = [] then ''_unknown'' else rq_ClientIP rq);
         (ok, m) = limiter_step allow lc key (now_us s) (limits s);
         s1 = s\<lparr>limits := m\<rparr>
     in if \<not> ok then write_err 429 ''RATE_LIMIT'' ''rate limit exceeded'' s1 else next s1)"

section \<open>Alerts\<close>

record notifier =
  no_producer :: bool
  no_topic :: string
  no_recipient :: string       \<comment> \<open>\<open>NOTIFY_DEFAULT_RECIPIENT\<close>\<close>

definition notify_Source :: string where
  "notify_Source = ''iag.traceability''"

definition TopicNotifications :: string where
  "TopicNotifications = ''iag.notifications''"

definition notify_New :: "string list \<Rightarrow> string \<Rightarrow> string \<Rightarrow> notifier" where
  "notify_New brokers topic recipient =
     (if length brokers = 0 \<or> length brokers = 1 \<and> TrimSpace (brokers ! 0) = []
      then \<lparr>no_producer = False, no_topic = [], no_recipient = TrimSpace recipient\<rparr>
      else \<lparr>no_producer = True, no_topic = (if topic = [] then TopicNotifications else topic), no_recipient = TrimSpace recipient\<rparr>)"

definition allow_alert :: "string \<Rightarrow> int \<Rightarrow> ('z web_scheme, bool) cmd" where
  "allow_alert key window = (\<lambda>s. case map_of (alert_last s) key of
     Some last' \<Rightarrow> if now_us s - last' < window then (Inr False, s)
       else (Inr True, s\<lparr>alert_last := AList.update key (now_us s) (alert_last s)\<rparr>)
   | None \<Rightarrow> (Inr True, s\<lparr>alert_last := AList.update key (now_us s) (alert_last s)\<rparr>))"

definition alert_data :: "notifier \<Rightarrow> string \<Rightarrow> string \<Rightarrow> gmap" where
  "alert_data p title body = [(''channel'', GStr ''email''), (''recipient'', GStr (no_recipient p)),
     (''audience'', GStr ''ops.traceability''), (''templateId'', GStr ''traceability.alert''),
     (''variables'', GMap [(''Title'', GStr title), (''Body'', GStr body)])]"

definition Alert :: "ext \<Rightarrow> notifier \<Rightarrow> string \<Rightarrow> string \<Rightarrow> string \<Rightarrow> ('z web_scheme, unit) cmd" where
  "Alert X p key title body =
     (if \<not> no_producer p then retC ()
      else bindC (NewEnvelope notify_Source ''notification.requested'' (alert_data p title body)) (\<lambda>env.
        ignoreC (Publish X (no_topic p) key env)))"

definition AlertOnce :: "ext \<Rightarrow> notifier \<Rightarrow> string \<Rightarrow> string \<Rightarrow> string \<Rightarrow> int \<Rightarrow> ('z web_scheme, unit) cmd" where
  "AlertOnce X p key title body window =
     (if \<not> no_producer p then retC ()
      else bindC (allow_alert key window) (\<lambda>ok. if \<not> ok then retC () else Alert X p key title body))"

end
