(* ===== verification/ServiceConfig.thy ===== *)
theory ServiceConfig
  imports GoLib
begin

text \<open>
  \<open>internal/config/config.go\<close> (and \<open>corsenv\<close>): the configuration read from the environment, a function
  from names to values that is empty where a variable is not set.  Parsing of durations, of floats and of
  URLs is an argument.
\<close>

section \<open>Helpers\<close>

type_synonym env = "string \<Rightarrow> string"

record parsers =
  ps_Duration :: "string \<Rightarrow> int option"       \<comment> \<open>\<open>time.ParseDuration\<close>, microseconds\<close>
  ps_Float :: "string \<Rightarrow> f64 option"           \<comment> \<open>\<open>strconv.ParseFloat\<close>\<close>
  ps_url_base :: "string \<Rightarrow> string option"     \<comment> \<open>a URL with scheme and host without path, query and fragment\<close>

definition getenv :: "env \<Rightarrow> string \<Rightarrow> string \<Rightarrow> string" where
  "getenv env key def = (let v = TrimSpace (env key) in if v \<noteq> [] then v else def)"

definition splitCSV :: "string \<Rightarrow> string list" where
  "splitCSV s = filter (\<lambda>p. p \<noteq> []) (map TrimSpace (Split s (CHR '','')))"

definition getEnvDuration :: "parsers \<Rightarrow> env \<Rightarrow> string \<Rightarrow> string \<Rightarrow> int" where
  "getEnvDuration P env key def =
     (let v = (if TrimSpace (env key) = [] then def else TrimSpace (env key)) in
      case ps_Duration P v of Some d \<Rightarrow> d
      | None \<Rightarrow> (case ps_Duration P def of Some d \<Rightarrow> d | None \<Rightarrow> 0))"

definition getEnvFloat :: "parsers \<Rightarrow> env \<Rightarrow> string \<Rightarrow> f64 \<Rightarrow> f64" where
  "getEnvFloat P env key def =
     (let v = TrimSpace (env key) in
      if v = [] then def else case ps_Float P v of None \<Rightarrow> def | Some f \<Rightarrow> f)"

definition getEnvInt :: "env \<Rightarrow> string \<Rightarrow> int \<Rightarrow> int" where
  "getEnvInt env key def =
     (let v = TrimSpace (env key) in if v = [] then def else case Atoi v of None \<Rightarrow> def | Some n \<Rightarrow> n)"

definition getEnvBool :: "env \<Rightarrow> string \<Rightarrow> bool \<Rightarrow> bool" where
  "getEnvBool env key def =
     (let v = ToLower (TrimSpace (env key)) in
      if TrimSpace (env key) = [] then def
      else if v \<in> {''1'', ''true'', ''yes'', ''on''} then True
      else if v \<in> {''0'', ''false'', ''no'', ''off''} then False
      else def)"

definition EnvKeys :: "string list" where
  "EnvKeys = [''CORS_ALLOWED_ORIGINS'', ''CORS_ALLOW_ORIGIN'', ''CORS_ORIGIN'', ''ALLOWED_ORIGINS'', ''CORS_ORIGINS'']"

definition Allowlist :: "env \<Rightarrow> string \<Rightarrow> string" where
  "Allowlist env fallback = (case find (\<lambda>k. TrimSpace (env k) \<noteq> []) EnvKeys of
     Some k \<Rightarrow> TrimSpace (env k)
   | None \<Rightarrow> if fallback = [] then ''http://localhost:3000,http://localhost:5173'' else fallback)"

text \<open>\<open>strings.LastIndex\<close>, \<open>None\<close> for -1.\<close>

definition LastIndex :: "string \<Rightarrow> string \<Rightarrow> nat option" where
  "LastIndex s p = find (\<lambda>i. HasPrefix (drop i s) p) (rev [0..<Suc (length s)])"

definition authServiceBaseFromTokenURL :: "parsers \<Rightarrow> string \<Rightarrow> string" where
  "authServiceBaseFromTokenURL P tokenURL' =
     (let tokenURL = TrimSpace tokenURL' in
      if tokenURL = [] then []
      else case ps_url_base P tokenURL of
        Some base \<Rightarrow> TrimRight base (CHR ''/'')
      | None \<Rightarrow> (case LastIndex tokenURL ''/oauth/token'' of
          Some i \<Rightarrow> if i > 0 then TrimRight (take i tokenURL) (CHR ''/'') else TrimRight tokenURL (CHR ''/'')
        | None \<Rightarrow> TrimRight tokenURL (CHR ''/'')))"

section \<open>The configuration\<close>

record Cfg =
  cfg_Environment :: string
  cfg_ServiceName :: string
  cfg_Port :: string
  cfg_LogLevel :: string
  cfg_DatabaseURL :: string
  cfg_RedisURL :: string
  cfg_AutoMigrate :: bool
  cfg_AuthMode :: string
  cfg_JWTIssuer :: string
  cfg_JWKSURL :: string
  cfg_Audience :: string
  cfg_ServiceClientID :: string
  cfg_ServiceClientSecret :: string
  cfg_AuthTokenURL :: string
  cfg_AuthServiceURL :: string
  cfg_CORSOrigins :: "string list"
  cfg_GatewayAPIPrefix :: string
  cfg_PublicTraceBaseURL :: string
  cfg_PublicAPIURL :: string
  cfg_SupplyChainBaseURL :: string
  cfg_SupplyChainAudience :: string
  cfg_KafkaBrokers :: "string list"
  cfg_KafkaClientID :: string
  cfg_KafkaConsumerGroup :: string
  cfg_KafkaSupplyChainTopic :: string
  cfg_KafkaProductionTopic :: string
  cfg_KafkaQualityTopic :: string
  cfg_PublicRateLimitPerMin :: f64
  cfg_PublicRateBurst :: int
  cfg_CacheTTL :: int
  cfg_StoryPlaceholderJourney :: bool
  cfg_TrustedProxies :: "string list"
  cfg_PublicPreciseGeo :: bool
  cfg_ChainEnabled :: bool
  cfg_SCMSyncEnabled :: bool
  cfg_SCMSyncInterval :: int
  cfg_SCMSyncSameDB :: bool
  cfg_SCMDatabaseURL :: string
  cfg_AnchorEnabled :: bool
  cfg_AnchorInterval :: int
  cfg_AnchorSigningAlgo :: string
  cfg_AnchorKeyID :: string
  cfg_AnchorSigningKey :: string
  cfg_AnchorProvider :: string
  cfg_AnchorRPCURL :: string
  cfg_AnchorContract :: string
  cfg_VaultAddr :: string
  cfg_VaultToken :: string
  cfg_VaultTransitMount :: string
  cfg_VaultTransitKey :: string

definition PrivateNetworks :: "string list" where
  "PrivateNetworks = [''10.0.0.0/8'', ''172.16.0.0/12'', ''192.168.0.0/16'', ''127.0.0.0/8'', ''fc00::/7'', ''::1/128'']"

text \<open>The struct literal of \<open>Load\<close>.\<close>

definition loaded :: "parsers \<Rightarrow> env \<Rightarrow> string \<Rightarrow> string \<Rightarrow> Cfg" where
  "loaded P env environment authMode = (let trimmed = (\<lambda>k. TrimSpace (env k)) in \<lparr>
     cfg_Environment = environment,
     cfg_ServiceName = getenv env ''SERVICE_NAME'' ''traceability'',
     cfg_Port = getenv env ''PORT'' ''4011'',
     cfg_LogLevel = getenv env ''LOG_LEVEL'' ''info'',
     cfg_DatabaseURL = trimmed ''DATABASE_URL'',
     cfg_RedisURL = getenv env ''REDIS_URL'' ''redis://127.0.0.1:6379/0'',
     cfg_AutoMigrate = (getenv env ''AUTO_MIGRATE'' ''true'' \<noteq> ''false''),
     cfg_AuthMode = authMode,
     cfg_JWTIssuer = getenv env ''JWT_ISSUER'' ''http://localhost:3001'',
     cfg_JWKSURL = getenv env ''JWKS_URL'' ''http://localhost:3001/.well-known/jwks.json'',
     cfg_Audience = getenv env ''AUDIENCE'' ''iag.traceability'',
     cfg_ServiceClientID = getenv env ''SERVICE_CLIENT_ID'' ''iag-traceability'',
     cfg_ServiceClientSecret = env ''SERVICE_CLIENT_SECRET'',
     cfg_AuthTokenURL = TrimSpace (getenv env ''AUTH_TOKEN_URL'' []),
     cfg_AuthServiceURL = [],
     cfg_CORSOrigins = splitCSV (Allowlist env ''http://localhost:3000,http://localhost:8080''),
     cfg_GatewayAPIPrefix = getenv env ''GATEWAY_API_PREFIX'' ''/api/v1/traceability'',
     cfg_PublicTraceBaseURL = getenv env ''PUBLIC_TRACE_BASE_URL'' ''http://localhost:8080/api/v1/traceability/public/q'',
     cfg_PublicAPIURL = getenv env ''PUBLIC_API_URL'' ''http://localhost:8080'',
     cfg_SupplyChainBaseURL = TrimRight (getenv env ''SUPPLY_CHAIN_BASE_URL'' ''http://127.0.0.1:4007'') (CHR ''/''),
     cfg_SupplyChainAudience = getenv env ''SUPPLY_CHAIN_AUDIENCE'' ''iag.supply-chain'',
     cfg_KafkaBrokers = splitCSV (getenv env ''KAFKA_BROKERS'' []),
     cfg_KafkaClientID = getenv env ''KAFKA_CLIENT_ID'' ''iag-traceability'',
     cfg_KafkaConsumerGroup = getenv env ''KAFKA_CONSUMER_GROUP'' ''iag.traceability'',
     cfg_KafkaSupplyChainTopic = getenv env ''KAFKA_SUPPLY_CHAIN_TOPIC'' ''iag.supply-chain'',
     cfg_KafkaProductionTopic = getenv env ''KAFKA_PRODUCTION_TOPIC'' ''iag.production'',
     cfg_KafkaQualityTopic = getenv env ''KAFKA_QUALITY_TOPIC'' ''iag.quality'',
     cfg_PublicRateLimitPerMin = getEnvFloat P env ''PUBLIC_RATE_LIMIT'' (Fin 60),
     cfg_PublicRateBurst = getEnvInt env ''PUBLIC_RATE_BURST'' 10,
     cfg_CacheTTL = getEnvDuration P env ''CACHE_TTL'' ''5m'',
     cfg_StoryPlaceholderJourney = getEnvBool env ''STORY_PLACEHOLDER_JOURNEY'' (environment \<noteq> ''production''),
     cfg_TrustedProxies = splitCSV (getenv env ''TRUSTED_PROXIES'' (join_with '','' PrivateNetworks)),
     cfg_PublicPreciseGeo = getEnvBool env ''PUBLIC_PRECISE_GEO'' False,
     cfg_ChainEnabled = (getenv env ''CHAIN_ENABLED'' ''false'' = ''true''),
     cfg_SCMSyncEnabled = getEnvBool env ''SCM_SYNC_ENABLED'' False,
     cfg_SCMSyncInterval = getEnvDuration P env ''SCM_SYNC_INTERVAL'' ''60s'',
     cfg_SCMSyncSameDB = getEnvBool env ''SCM_SYNC_SAME_DB'' (trimmed ''SCM_DATABASE_URL'' = []),
     cfg_SCMDatabaseURL = trimmed ''SCM_DATABASE_URL'',
     cfg_AnchorEnabled = getEnvBool env ''ANCHOR_ENABLED'' False,
     cfg_AnchorInterval = getEnvDuration P env ''ANCHOR_INTERVAL'' ''0s'',
     cfg_AnchorSigningAlgo = getenv env ''ANCHOR_SIGNING_ALGO'' ''none'',
     cfg_AnchorKeyID = getenv env ''ANCHOR_KEY_ID'' [],
     cfg_AnchorSigningKey = trimmed ''ANCHOR_SIGNING_KEY'',
     cfg_AnchorProvider = getenv env ''ANCHOR_PROVIDER'' ''none'',
     cfg_AnchorRPCURL = trimmed ''ANCHOR_RPC_URL'',
     cfg_AnchorContract = trimmed ''ANCHOR_CONTRACT_ADDRESS'',
     cfg_VaultAddr = trimmed ''VAULT_ADDR'',
     cfg_VaultToken = trimmed ''VAULT_TOKEN'',
     cfg_VaultTransitMount = getenv env ''VAULT_TRANSIT_MOUNT'' ''transit'',
     cfg_VaultTransitKey = trimmed ''VAULT_TRANSIT_KEY''\<rparr>)"

definition Load :: "parsers \<Rightarrow> env \<Rightarrow> err + Cfg" where
  "Load P env =
     (let environment = ToLower (TrimSpace (getenv env ''ENVIRONMENT'' ''development''));
          authMode = ToLower (TrimSpace (getenv env ''AUTH_MODE'' ''jwt''))
      in if authMode \<noteq> ''jwt'' then Inl (ErrMsg (''AUTH_MODE must be jwt (got '' @ CHR 0x22 # authMode @ CHR 0x22 # '')''))
      else let c = loaded P env environment authMode in
        if cfg_DatabaseURL c = [] then Inl (ErrMsg ''DATABASE_URL is required'')
        else let
          c1 = (if cfg_AuthTokenURL c = [] then c\<lparr>cfg_AuthTokenURL := TrimRight (cfg_JWTIssuer c) (CHR ''/'') @ ''/oauth/token''\<rparr> else c);
          u0 = TrimSpace (env ''AUTH_SERVICE_URL'');
          u1 = (if u0 = [] then authServiceBaseFromTokenURL P (cfg_AuthTokenURL c1) else u0);
          u2 = (if u1 = [] then TrimRight (cfg_JWTIssuer c1) (CHR ''/'') else u1)
        in Inr (c1\<lparr>cfg_AuthServiceURL := u2\<rparr>))"

definition PublicTraceURLConfigured :: "Cfg \<Rightarrow> bool" where
  "PublicTraceURLConfigured c =
     (let u = ToLower (TrimSpace (cfg_PublicTraceBaseURL c)) in
      u \<noteq> [] \<and> \<not> list_ex (Contains u) [''localhost'', ''127.0.0.1'', ''0.0.0.0'', ''[::1]''])"

definition LocalEnvironment :: "Cfg \<Rightarrow> bool" where
  "LocalEnvironment c \<longleftrightarrow> cfg_Environment c \<in> {[], ''development'', ''dev'', ''local'', ''test''}"

lemma TrimSpace_Nil: "TrimSpace [] = []"
  by code_simp

end
