(* ===== verification/Handlers.thy ===== *)
theory Handlers
  imports WebState ServiceConfig Anchoring
begin

text \<open>
  \<open>internal/handlers\<close>: one definition per HTTP handler, from the request to the answer and the new state.
  A handler's own errors are answers; a failed call it drops leaves no trace in the answer.  Reading a
  request body as JSON, the time formats, the PNG encoder and the random bytes are arguments.
\<close>

section \<open>The API object\<close>

record weblib =
  wl_json :: "nat \<Rightarrow> string \<Rightarrow> gval option"   \<comment> \<open>the JSON value of a body read through a reader of so many bytes\<close>
  wl_parse :: "string \<Rightarrow> gval option"         \<comment> \<open>\<open>json.Unmarshal\<close> into a dynamic value\<close>
  wl_rfc3339 :: "string \<Rightarrow> int option"        \<comment> \<open>\<open>time.Parse(time.RFC3339, s)\<close>, microseconds\<close>
  wl_date :: "string \<Rightarrow> int option"           \<comment> \<open>\<open>time.ParseInLocation("2006-01-02", s, time.UTC)\<close>\<close>
  wl_png :: "string \<Rightarrow> string option"

record API =
  ap_Cfg :: Cfg
  ap_chain :: bool                    \<comment> \<open>the store's chain switch\<close>
  ap_story :: StoryCfg
  ap_Audit :: bool
  ap_QRCache :: "int option"          \<comment> \<open>the cache's time to live\<close>
  ap_metrics :: bool
  ap_Anchor :: "Service option"
  ap_Notify :: "notifier option"

record chain_node =
  nd_event_type :: string
  nd_occurred_at :: int
  nd_entity_type :: string
  nd_entity_business_id :: string
  nd_source_service :: string

text \<open>The bodies of the answers.\<close>

datatype body =
    BHealth string
  | BReady
  | BBatchChain string "chain_node list" bool int
  | BEvent TraceEvent
  | BEvents "TraceEvent list" bool int
  | BPublished string string string
  | BRevoked string "QRRegisterRow option"
  | BPayload "PublicPayload option"
  | BPng string
  | BQRCodes "QRRegisterRow list" bool int
  | BQRCode QRRegisterRow
  | BAnchors "AnchorRow list"
  | BLatestAnchor "(AnchorRow \<times> string \<times> string \<times> string) option"
  | BCreatedAnchor "AnchorRow option"
  | BProof ProofResult
  | BCustodyChain "ChainBlock list" bool
  | BVerify ChainVerifyResult bool
  | BAuditLogs "api_row list" nat
  | BMonitoring monitoring "Snapshot option"
  | BActivity "api_row list"
  | BDeadLetters "dead_letter_row list"

type_synonym 'z endpoint = "('z web_scheme, body) handler"

definition internal_error :: "string \<Rightarrow> 'z endpoint" where
  "internal_error m = write_err 500 ''INTERNAL'' m"

definition unavailable :: "string \<Rightarrow> 'z endpoint" where
  "unavailable m = write_err 503 ''SERVICE_UNAVAILABLE'' m"

text \<open>\<open>errors.Is\<close>.\<close>

fun errors_Is :: "err \<Rightarrow> err \<Rightarrow> bool" where
  "errors_Is (ErrWrap m e) t = errors_Is e t"
| "errors_Is e t = (e = t)"

section \<open>Limits and filters\<close>

definition validEntityType :: "string \<Rightarrow> bool" where
  "validEntityType t \<longleftrightarrow> t = ''lot'' \<or> t = ''batch'' \<or> t = ''farm'' \<or> t = ''party''"

definition parseLimit :: "string \<Rightarrow> int" where
  "parseLimit raw = (if raw = [] then 200
     else case Atoi raw of
       None \<Rightarrow> 200
     | Some n \<Rightarrow> if n \<le> 0 then 200 else if n > 499 then 499 else n)"

definition trimForLimit :: "'a list \<Rightarrow> int \<Rightarrow> 'a list \<times> bool" where
  "trimForLimit events limit = (if int (length events) > limit then (take (nat limit) events, True) else (events, False))"

definition parseTimeOrDate :: "weblib \<Rightarrow> string \<Rightarrow> (int \<times> bool) option" where
  "parseTimeOrDate L s = (case wl_rfc3339 L s of
     Some t \<Rightarrow> Some (t, False)
   | None \<Rightarrow> map_option (\<lambda>t. (t, True)) (wl_date L s))"

text \<open>\<open>Inl\<close> is the reason to refuse; a day is 86400 seconds of UTC.\<close>

definition parseEventFilter :: "weblib \<Rightarrow> string \<Rightarrow> string \<Rightarrow> string \<Rightarrow> string \<Rightarrow> string \<Rightarrow> string + EventFilter" where
  "parseEventFilter L entityType' businessID' eventTypes from' to' =
     (let entityType = TrimSpace entityType'; businessID = TrimSpace businessID';
          types = filter (\<lambda>t. t \<noteq> []) (map TrimSpace (Split eventTypes (CHR '','')));
          f = no_filter\<lparr>fl_EntityType := entityType, fl_EntityBusinessID := businessID, fl_EventTypes := types\<rparr>
      in if businessID \<noteq> [] \<and> entityType = [] then Inl ''entity_business_id requires entity_type''
      else if entityType \<noteq> [] \<and> \<not> validEntityType entityType then Inl ''entity_type must be one of: lot, batch, farm, party''
      else if length types > 25 then Inl ''too many event_type values (max 25)''
      else case (if TrimSpace from' = [] then Inr None
                 else case parseTimeOrDate L (TrimSpace from') of
                   None \<Rightarrow> Inl ''from must be RFC 3339 or YYYY-MM-DD''
                 | Some (t, _) \<Rightarrow> Inr (Some t)) of
        Inl reason \<Rightarrow> Inl reason
      | Inr lo \<Rightarrow>
        (case (if TrimSpace to' = [] then Inr None
               else case parseTimeOrDate L (TrimSpace to') of
                 None \<Rightarrow> Inl ''to must be RFC 3339 or YYYY-MM-DD''
               | Some (t, dateOnly) \<Rightarrow> Inr (Some (if dateOnly then t + 86400000000 else t))) of
          Inl reason \<Rightarrow> Inl reason
        | Inr hi \<Rightarrow>
            (case (lo, hi) of
               (Some l, Some h) \<Rightarrow> if \<not> l < h then Inl ''from must be before to'' else Inr (f\<lparr>fl_From := lo, fl_To := hi\<rparr>)
             | _ \<Rightarrow> Inr (f\<lparr>fl_From := lo, fl_To := hi\<rparr>))))"

section \<open>Probes\<close>

definition Health :: "API \<Rightarrow> 'z endpoint" where
  "Health a = reply 200 (BHealth (cfg_ServiceName (ap_Cfg a)))"

definition Ready :: "'z endpoint" where
  "Ready = tryH Ping (\<lambda>_. unavailable ''database unavailable'') (\<lambda>_. reply 200 BReady)"

section \<open>Events\<close>

definition BuildChainFromEvents :: "TraceEvent list \<Rightarrow> chain_node list" where
  "BuildChainFromEvents events = map (\<lambda>ev. \<lparr>nd_event_type = te_event_type ev, nd_occurred_at = te_occurred_at ev,
     nd_entity_type = te_entity_type ev, nd_entity_business_id = te_entity_business_id ev,
     nd_source_service = te_source_service ev\<rparr>) events"

definition GetBatchChain :: "request \<Rightarrow> 'z endpoint" where
  "GetBatchChain rq =
     (let businessID = get_or_empty (rq_Params rq) ''businessId''; limit = parseLimit (get_or_empty (rq_Query rq) ''limit'') in
      tryH (ListEventsForEntity ''batch'' businessID (limit + 1))
        (\<lambda>_. internal_error ''failed to load chain'')
        (\<lambda>evs. case trimForLimit evs limit of (events, hasMore) \<Rightarrow>
          reply 200 (BBatchChain businessID (BuildChainFromEvents events) hasMore limit)))"

record event_body =
  eb_OccurredAt :: "int option"
  eb_EventType :: string
  eb_EntityType :: string
  eb_EntityBusinessID :: string
  eb_EntityID :: "uuid option"
  eb_RelatedIDs :: "gmap option"
  eb_Payload :: "gmap option"
  eb_IdempotencyKey :: "string option"

text \<open>An optional member: absent or null is nil, a value of the wrong kind is an error.\<close>

definition dec_opt :: "(gval \<Rightarrow> 'a option) \<Rightarrow> gval option \<Rightarrow> err + 'a option" where
  "dec_opt f v = (case v of None \<Rightarrow> Inr None
     | Some g \<Rightarrow> (case f g of None \<Rightarrow> Inl type_error | Some a \<Rightarrow> Inr (Some a)))"

definition dec_event_body :: "ext \<Rightarrow> weblib \<Rightarrow> string \<Rightarrow> err + event_body" where
  "dec_event_body X L raw = (case wl_json L (256 * 1024) raw of
     None \<Rightarrow> Inl (ErrMsg ''invalid character'')
   | Some v \<Rightarrow> (case (case v of GNil \<Rightarrow> Some [] | GMap m \<Rightarrow> Some m | _ \<Rightarrow> None) of
       None \<Rightarrow> Inl type_error
     | Some m \<Rightarrow>
        bindE (dec_opt (\<lambda>g. Option.bind (as_str (Some g)) (wl_rfc3339 L)) (struct_get m ''occurred_at'')) (\<lambda>occ.
        bindE (dec_str (struct_get m ''event_type'')) (\<lambda>et.
        bindE (dec_str (struct_get m ''entity_type'')) (\<lambda>nt.
        bindE (dec_str (struct_get m ''entity_business_id'')) (\<lambda>bid.
        bindE (dec_opt (\<lambda>g. Option.bind (as_str (Some g)) (x_uuid_parse X)) (struct_get m ''entity_id'')) (\<lambda>eid.
        bindE (dec_opt (\<lambda>g. as_map (Some g)) (struct_get m ''related_ids'')) (\<lambda>rel.
        bindE (dec_opt (\<lambda>g. as_map (Some g)) (struct_get m ''payload'')) (\<lambda>pay.
        bindE (dec_opt (\<lambda>g. as_str (Some g)) (struct_get m ''idempotency_key'')) (\<lambda>key.
          Inr \<lparr>eb_OccurredAt = occ, eb_EventType = et, eb_EntityType = nt, eb_EntityBusinessID = bid, eb_EntityID = eid,
            eb_RelatedIDs = rel, eb_Payload = pay, eb_IdempotencyKey = key\<rparr>))))))))))"

text \<open>The checks of \<open>RecordEvent\<close> in their order: a status, a code and a message, or nothing to object.\<close>

definition event_refusal :: "principal option \<Rightarrow> int \<Rightarrow> event_body \<Rightarrow> (nat \<times> string \<times> string) option" where
  "event_refusal p now b =
     (if eb_EventType b = [] \<or> eb_EntityType b = [] \<or> eb_EntityBusinessID b = []
      then Some (400, ''BAD_REQUEST'', ''event_type, entity_type, and entity_business_id are required'')
      else case ValidateEventType (eb_EventType b) of
        Inl e \<Rightarrow> Some (400, ''BAD_REQUEST'', err_text e)
      | Inr _ \<Rightarrow>
        if \<not> validEntityType (eb_EntityType b)
        then Some (400, ''BAD_REQUEST'', ''entity_type must be one of: lot, batch, farm, party'')
        else case ValidateEventPayload (eb_EventType b) (eb_EntityType b) (or_empty (eb_Payload b)) of
          Inl e \<Rightarrow> Some (400, ''BAD_REQUEST'', err_text e)
        | Inr _ \<Rightarrow>
          if eb_EventType b = ''CORRECTION'' \<and> \<not> (case PlatformClaims p of Some c \<Rightarrow> cl_IsSuperuser c | None \<Rightarrow> False)
          then Some (403, ''FORBIDDEN'', ''CORRECTION events require superuser'')
          else case eb_OccurredAt b of
            Some t \<Rightarrow> if t > now + 300000000 then Some (400, ''BAD_REQUEST'', ''occurred_at may not be in the future'') else None
          | None \<Rightarrow> None)"

definition merged_related :: "event_body \<Rightarrow> gmap" where
  "merged_related b = (case as_map (mget (or_empty (eb_Payload b)) ''related_ids'') of
     Some nested \<Rightarrow> mmerge (or_empty (eb_RelatedIDs b)) nested
   | None \<Rightarrow> or_empty (eb_RelatedIDs b))"

definition event_input :: "principal option \<Rightarrow> int \<Rightarrow> event_body \<Rightarrow> AppendEventInput" where
  "event_input p now b = \<lparr>
     in_OccurredAt = (case eb_OccurredAt b of Some t \<Rightarrow> t | None \<Rightarrow> now),
     in_EventType = eb_EventType b, in_EntityType = eb_EntityType b, in_EntityBusinessID = eb_EntityBusinessID b,
     in_EntityID = eb_EntityID b, in_RelatedIDs = Some (merged_related b), in_ActorUserID = UserID p,
     in_SourceService = ''iag-traceability'', in_Payload = eb_Payload b, in_IdempotencyKey = eb_IdempotencyKey b\<rparr>"

definition RecordEvent :: "ext \<Rightarrow> weblib \<Rightarrow> API \<Rightarrow> principal option \<Rightarrow> request \<Rightarrow> 'z endpoint" where
  "RecordEvent X L a p rq = (case dec_event_body X L (rq_Body rq) of
     Inl _ \<Rightarrow> BadRequest ''invalid or oversized JSON body''
   | Inr b \<Rightarrow> (\<lambda>s. case event_refusal p (now_us s) b of
       Some (status, code, message) \<Rightarrow> write_err status code message s
     | None \<Rightarrow>
         tryH (AppendEvent X (ap_chain a) (event_input p (now_us s) b))
           (\<lambda>_. internal_error ''failed to append event'')
           (\<lambda>ev. doH (AfterAppend X (ap_story a) (eb_EventType b) (eb_EntityType b) (eb_EntityBusinessID b) (merged_related b))
              (reply 201 (BEvent ev))) s))"

definition handle_ListEvents :: "weblib \<Rightarrow> request \<Rightarrow> 'z endpoint" where
  "handle_ListEvents L rq =
     (let q = get_or_empty (rq_Query rq) in
      case parseEventFilter L (q ''entity_type'') (q ''entity_business_id'') (q ''event_type'') (q ''from'') (q ''to'') of
        Inl reason \<Rightarrow> BadRequest reason
      | Inr f \<Rightarrow>
          let limit = parseLimit (q ''limit'') in
          tryH (ListEvents (f\<lparr>fl_Limit := limit + 1\<rparr>))
            (\<lambda>_. internal_error ''failed to list events'')
            (\<lambda>evs. case trimForLimit evs limit of (events, hasMore) \<Rightarrow> reply 200 (BEvents events hasMore limit)))"

section \<open>QR codes\<close>

definition publicQRCacheKey :: "string \<Rightarrow> string" where
  "publicQRCacheKey token = ''trace:public:q:'' @ token"

text \<open>\<open>randomToken\<close>: 24 random bytes in URL-safe base64.\<close>

definition GeneratePublicToken :: "string \<Rightarrow> string" where
  "GeneratePublicToken bytes = RawURLEncode bytes"

definition gate_alert :: "string \<Rightarrow> string" where
  "gate_alert lot = ''QR publishing is blocked for every lot: the SCM compliance gate is configured '' @
     ''but unreachable. Publishes will keep returning 503 until SCM recovers. '' @
     ''Most recent attempt was for lot '' @ lot @ ''.''"

definition PublishLotQR :: "ext \<Rightarrow> API \<Rightarrow> string \<Rightarrow> request \<Rightarrow> 'z endpoint" where
  "PublishLotQR X a rand rq =
     (let lot = get_or_empty (rq_Params rq) ''businessId'' in
      if \<not> LocalEnvironment (ap_Cfg a) \<and> \<not> PublicTraceURLConfigured (ap_Cfg a)
      then unavailable ''PUBLIC_TRACE_BASE_URL is not set to a public address; a QR published now would point nowhere''
      else tryH (ValidateLotPublish X (ap_story a) lot)
        (\<lambda>e. if e = ErrComplianceGateUnavailable then
               doH (case ap_Notify a of
                      None \<Rightarrow> retC ()
                    | Some n \<Rightarrow> AlertOnce X n ''compliance-gate-unavailable'' ''Traceability compliance gate is unavailable''
                        (gate_alert lot) 1800000000)
                 (unavailable (err_text e))
             else write_err 422 ''COMPLIANCE_FAILED'' (err_text e))
        (\<lambda>_. let token = GeneratePublicToken rand; publicURL = cfg_PublicTraceBaseURL (ap_Cfg a) @ ''/'' @ token in
           tryH (bindC (LotQRPublishedRow X lot token publicURL) (UpsertLotQRTx lot token))
             (\<lambda>_. internal_error ''failed to publish QR'')
             (\<lambda>_. doH (ComposeAndStoreLotStory X (ap_story a) lot publicURL)
                (doH (cache_Delete (ap_QRCache a) (publicQRCacheKey token))
                  (reply 200 (BPublished lot token publicURL))))))"

definition publicURLFor :: "API \<Rightarrow> string \<Rightarrow> string" where
  "publicURLFor a token = cfg_PublicTraceBaseURL (ap_Cfg a) @ ''/'' @ token"

definition with_url :: "API \<Rightarrow> QRRegisterRow \<Rightarrow> QRRegisterRow" where
  "with_url a row = row\<lparr>rg_PublicURL := publicURLFor a (rg_Token row)\<rparr>"

definition RevokeLotQR :: "ext \<Rightarrow> API \<Rightarrow> request \<Rightarrow> 'z endpoint" where
  "RevokeLotQR X a rq =
     (let lot = get_or_empty (rq_Params rq) ''businessId'';
          revoke = (\<lambda>known. tryH (bindC (LotQRRevokedRow X lot (case known of Some t \<Rightarrow> t | None \<Rightarrow> [])) (RevokeLotQRTx lot))
            (\<lambda>e. if e = ErrNotFound then NotFound ''lot QR not found or already revoked'' else internal_error ''failed to revoke QR'')
            (\<lambda>_. doH (case known of None \<Rightarrow> retC () | Some t \<Rightarrow> cache_Delete (ap_QRCache a) (publicQRCacheKey t))
               (tryH (GetQRRegisterRow lot)
                  (\<lambda>_. reply 200 (BRevoked lot None))
                  (\<lambda>row. reply 200 (BRevoked lot (Some (with_url a row)))))))
      in tryH (GetLotQRByLotID lot) (\<lambda>_. revoke None) (\<lambda>qr. revoke (Some (lq_PublicToken qr))))"

text \<open>The payload as JSON, in the order of the struct, and its reading back.\<close>

definition marshal_payload :: "ext \<Rightarrow> PublicPayload \<Rightarrow> string option" where
  "marshal_payload X p =
     (let enc = json_marshal (x_fmt_float X); member = (\<lambda>k v. map_option (\<lambda>t. json_string k @ '':'' @ t) (enc v)) in
      map_option (\<lambda>ts. ''{'' @ join_with '','' ts @ ''}'') (all_some
        [member ''brand'' (GStr (pp_Brand p)), member ''lot_business_id'' (GStr (pp_LotID p)),
         member ''journey'' (case pp_Journey p of None \<Rightarrow> GNil | Some j \<Rightarrow> GArr j),
         member ''standards'' (GStrs (pp_Standards p)), member ''public_url'' (GStr (pp_PublicURL p)),
         member ''story'' (GMap (pp_Story p)), member ''status'' (GStr (pp_Status p))]))"

definition dec_payload :: "weblib \<Rightarrow> string \<Rightarrow> err + PublicPayload option" where
  "dec_payload L text = (case wl_parse L text of
     None \<Rightarrow> Inl (ErrMsg ''invalid character'')
   | Some GNil \<Rightarrow> Inr None
   | Some (GMap m) \<Rightarrow>
       bindE (dec_str (struct_get m ''brand'')) (\<lambda>brand.
       bindE (dec_str (struct_get m ''lot_business_id'')) (\<lambda>lot.
       bindE (dec_opt (\<lambda>g. case g of GArr j \<Rightarrow> Some j | _ \<Rightarrow> None) (struct_get m ''journey'')) (\<lambda>journey.
       bindE (dec_strs (struct_get m ''standards'')) (\<lambda>standards.
       bindE (dec_str (struct_get m ''public_url'')) (\<lambda>url.
       bindE (dec_opt (\<lambda>g. as_map (Some g)) (struct_get m ''story'')) (\<lambda>story.
       bindE (dec_str (struct_get m ''status'')) (\<lambda>status.
         Inr (Some \<lparr>pp_Brand = brand, pp_LotID = lot, pp_Journey = journey, pp_Standards = standards, pp_PublicURL = url,
           pp_Story = or_empty story, pp_Status = status\<rparr>))))))))
   | Some _ \<Rightarrow> Inl type_error)"

definition resolve_error :: "err \<Rightarrow> 'z endpoint" where
  "resolve_error e = (if e = ErrNotFound then NotFound ''QR not found or revoked'' else internal_error ''failed to resolve QR'')"

definition PublicQR :: "ext \<Rightarrow> weblib \<Rightarrow> API \<Rightarrow> request \<Rightarrow> 'z endpoint" where
  "PublicQR X L a rq =
     (let token = get_or_empty (rq_Params rq) ''token'';
          load = ResolvePublicQR (ap_story a) token (cfg_PublicTraceBaseURL (ap_Cfg a))
      in case ap_QRCache a of
        Some ttl \<Rightarrow> tryH (GetOrSet (Some ttl) (publicQRCacheKey token) (marshal_payload X) (dec_payload L) load)
          resolve_error (\<lambda>payload. reply 200 (BPayload payload))
      | None \<Rightarrow> tryH load resolve_error (\<lambda>payload. reply 200 (BPayload (Some payload))))"

definition PublicQRPng :: "weblib \<Rightarrow> API \<Rightarrow> request \<Rightarrow> 'z endpoint" where
  "PublicQRPng L a rq =
     (let token = get_or_empty (rq_Params rq) ''token'' in
      tryH (ResolvePublicQRNoCount (ap_story a) token (cfg_PublicTraceBaseURL (ap_Cfg a))) resolve_error
        (\<lambda>payload. case wl_png L (pp_PublicURL payload) of
           None \<Rightarrow> internal_error ''failed to generate QR image''
         | Some png \<Rightarrow> reply 200 (BPng png)))"

section \<open>The register\<close>

definition ListQRCodes :: "ext \<Rightarrow> API \<Rightarrow> request \<Rightarrow> 'z endpoint" where
  "ListQRCodes X a rq =
     (let q = get_or_empty (rq_Query rq); limit = parseLimit (q ''limit'') in
      tryH (ListQRRegister X \<lparr>rf_Status = q ''status'', rf_Q = q ''q'', rf_Limit = limit + 1\<rparr>)
        (\<lambda>e. if errors_Is e ErrInvalidFilter then BadRequest ''status must be one of: live, revoked''
             else internal_error ''failed to list QR codes'')
        (\<lambda>all. case trimForLimit all limit of (rows, hasMore) \<Rightarrow> reply 200 (BQRCodes (map (with_url a) rows) hasMore limit)))"

definition loadQRRow :: "API \<Rightarrow> string \<Rightarrow> (QRRegisterRow \<Rightarrow> 'z endpoint) \<Rightarrow> 'z endpoint" where
  "loadQRRow a lot next =
     tryH (GetQRRegisterRow lot)
       (\<lambda>e. if errors_Is e ErrNotFound then NotFound ''lot QR not found'' else internal_error ''failed to load QR code'')
       (\<lambda>row. next (with_url a row))"

definition GetQRCode :: "API \<Rightarrow> request \<Rightarrow> 'z endpoint" where
  "GetQRCode a rq = loadQRRow a (get_or_empty (rq_Params rq) ''lotBusinessId'') (\<lambda>row. reply 200 (BQRCode row))"

text \<open>\<open>utf8.RuneCountInString\<close> of valid UTF-8: the bytes that do not continue a rune.\<close>

definition rune_count :: "string \<Rightarrow> nat" where
  "rune_count s = length (filter (\<lambda>c. \<not> (0x80 \<le> (of_char c :: nat) \<and> (of_char c :: nat) < 0xC0)) s)"

definition validateStoryPatch :: "string option \<Rightarrow> string option \<Rightarrow> string" where
  "validateStoryPatch title story =
     (if title = None \<and> story = None then ''story_title or story_body is required''
      else if (case title of Some t \<Rightarrow> rune_count t > 200 | None \<Rightarrow> False) then ''story_title must be at most 200 characters''
      else if (case story of Some t \<Rightarrow> rune_count t > 5000 | None \<Rightarrow> False) then ''story_body must be at most 5000 characters''
      else [])"

definition dec_story_body :: "weblib \<Rightarrow> string \<Rightarrow> err + string option \<times> string option" where
  "dec_story_body L raw = (case wl_json L (64 * 1024) raw of
     None \<Rightarrow> Inl (ErrMsg ''invalid character'')
   | Some v \<Rightarrow> (case (case v of GNil \<Rightarrow> Some [] | GMap m \<Rightarrow> Some m | _ \<Rightarrow> None) of
       None \<Rightarrow> Inl type_error
     | Some m \<Rightarrow>
        bindE (dec_opt (\<lambda>g. as_str (Some g)) (struct_get m ''story_title'')) (\<lambda>title.
        bindE (dec_opt (\<lambda>g. as_str (Some g)) (struct_get m ''story_body'')) (\<lambda>story. Inr (title, story)))))"

definition PatchQRStory :: "ext \<Rightarrow> weblib \<Rightarrow> API \<Rightarrow> principal option \<Rightarrow> request \<Rightarrow> 'z endpoint" where
  "PatchQRStory X L a p rq =
     (let lot = get_or_empty (rq_Params rq) ''lotBusinessId'' in
      case dec_story_body L (rq_Body rq) of
        Inl _ \<Rightarrow> BadRequest ''invalid or oversized JSON body''
      | Inr (title, story) \<Rightarrow>
          if validateStoryPatch title story \<noteq> [] then BadRequest (validateStoryPatch title story)
          else tryH (SetStoryOverride X lot
              \<lparr>pt_StoryTitle = title, pt_StoryBody = story, pt_UpdatedBy = ActorName p, pt_UpdatedByUserID = UserID p\<rparr>)
            (\<lambda>e. if errors_Is e ErrNotFound then NotFound ''lot QR not found'' else internal_error ''failed to update story'')
            (\<lambda>_. loadQRRow a lot (\<lambda>row. doH (cache_Delete (ap_QRCache a) (publicQRCacheKey (rg_Token row)))
               (reply 200 (BQRCode row)))))"

section \<open>Custody chain and anchors\<close>

definition GetCustodyChain :: "API \<Rightarrow> request \<Rightarrow> 'z endpoint" where
  "GetCustodyChain a rq =
     (let q = get_or_empty (rq_Query rq) in
      tryH (ListChain (q ''batchId'') (parseLimit (q ''limit'')))
        (\<lambda>_. internal_error ''failed to load custody chain'')
        (\<lambda>blocks. reply 200 (BCustodyChain blocks (ap_chain a))))"

definition VerifyCustodyChain :: "ext \<Rightarrow> API \<Rightarrow> 'z endpoint" where
  "VerifyCustodyChain X a = tryH (VerifyChain X) (\<lambda>_. internal_error ''failed to verify custody chain'')
     (\<lambda>res. reply 200 (BVerify res (ap_chain a)))"

definition anchorDisabled :: "'z endpoint" where
  "anchorDisabled = unavailable ''notarization (anchoring) is not enabled on this deployment''"

definition handle_ListAnchors :: "API \<Rightarrow> request \<Rightarrow> 'z endpoint" where
  "handle_ListAnchors a rq = (case ap_Anchor a of None \<Rightarrow> anchorDisabled
     | Some sv \<Rightarrow> tryH (Anchoring.List sv (parseLimit (get_or_empty (rq_Query rq) ''limit'')))
         (\<lambda>_. internal_error ''failed to list anchors'') (\<lambda>rows. reply 200 (BAnchors rows)))"

definition handle_LatestAnchor :: "API \<Rightarrow> 'z endpoint" where
  "handle_LatestAnchor a = (case ap_Anchor a of None \<Rightarrow> anchorDisabled
     | Some sv \<Rightarrow> tryH (Latest sv)
         (\<lambda>e. if errors_Is e ErrNotFound then reply 200 (BLatestAnchor None) else internal_error ''failed to load latest anchor'')
         (\<lambda>row. reply 200 (BLatestAnchor (Some (row, SignerInfo sv)))))"

definition handle_CreateAnchor :: "API \<Rightarrow> 'z endpoint" where
  "handle_CreateAnchor a = (case ap_Anchor a of None \<Rightarrow> anchorDisabled
     | Some sv \<Rightarrow> tryH (CreateAnchor sv)
         (\<lambda>e. if errors_Is e ErrNothingToAnchor then reply 200 (BCreatedAnchor None) else internal_error ''failed to create anchor'')
         (\<lambda>row. reply 201 (BCreatedAnchor (Some row))))"

definition AnchorProof :: "API \<Rightarrow> request \<Rightarrow> 'z endpoint" where
  "AnchorProof a rq = (case ap_Anchor a of None \<Rightarrow> anchorDisabled
     | Some sv \<Rightarrow> (case Atoi (get_or_empty (rq_Query rq) ''seq'') of
         None \<Rightarrow> write_err 400 ''VALIDATION_ERROR'' ''seq query param (positive integer) is required''
       | Some seq \<Rightarrow>
           if seq \<le> 0 then write_err 400 ''VALIDATION_ERROR'' ''seq query param (positive integer) is required''
           else tryH (Service_Proof sv seq)
             (\<lambda>e. if errors_Is e ErrNotFound then write_err 404 ''NOT_FOUND'' ''custody block not found or not yet anchored''
                  else internal_error ''failed to build proof'')
             (\<lambda>res. reply 200 (BProof res))))"

section \<open>Administration\<close>

text \<open>\<open>n, _ := strconv.Atoi\<close>.  Out of range Go gives a bound, which the store treats as it treats zero.\<close>

definition admin_limit :: "request \<Rightarrow> string \<Rightarrow> int" where
  "admin_limit rq def =
     (let raw = (case map_of (rq_Query rq) ''limit'' of Some v \<Rightarrow> v | None \<Rightarrow> def) in
      case Atoi raw of Some n \<Rightarrow> n | None \<Rightarrow> 0)"

definition audit_missing :: "'z endpoint" where
  "audit_missing = unavailable ''audit log not configured''"

definition handle_AuditLogs :: "API \<Rightarrow> request \<Rightarrow> 'z endpoint" where
  "handle_AuditLogs a rq = (if \<not> ap_Audit a then audit_missing
     else tryH (ListAPIAuditLogs (admin_limit rq ''100'')) (\<lambda>_. internal_error ''could not list audit logs'')
       (\<lambda>(items, total). reply 200 (BAuditLogs items total)))"

definition AdminMonitoringSummary :: "API \<Rightarrow> 'z endpoint" where
  "AdminMonitoringSummary a = (if \<not> ap_Audit a then audit_missing
     else tryH (MonitoringSummary (cfg_KafkaBrokers (ap_Cfg a) \<noteq> [])) (\<lambda>_. internal_error ''monitoring failed'')
       (\<lambda>summary s. reply 200 (BMonitoring summary (if ap_metrics a then Some (metrics_Snapshot s) else None)) s))"

definition AdminDeadLetters :: "API \<Rightarrow> request \<Rightarrow> 'z endpoint" where
  "AdminDeadLetters a rq = (if \<not> ap_Audit a then audit_missing
     else tryH (RecentDeadLetters (admin_limit rq ''50'')) (\<lambda>_. internal_error ''dead-letter list failed'')
       (\<lambda>items. reply 200 (BDeadLetters items)))"

definition AdminMonitoringActivity :: "API \<Rightarrow> request \<Rightarrow> 'z endpoint" where
  "AdminMonitoringActivity a rq = (if \<not> ap_Audit a then audit_missing
     else tryH (APIMonitoringActivity (admin_limit rq ''30'')) (\<lambda>_. internal_error ''activity failed'')
       (\<lambda>items. reply 200 (BActivity items)))"

end
