(* ===== verification/Router.thy ===== *)
theory Router
  imports Handlers
begin

text \<open>
  \<open>internal/handlers/router.go\<close>: the table of routes with the guard of each, and the service as one
  function from a request to an answer, with the middlewares in the order they are installed.
\<close>

section \<open>Headers\<close>

definition securityHeaders :: "(string \<times> string) list" where
  "securityHeaders = [(''X-Content-Type-Options'', ''nosniff''), (''X-Frame-Options'', ''DENY''),
     (''Referrer-Policy'', ''strict-origin-when-cross-origin'')]"

definition corsHeaders :: "string list \<Rightarrow> request \<Rightarrow> (string \<times> string) list" where
  "corsHeaders allowed rq =
     (let origin = get_or_empty (rq_Headers rq) ''Origin''; allowSet = filter (\<lambda>t. t \<noteq> []) (map TrimSpace allowed) in
      if origin \<noteq> [] \<and> origin \<in> set allowSet then
        [(''Access-Control-Allow-Origin'', origin), (''Vary'', ''Origin''), (''Access-Control-Allow-Credentials'', ''true''),
         (''Access-Control-Allow-Methods'', ''GET, POST, PUT, PATCH, DELETE, OPTIONS''),
         (''Access-Control-Allow-Headers'', ''Content-Type, Authorization, X-Request-ID'')]
      else [])"

section \<open>Routes\<close>

datatype guard = Open | Public | Needs string

datatype target =
    THealth | TReady | TPublicQR | TPublicQRPng | TBatchChain | TCustodyChain | TVerifyChain
  | TListAnchors | TLatestAnchor | TAnchorProof | TCreateAnchor | TListEvents | TRecordEvent
  | TPublishLotQR | TRevokeLotQR | TListQRCodes | TGetQRCode | TPatchQRStory
  | TAuditLogs | TMonitoringSummary | TMonitoringActivity | TDeadLetters

type_synonym route = "string \<times> string \<times> guard \<times> target"

definition routes :: "route list" where
  "routes = [
     (''GET'', ''/health'', Open, THealth),
     (''GET'', ''/healthz'', Open, THealth),
     (''GET'', ''/ready'', Open, TReady),
     (''GET'', ''/public/q/:token'', Public, TPublicQR),
     (''GET'', ''/public/q/:token/qr.png'', Public, TPublicQRPng),
     (''GET'', ''/api/v1/batches/:businessId/chain'', Needs ''traceability.view_chain'', TBatchChain),
     (''GET'', ''/api/v1/chain'', Needs ''traceability.view_chain'', TCustodyChain),
     (''GET'', ''/api/v1/chain/verify'', Needs ''traceability.view_chain'', TVerifyChain),
     (''GET'', ''/api/v1/anchors'', Needs ''traceability.view_chain'', TListAnchors),
     (''GET'', ''/api/v1/anchors/latest'', Needs ''traceability.view_chain'', TLatestAnchor),
     (''GET'', ''/api/v1/anchors/proof'', Needs ''traceability.view_chain'', TAnchorProof),
     (''POST'', ''/api/v1/anchors'', Needs ''traceability.manage_anchors'', TCreateAnchor),
     (''GET'', ''/api/v1/events'', Needs ''traceability.view_events'', TListEvents),
     (''POST'', ''/api/v1/events'', Needs ''traceability.add_trace_event'', TRecordEvent),
     (''POST'', ''/api/v1/lots/:businessId/publish'', Needs ''traceability.publish_qr'', TPublishLotQR),
     (''POST'', ''/api/v1/lots/:businessId/revoke'', Needs ''traceability.publish_qr'', TRevokeLotQR),
     (''GET'', ''/api/v1/qr-codes'', Needs ''traceability.view_chain'', TListQRCodes),
     (''GET'', ''/api/v1/qr-codes/:lotBusinessId'', Needs ''traceability.view_chain'', TGetQRCode),
     (''PATCH'', ''/api/v1/qr-codes/:lotBusinessId'', Needs ''traceability.publish_qr'', TPatchQRStory),
     (''GET'', ''/api/v1/admin/audit-logs'', Needs ''audit.view_api_log'', TAuditLogs),
     (''GET'', ''/api/v1/admin/monitoring/summary'', Needs ''audit.view_api_log'', TMonitoringSummary),
     (''GET'', ''/api/v1/admin/monitoring/activity'', Needs ''audit.view_api_log'', TMonitoringActivity),
     (''GET'', ''/api/v1/admin/monitoring/dead-letters'', Needs ''audit.view_api_log'', TDeadLetters)]"

text \<open>A pattern matches segment by segment; a segment with a colon takes any non-empty text.\<close>

fun match_segments :: "string list \<Rightarrow> string list \<Rightarrow> (string \<times> string) list option" where
  "match_segments [] [] = Some []"
| "match_segments (p # ps) (x # xs) =
     (if HasPrefix p '':'' then (if x = [] then None else map_option (\<lambda>m. (tl p, x) # m) (match_segments ps xs))
      else if p = x then match_segments ps xs else None)"
| "match_segments _ _ = None"

definition find_route :: "string \<Rightarrow> string \<Rightarrow> ((string \<times> string) list \<times> guard \<times> target) option" where
  "find_route verb path = (case List.map_filter (\<lambda>(v, pattern, g, t).
        if v = verb then map_option (\<lambda>m. (m, g, t)) (match_segments (Split pattern (CHR ''/'')) (Split path (CHR ''/''))) else None) routes of
     [] \<Rightarrow> None | r # _ \<Rightarrow> Some r)"

definition dispatch :: "ext \<Rightarrow> weblib \<Rightarrow> API \<Rightarrow> string \<Rightarrow> principal option \<Rightarrow> request \<Rightarrow> target \<Rightarrow> 'z endpoint" where
  "dispatch X L a rand p rq t = (case t of
     THealth \<Rightarrow> Health a | TReady \<Rightarrow> Ready
   | TPublicQR \<Rightarrow> PublicQR X L a rq | TPublicQRPng \<Rightarrow> PublicQRPng L a rq
   | TBatchChain \<Rightarrow> GetBatchChain rq | TCustodyChain \<Rightarrow> GetCustodyChain a rq | TVerifyChain \<Rightarrow> VerifyCustodyChain X a
   | TListAnchors \<Rightarrow> handle_ListAnchors a rq | TLatestAnchor \<Rightarrow> handle_LatestAnchor a
   | TAnchorProof \<Rightarrow> AnchorProof a rq | TCreateAnchor \<Rightarrow> handle_CreateAnchor a
   | TListEvents \<Rightarrow> handle_ListEvents L rq | TRecordEvent \<Rightarrow> RecordEvent X L a p rq
   | TPublishLotQR \<Rightarrow> PublishLotQR X a rand rq | TRevokeLotQR \<Rightarrow> RevokeLotQR X a rq
   | TListQRCodes \<Rightarrow> ListQRCodes X a rq | TGetQRCode \<Rightarrow> GetQRCode a rq | TPatchQRStory \<Rightarrow> PatchQRStory X L a p rq
   | TAuditLogs \<Rightarrow> handle_AuditLogs a rq | TMonitoringSummary \<Rightarrow> AdminMonitoringSummary a
   | TMonitoringActivity \<Rightarrow> AdminMonitoringActivity a rq | TDeadLetters \<Rightarrow> AdminDeadLetters a rq)"

record RouterDeps =
  rd_API :: API
  rd_Audit :: bool
  rd_PlatformAuth :: "PlatformAuth option"
  rd_CORSOrigins :: "string list"
  rd_limiter :: limiter_cfg
  rd_allow :: bucket

definition guarded :: "RouterDeps \<Rightarrow> request \<Rightarrow> principal option \<Rightarrow> guard \<Rightarrow> 'z endpoint \<Rightarrow> 'z endpoint" where
  "guarded d rq p g next = (case g of
     Open \<Rightarrow> next
   | Public \<Rightarrow> PublicRateLimit (rd_allow d) (rd_limiter d) rq next
   | Needs code \<Rightarrow>
       (let checked = RequirePermission code p next in
        case rd_PlatformAuth d of None \<Rightarrow> checked | Some _ \<Rightarrow> RequireAuth rq p checked))"

definition routed :: "ext \<Rightarrow> weblib \<Rightarrow> RouterDeps \<Rightarrow> string \<Rightarrow> request \<Rightarrow> principal option \<Rightarrow> 'z endpoint" where
  "routed X L d rand rq p = (case find_route (rq_Method rq) (rq_Path rq) of
     None \<Rightarrow> (\<lambda>s. (Bare 404, s))
   | Some (params, g, t) \<Rightarrow>
       let rq' = rq\<lparr>rq_Params := params\<rparr> in guarded d rq' p g (dispatch X L (rd_API d) rand p rq' t))"

definition serve :: "ext \<Rightarrow> weblib \<Rightarrow> RouterDeps \<Rightarrow> string \<Rightarrow> request \<Rightarrow> 'z endpoint" where
  "serve X L d rand rq =
     (if rq_Method rq = ''OPTIONS'' then (\<lambda>s. (Bare 204, s))
      else let rest = (\<lambda>p. RequestAudit (rd_Audit d) rq p (routed X L d rand rq p)) in
        case rd_PlatformAuth d of None \<Rightarrow> rest None | Some m \<Rightarrow> AttachPrincipal X m rq rest)"

text \<open>\<open>u\<close> is the UUID drawn for a request that brings no id.\<close>

definition RequestID :: "uuid \<Rightarrow> request \<Rightarrow> string" where
  "RequestID u rq = (let i = get_or_empty (rq_Headers rq) ''X-Request-Id'' in if i = [] then uuid_string u else i)"

definition response_headers :: "RouterDeps \<Rightarrow> uuid \<Rightarrow> request \<Rightarrow> (string \<times> string) list" where
  "response_headers d u rq = (''X-Request-Id'', RequestID u rq) # securityHeaders @ corsHeaders (rd_CORSOrigins d) rq"

section \<open>Lemmas\<close>

definition keepsH :: "('s \<Rightarrow> bool) \<Rightarrow> ('s, 'a) handler \<Rightarrow> bool" where
  "keepsH P h \<longleftrightarrow> (\<forall>s. P s \<longrightarrow> P (snd (h s)))"

named_theorems keepsH_intros

lemma keepsHD: "keepsH P h \<Longrightarrow> P s \<Longrightarrow> P (snd (h s))"
  by (simp add: keepsH_def)

lemma keepsH_basic [keepsH_intros]:
  "keepsH P (reply n a)" "keepsH P (write_err n c m)" "keepsH P (write_with n c m d)" "keepsH P (BadRequest m)"
  "keepsH P (NotFound m)" "keepsH P (Unauthorized m)" "keepsH P (internal_error m)" "keepsH P (unavailable m)"
  "keepsH P (resolve_error e)" "keepsH P (\<lambda>s. (ans, s))"
  by (simp_all add: keepsH_def reply_def write_err_def write_with_def BadRequest_def NotFound_def Unauthorized_def
      internal_error_def unavailable_def resolve_error_def)

lemma keepsH_tryH [keepsH_intros]:
  "keeps P m \<Longrightarrow> (\<And>e. keepsH P (f e)) \<Longrightarrow> (\<And>b. keepsH P (g b)) \<Longrightarrow> keepsH P (tryH m f g)"
  by (auto simp: keepsH_def keeps_def tryH_def split: prod.splits sum.splits)

lemma keepsH_doH [keepsH_intros]: "keeps P m \<Longrightarrow> keepsH P h \<Longrightarrow> keepsH P (doH m h)"
  by (simp add: keepsH_def keeps_def doH_def)

lemma keepsH_if [keepsH_intros]:
  "(b \<Longrightarrow> keepsH P m) \<Longrightarrow> (\<not> b \<Longrightarrow> keepsH P n) \<Longrightarrow> keepsH P (if b then m else n)"
  by simp

lemma keepsH_option [keepsH_intros]:
  "(x = None \<Longrightarrow> keepsH P f) \<Longrightarrow> (\<And>a. x = Some a \<Longrightarrow> keepsH P (g a)) \<Longrightarrow> keepsH P (case x of None \<Rightarrow> f | Some a \<Rightarrow> g a)"
  by (cases x) simp_all

lemma keepsH_sum [keepsH_intros]:
  "(\<And>a. x = Inl a \<Longrightarrow> keepsH P (f a)) \<Longrightarrow> (\<And>a. x = Inr a \<Longrightarrow> keepsH P (g a)) \<Longrightarrow> keepsH P (case x of Inl a \<Rightarrow> f a | Inr a \<Rightarrow> g a)"
  by (cases x) simp_all

lemma keepsH_prod [keepsH_intros]: "(\<And>a b. x = (a, b) \<Longrightarrow> keepsH P (f a b)) \<Longrightarrow> keepsH P (case x of (a, b) \<Rightarrow> f a b)"
  by (cases x) simp

text \<open>Who a request is: the claims its bearer token was accepted with.\<close>

definition verified :: "RouterDeps \<Rightarrow> request \<Rightarrow> Claims option" where
  "verified d rq = (case rd_PlatformAuth d of
     Some m \<Rightarrow> (case pa_verify m of
        Some verify \<Rightarrow> if pa_authMode m = ''jwt'' \<and> bearerToken rq \<noteq> [] then
            (case verify (bearerToken rq) of Inr c \<Rightarrow> Some c | Inl _ \<Rightarrow> None) else None
      | None \<Rightarrow> None)
   | None \<Rightarrow> None)"

text \<open>The request left nothing behind but at most one row of the request log.\<close>

definition only_logged :: "'z web_scheme \<Rightarrow> 'z web_scheme \<Rightarrow> bool" where
  "only_logged s s' \<longleftrightarrow> ticks s (s'\<lparr>api_audit := api_audit s\<rparr>) \<and>
     (api_audit s' = api_audit s \<or> (\<exists>r. api_audit s' = api_audit s @ [r]))"

lemma only_logged_refl: "only_logged s s"
  by (simp add: only_logged_def)

lemma LogAPIRequest_only_logged: "only_logged s (snd (ignoreC (LogAPIRequest r) s))"
proof -
  have "only_logged s (step_io s)" using ticks_step_io [of s]
    by (auto simp: only_logged_def step_io_def split: list.split)
  moreover have "only_logged s ((step_io s)\<lparr>api_audit := api_audit (step_io s) @ [r']\<rparr>)" for r'
    using ticks_step_io [of s] by (auto simp: only_logged_def step_io_def split: list.split)
  ultimately show ?thesis
    by (auto simp: ignoreC_def handleC_def LogAPIRequest_def execC_def log_sql_def Let_def retC_def split: io.split)
qed

text \<open>A permission guard that does not find its permission writes nothing.\<close>

lemma denied:
  assumes "\<not> (\<exists>c. PlatformClaims p = Some c \<and> HasPermission c code)"
  shows "\<exists>n \<in> {401, 403}. \<exists>c m e. guarded d rq p (Needs code) next s = (Refused n c m e, s)"
proof -
  have checked: "RequirePermission code p next =
      write_with 403 ''FORBIDDEN'' (''permission denied: '' @ code) [(''required_permission'', code)]"
    using assms by (auto simp: RequirePermission_def split: option.split)
  show ?thesis
    by (simp add: guarded_def checked Let_def RequireAuth_def Unauthorized_def write_with_def write_err_def split: option.split)
qed

lemma routed_denied:
  assumes "find_route (rq_Method rq) (rq_Path rq) = Some (params, Needs code, t)"
    and "\<not> (\<exists>c. PlatformClaims p = Some c \<and> HasPermission c code)"
  shows "\<exists>n \<in> {401, 403}. \<exists>c m e. routed X L d rand rq p s = (Refused n c m e, s)"
  using denied [OF assms(2)] assms(1) by (simp add: routed_def Let_def)

lemma audited_denied:
  assumes "\<exists>n \<in> {401, 403}. \<exists>c m e. next s = (Refused n c m e, s)"
  shows "\<exists>n \<in> {401, 403}. \<exists>c m e. fst (RequestAudit au rq p next s) = Refused n c m e"
    and "only_logged s (snd (RequestAudit au rq p next s))"
  using assms LogAPIRequest_only_logged by (auto simp: RequestAudit_def only_logged_refl)

end
