(* ===== verification/ApiRules.thy ===== *)
theory ApiRules
  imports Router
begin

text \<open>
  What the handlers promise a client: pages that say whether there is more, filters that are well formed,
  events that are recorded or refused without a trace, and revoked QR codes that stay dead.
\<close>

section \<open>A concrete service\<close>

text \<open>A service without story sources, with a cache, in front of the database of the QR examples.\<close>

definition sample_note :: gval where
  "sample_note = GMap [(''event_type'', GStr ''MANUAL_NOTE''), (''entity_type'', GStr ''batch''),
     (''entity_business_id'', GStr ''B-1'')]"

definition sample_lib :: weblib where
  "sample_lib = \<lparr>wl_json = (\<lambda>_ body. if body = ''{}'' then Some sample_note else None), wl_parse = sample_parse, wl_rfc3339 = (\<lambda>_. None),
     wl_date = (\<lambda>_. None), wl_png = (\<lambda>_. None)\<rparr>"

definition sample_parsers :: parsers where
  "sample_parsers = \<lparr>ps_Duration = (\<lambda>_. None), ps_Float = (\<lambda>_. None), ps_url_base = (\<lambda>_. None)\<rparr>"

definition sample_api :: API where
  "sample_api = \<lparr>ap_Cfg = loaded sample_parsers (\<lambda>_. []) ''test'' ''jwt'', ap_chain = False, ap_story = sample_cfg,
     ap_Audit = True, ap_QRCache = Some 300, ap_metrics = False, ap_Anchor = None, ap_Notify = None\<rparr>"

definition on_web :: "db \<Rightarrow> web" where
  "on_web s = db.extend s \<lparr>kafka_script = [], kafka_log = [], sync_res = empty_result False, m_consumed = 0,
     m_projected = 0, m_failed = 0, m_deadLettered = 0, m_deduped = 0, api_audit = [], qr_cache = [],
     redis_script = [], limits = \<lparr>lm_buckets = [], lm_lastSeen = []\<rparr>, alert_last = []\<rparr>"

definition sample_request :: "string \<Rightarrow> string \<Rightarrow> (string \<times> string) list \<Rightarrow> request" where
  "sample_request verb path params = \<lparr>rq_Method = verb, rq_Path = path, rq_Params = params, rq_Query = [],
     rq_Headers = [], rq_Body = ''{}'', rq_ClientIP = ''10.0.0.1''\<rparr>"

lemma on_web_tables [simp]:
  "script (on_web s) = script s" "now_us (on_web s) = now_us s" "trace_events (on_web s) = trace_events s"
  "lot_qr_codes (on_web s) = lot_qr_codes s" "qr_cache (on_web s) = []" "redis_script (on_web s) = []"
  by (simp_all add: on_web_def db.defs)

lemma sample_request_sel [simp]:
  "rq_Method (sample_request v p ps) = v" "rq_Path (sample_request v p ps) = p" "rq_Params (sample_request v p ps) = ps"
  "rq_Query (sample_request v p ps) = []" "rq_Headers (sample_request v p ps) = []" "rq_Body (sample_request v p ps) = ''{}''"
  by (simp_all add: sample_request_def)

section \<open>Lists\<close>

lemma parseLimit_bounds: "1 \<le> parseLimit raw" "parseLimit raw \<le> 499"
  by (auto simp: parseLimit_def split: option.split)

lemma trimForLimit_take:
  assumes "limit \<ge> 0"
  shows "trimForLimit (take (nat (limit + 1)) xs) limit = (take (nat limit) xs, length xs > nat limit)"
proof -
  have "nat (limit + 1) = Suc (nat limit)" using assms by simp
  with assms show ?thesis by (auto simp: trimForLimit_def min_def)
qed

lemma select_page:
  assumes "1 \<le> limit" "limit \<le> 499"
  shows "select_events (f\<lparr>fl_Limit := limit + 1\<rparr>) s =
    take (nat (limit + 1)) (sort_key (list_order f) (filter (event_matches f) (trace_events s)))"
proof -
  have "event_matches (f\<lparr>fl_Limit := n\<rparr>) = event_matches f" "list_order (f\<lparr>fl_Limit := n\<rparr>) = list_order f" for n
    by (simp_all add: fun_eq_iff event_matches_def list_order_def entity_scope_def)
  with assms show ?thesis by (simp add: select_events_def clamp_limit_def)
qed

text \<open>
  C37. A page of the event ledger is exact.  Whenever the list endpoint answers, its filter was accepted,
  the limit it reports is between 1 and 499, the events are precisely the first so many of all matching
  events in the promised order, and it says there are more exactly when matching events were left out.
\<close>

theorem list_events_page:
  assumes "handle_ListEvents L rq s = (Answer 200 (BEvents evs hasMore limit), s')"
  shows "\<exists>f. parseEventFilter L (get_or_empty (rq_Query rq) ''entity_type'') (get_or_empty (rq_Query rq) ''entity_business_id'')
        (get_or_empty (rq_Query rq) ''event_type'') (get_or_empty (rq_Query rq) ''from'') (get_or_empty (rq_Query rq) ''to'') = Inr f \<and>
      1 \<le> limit \<and> limit \<le> 499 \<and>
      (let rows = sort_key (list_order f) (filter (event_matches f) (trace_events s))
       in evs = map listed_event (take (nat limit) rows) \<and> (hasMore \<longleftrightarrow> length rows > nat limit))"
proof -
  let ?q = "get_or_empty (rq_Query rq)"
  from assms obtain f where f: "parseEventFilter L (?q ''entity_type'') (?q ''entity_business_id'') (?q ''event_type'') (?q ''from'') (?q ''to'') = Inr f"
    by (auto simp: handle_ListEvents_def Let_def BadRequest_def write_err_def split: sum.splits)
  let ?limit = "parseLimit (?q ''limit'')" and ?rows = "sort_key (list_order f) (filter (event_matches f) (trace_events s))"
  note b = parseLimit_bounds [of "?q ''limit''"]
  have "tryH (ListEvents (f\<lparr>fl_Limit := ?limit + 1\<rparr>)) (\<lambda>_. internal_error ''failed to list events'')
      (\<lambda>evs. case trimForLimit evs ?limit of (events, m) \<Rightarrow> reply 200 (BEvents events m ?limit)) s =
      (Answer 200 (BEvents evs hasMore limit), s')"
    using assms f by (simp add: handle_ListEvents_def Let_def)
  then have "evs = fst (trimForLimit (map listed_event (take (nat (?limit + 1)) ?rows)) ?limit)"
    "hasMore = snd (trimForLimit (map listed_event (take (nat (?limit + 1)) ?rows)) ?limit)" "limit = ?limit"
    by (auto simp: tryH_def ListEvents_def queryC_def select_page [OF b] reply_def internal_error_def write_err_def
        split: if_splits prod.splits)
  with b f trimForLimit_take [of ?limit "map listed_event ?rows"] show ?thesis
    by (auto simp: Let_def take_map)
qed

theorem list_events_page_witness:
  "\<exists>evs m s'. handle_ListEvents sample_lib (sample_request ''GET'' ''/api/v1/events'' []) (on_web sample_ledger) =
      (Answer 200 (BEvents evs m 200), s') \<and> \<not> m \<and> length evs = length (trace_events sample_ledger)"
proof -
  have s: "script sample_ledger = []" "length (trace_events sample_ledger) \<le> 200"
    by (simp_all add: sample_ledger_def empty_db_def)
  have f: "parseEventFilter sample_lib [] [] [] [] [] = Inr no_filter" by code_simp
  have q: "get_or_empty [] k = []" for k by (simp add: get_or_empty_def)
  obtain evs m s' where run: "handle_ListEvents sample_lib (sample_request ''GET'' ''/api/v1/events'' []) (on_web sample_ledger) =
      (Answer 200 (BEvents evs m 200), s')"
    by (cases "trimForLimit (map listed_event (select_events (no_filter\<lparr>fl_Limit := 201\<rparr>) (on_web sample_ledger))) 200")
       (simp add: handle_ListEvents_def Let_def q f parseLimit_def tryH_def ListEvents_def queryC_def healthy s reply_def)
  from list_events_page [OF run] f q s(2) have "\<not> m \<and> length evs = length (trace_events sample_ledger)"
    by (auto simp: Let_def event_matches_def no_filter_def entity_scope_def)
  with run show ?thesis by blast
qed

section \<open>Revoked codes\<close>

text \<open>A token is dead when no live code has it and no payload is cached for it.\<close>

definition dead :: "string \<Rightarrow> 'z web_scheme \<Rightarrow> bool" where
  "dead token s \<longleftrightarrow> resolve_token s token = None \<and> map_of (qr_cache s) (publicQRCacheKey token) = None"

lemma tables_only_dead: "tables_only (dead token)"
  unfolding tables_only_def
proof (intro allI impI)
  fix s :: "'a web_scheme" and sc t n assume "dead token s"
  then show "dead token (s\<lparr>script := sc, now_us := t, fresh_id := n\<rparr>)"
    using qr_cong(3) [of "s\<lparr>script := sc, now_us := t, fresh_id := n\<rparr>" s] by (simp add: dead_def)
qed

lemma increment_resolve:
  assumes "increment_sql token s = Inr (u, s')"
  shows "resolve_token s' = resolve_token s"
  by (rule scan_resolve [OF increment_effect [OF assms]])

lemma increment_dead: "dead t s \<Longrightarrow> increment_sql token s = Inr (u, s') \<Longrightarrow> dead t s'"
proof -
  assume d: "dead t s" and inc: "increment_sql token s = Inr (u, s')"
  have "qr_cache s' = qr_cache s" using inc by (auto simp: increment_sql_def split: if_splits)
  with d increment_resolve [OF inc] show "dead t s'" by (simp add: dead_def)
qed

lemma keeps_dead_resolve: "keeps (dead t) (ResolvePublicQR cfg token url)"
proof -
  have "keeps (dead t) (IncrementScanCount token)"
    unfolding IncrementScanCount_def by (rule keeps_execC [OF tables_only_dead]) (rule increment_dead)
  then show ?thesis
    unfolding ResolvePublicQR_def resolvePublicQR_def Let_def
    by (intro keeps_intros tables_only_dead) auto
qed

lemma unresolved_refused:
  assumes "resolve_token s token = None"
  shows "\<exists>e. fst (resolvePublicQR cfg token url b s) = Inl e"
proof -
  have "active_by (\<lambda>r. qr_public_token r = token) (step_io s) = None"
    using assms by (simp add: resolve_token_def active_by_def)
  then have "\<exists>e. fst (GetLotQRByToken token s) = Inl e"
    by (auto simp: GetLotQRByToken_def bindC_def handleC_def queryC_def row_or_notfound_def failC_def)
  then show ?thesis
    by (auto simp: resolvePublicQR_def bindC_def handleC_def failC_def split: prod.splits sum.splits)
qed

lemma dead_resolve: "dead token s \<Longrightarrow> \<exists>e. fst (ResolvePublicQR cfg token url s) = Inl e"
  unfolding ResolvePublicQR_def by (rule unresolved_refused) (simp add: dead_def)

lemma redis_frame [simp]:
  "resolve_token (redis_step s) = resolve_token s" "qr_cache (redis_step s) = qr_cache s"
  "resolve_token (redis_Set k v ttl s) = resolve_token s" "resolve_token (redis_Del k s) = resolve_token s"
  using qr_cong(3) [of "redis_step s" s] qr_cong(3) [of "redis_Set k v ttl s" s] qr_cong(3) [of "redis_Del k s" s]
  by (simp_all add: redis_step_def redis_Set_def redis_Del_def)

lemma redis_Set_other: "k \<noteq> key \<Longrightarrow> map_of (qr_cache (redis_Set k v ttl s)) key = map_of (qr_cache s) key"
  by (auto simp: redis_Set_def redis_step_def AList.update_conv')

lemma redis_Del_cache: "redis_ok s \<Longrightarrow> qr_cache (redis_Del k s) = AList.delete k (qr_cache s)"
  by (simp add: redis_Del_def redis_step_def)

lemma dead_redis:
  "dead t (redis_step s) = dead t s" "k \<noteq> publicQRCacheKey t \<Longrightarrow> dead t (redis_Set k v ttl s) = dead t s"
  by (simp_all add: dead_def redis_Set_other)

text \<open>What survives a step of the cache, the load and the store of what was loaded, survives \<open>GetOrSet\<close>.\<close>

lemma keeps_GetOrSet:
  assumes "keeps P load" and "\<And>s. P s \<Longrightarrow> P (redis_step s)"
    and "\<And>s v s2 b ttl. P s \<Longrightarrow> load s = (Inr v, s2) \<Longrightarrow> P s2 \<Longrightarrow> P (redis_Set key b ttl s2)"
  shows "keeps P (GetOrSet c key marshal unmarshal load)"
proof (rule keepsI)
  fix s assume s: "P s"
  have lift: "snd (liftC r z) = z" for r :: "err + 'c" and z :: "'a web_scheme" by (cases r) (simp_all add: liftC_def failC_def retC_def)
  have get: "P (snd (redis_Get key s))" using assms(2) [OF s] by (simp add: redis_Get_def)
  have load: "P s2" if "load z = (r, s2)" "P z" for z r s2 using keepsD [OF assms(1) that(2)] that(1) by simp
  show "P (snd (GetOrSet c key marshal unmarshal load s))"
  proof (cases c)
    case None
    obtain r s2 where "load s = (r, s2)" by (cases "load s")
    with load [OF this s] show ?thesis
      by (auto simp: GetOrSet_def None bindC_def handleC_def failC_def lift split: sum.split)
  next
    case (Some ttl)
    obtain g s1 where g: "redis_Get key s = (g, s1)" by (cases "redis_Get key s")
    with get have s1: "P s1" by simp
    obtain r s2 where l: "load s1 = (r, s2)" by (cases "load s1")
    from load [OF l s1] have s2: "P s2" .
    have "P (redis_Set key b ttl s2)" if "r = Inr v" for v b using assms(3) [OF s1 _ s2] l that by simp
    with g l s1 s2 show ?thesis
      by (auto simp: GetOrSet_def Some bindC_def handleC_def failC_def lift split: sum.split redis_get.split option.split)
  qed
qed

lemma keeps_dead_scan: "keepsH (dead t) (PublicQR X L a rq)"
proof -
  let ?token = "get_or_empty (rq_Params rq) ''token''" and ?url = "cfg_PublicTraceBaseURL (ap_Cfg a)"
  have "dead t (redis_Set (publicQRCacheKey ?token) b ttl s2)"
    if "dead t s" "ResolvePublicQR (ap_story a) ?token ?url s = (Inr v, s2)" "dead t s2" for s v s2 b ttl
  proof -
    have "?token \<noteq> t" using that(1,2) dead_resolve [of ?token s "ap_story a" ?url] by auto
    then show ?thesis using that(3) by (simp add: dead_redis publicQRCacheKey_def)
  qed
  then have "keeps (dead t) (GetOrSet c (publicQRCacheKey ?token) m u (ResolvePublicQR (ap_story a) ?token ?url))" for c m u
    by (intro keeps_GetOrSet keeps_dead_resolve) (auto simp: dead_redis)
  then show ?thesis
    unfolding PublicQR_def Let_def
    by (intro keepsH_intros keeps_dead_resolve)
qed

lemma refused_scan: "\<exists>e. fst (m s) = Inl e \<Longrightarrow> status_of (fst (tryH m resolve_error g s)) \<in> {404, 500}"
  by (cases "m s") (auto simp: tryH_def resolve_error_def NotFound_def internal_error_def write_err_def split: if_splits)

lemma dead_scan:
  assumes "dead (get_or_empty (rq_Params rq) ''token'') s"
  shows "status_of (fst (PublicQR X L a rq s)) \<in> {404, 500}"
proof -
  let ?token = "get_or_empty (rq_Params rq) ''token''"
  let ?load = "ResolvePublicQR (ap_story a) ?token (cfg_PublicTraceBaseURL (ap_Cfg a))"
  show ?thesis
  proof (cases "ap_QRCache a")
    case None
    then show ?thesis using refused_scan [of ?load s] dead_resolve [OF assms] by (simp add: PublicQR_def Let_def)
  next
    case (Some ttl)
    have "fst (redis_Get (publicQRCacheKey ?token) s) \<in> {RedisErr, RedisNil}" "snd (redis_Get (publicQRCacheKey ?token) s) = redis_step s"
      using assms by (auto simp: redis_Get_def dead_def)
    moreover obtain e where "fst (?load (redis_step s)) = Inl e"
      using dead_resolve [of ?token "redis_step s"] assms by (auto simp: dead_redis)
    ultimately have "\<exists>e. fst (GetOrSet (Some ttl) (publicQRCacheKey ?token) (marshal_payload X) (dec_payload L) ?load s) = Inl e"
      by (cases "redis_Get (publicQRCacheKey ?token) s"; cases "?load (redis_step s)")
         (auto simp: GetOrSet_def bindC_def handleC_def failC_def)
    then show ?thesis
      using refused_scan [of "GetOrSet (Some ttl) (publicQRCacheKey ?token) (marshal_payload X) (dec_payload L) ?load" s]
      by (simp add: PublicQR_def Let_def Some)
  qed
qed

text \<open>Database commands leave the cache alone.\<close>

definition cache_is :: "(string \<times> cache_entry) list \<Rightarrow> bool list \<Rightarrow> 'z web_scheme \<Rightarrow> bool" where
  "cache_is c r s \<longleftrightarrow> qr_cache s = c \<and> redis_script s = r"

lemma tables_only_cache: "tables_only (cache_is c r)"
  by (simp add: tables_only_def cache_is_def)

lemma keeps_cache_revoke: "keeps (cache_is c r) (RevokeLotQRTx lot row)" "keeps (cache_is c r) (LotQRRevokedRow X lot tok)"
    "keeps (cache_is c r) (GetLotQRByLotID lot)" "keeps (cache_is c r) (GetQRRegisterRow lot)"
proof -
  have "keeps (cache_is c r) (revokeLotQR lot)" "keeps (cache_is c r) (enqueueOutbox row)"
    unfolding revokeLotQR_def enqueueOutbox_def
    by (intro keeps_intros keeps_execC [OF tables_only_cache];
        auto simp: cache_is_def revoke_qr_sql_def enqueue_sql_def Let_def)+
  then show "keeps (cache_is c r) (RevokeLotQRTx lot row)"
    unfolding RevokeLotQRTx_def by (intro keeps_txC [OF tables_only_cache] keeps_intros draws_qr)
  show "keeps (cache_is c r) (LotQRRevokedRow X lot tok)"
    by (rule keepsI) (simp add: LotQRRevokedRow_def NewEnvelope_def bindC_def handleC_def retC_def cache_is_def)
  show "keeps (cache_is c r) (GetLotQRByLotID lot)" "keeps (cache_is c r) (GetQRRegisterRow lot)"
    unfolding GetLotQRByLotID_def GetQRRegisterRow_def row_or_notfound_def
    by (intro keeps_intros tables_only_cache)+
qed

lemma RevokeLotQRTx_live:
  assumes "qr_ok s" "live_token s lot = Some token" "RevokeLotQRTx lot row s = (Inr (), s')"
  shows "resolve_token s' token = None"
  using assms(3)
proof (cases rule: RevokeLotQRTx_cases)
  case (all t u i)
  have t: "qr_ok t" "live_token t = live_token s" using qr_cong [OF all(1)] assms(1) by simp_all
  with assms(2) have "resolve_token u token = None" using qr.revoked_token_dies [OF t(1) _ all(2)] by simp
  with qr_cong(3) [OF all(3)] show ?thesis by simp
qed simp

lemma RevokeLotQR_dead:
  assumes "qr_ok s" and "live_token s (get_or_empty (rq_Params rq) ''businessId'') = Some token"
    and "next_io s = IoOk" and "redis_ok s" and "ap_QRCache a \<noteq> None \<or> qr_cache s = []"
    and "RevokeLotQR X a rq s = (ans, s')" and "status_of ans = 200"
  shows "dead token s'"
proof -
  let ?lot = "get_or_empty (rq_Params rq) ''businessId''"
  from assms(2) obtain r where r: "active_by (\<lambda>r. qr_lot_business_id r = ?lot) s = Some r" "qr_public_token r = token"
    by (auto simp: live_token_def)
  then have known: "GetLotQRByLotID ?lot s = (Inr (to_LotQR r), step_io s)" "lq_PublicToken (to_LotQR r) = token"
    using assms(3) by (auto simp: GetLotQRByLotID_def bindC_def handleC_def queryC_def row_or_notfound_def retC_def
        active_by_def to_LotQR_def)
  obtain row t where row: "LotQRRevokedRow X ?lot token (step_io s) = (Inr row, t)" "lot_qr_codes t = lot_qr_codes s"
    by (simp add: LotQRRevokedRow_def NewEnvelope_def bindC_def handleC_def retC_def)
  obtain res u where tx: "RevokeLotQRTx ?lot row t = (res, u)" by (cases "RevokeLotQRTx ?lot row t")
  define v where "v = snd ((case ap_QRCache a of None \<Rightarrow> retC () | Some ttl \<Rightarrow> modifyC (redis_Del (publicQRCacheKey token))) u)"
  have res: "res = Inr ()" and s': "s' = snd (GetQRRegisterRow ?lot v)"
    using assms(6,7) known row tx
    by (auto simp: RevokeLotQR_def Let_def tryH_def doH_def bindC_def handleC_def NotFound_def internal_error_def
        write_err_def cache_Delete_def v_def reply_def split: if_splits sum.splits prod.splits option.splits)
  have ok: "qr_ok t" "live_token t ?lot = Some token" using qr_cong [OF row(2)] assms(1,2) by simp_all
  have gone: "resolve_token u token = None" using RevokeLotQRTx_live [OF ok] tx res by simp
  have "cache_is (qr_cache s) (redis_script s) u"
  proof -
    have "cache_is (qr_cache s) (redis_script s) (step_io s)"
      using tables_only_step_io [OF tables_only_cache, of "qr_cache s" "redis_script s" s] by (simp add: cache_is_def)
    from keepsD [OF keeps_cache_revoke(2) this, of X ?lot token] row have "cache_is (qr_cache s) (redis_script s) t" by simp
    from keepsD [OF keeps_cache_revoke(1) this, of ?lot row] tx show ?thesis by simp
  qed
  then have "redis_ok u" and cache: "qr_cache u = qr_cache s" using assms(4) by (simp_all add: cache_is_def redis_ok_def)
  then have "dead token v"
    using gone assms(5) by (cases "ap_QRCache a")
      (auto simp: v_def retC_def modifyC_def dead_def redis_Del_cache AList.delete_conv')
  then show ?thesis
    unfolding s' GetQRRegisterRow_def row_or_notfound_def
    by (rule keepsD [rotated]) (intro keeps_intros tables_only_dead)
qed

text \<open>
  C14. A revoked code stops working.  Once the revoke endpoint has answered 200 for a lot with a live
  token in a well-formed register, the database having answered its first query and the cache, if there is
  one, reachable at the delete, no public scan of that token succeeds: each is answered with 404 or, when the database fails, 500, through any sequence of
  further scans of whatever tokens; no cached payload outlives the code.
\<close>

theorem revoked_qr_stays_dead:
  assumes "qr_ok s" and "live_token s (get_or_empty (rq_Params rq) ''businessId'') = Some token"
    and "next_io s = IoOk" and "redis_ok s" and "ap_QRCache a \<noteq> None \<or> qr_cache s = []"
    and "RevokeLotQR X a rq s = (ans, s1)" and "status_of ans = 200"
    and "s2 = foldl (\<lambda>z r. snd (PublicQR X L a r z)) s1 scanned" and "get_or_empty (rq_Params rq') ''token'' = token"
  shows "status_of (fst (PublicQR X L a rq' s2)) \<in> {404, 500}"
proof -
  have "dead token s1" by (rule RevokeLotQR_dead [OF assms(1-7)])
  then have "dead token (foldl (\<lambda>z r. snd (PublicQR X L a r z)) s1 scanned)"
    by (induction scanned arbitrary: s1) (simp_all add: keepsHD [OF keeps_dead_scan])
  then show ?thesis using dead_scan assms(8,9) by blast
qed

text \<open>While the database answers, a lot with a live code can be revoked.\<close>

lemma RevokeLotQRTx_healthy:
  fixes s :: "'z db_scheme"
  assumes "script s = []" and "live_token s lot = Some token"
  shows "\<exists>s'. RevokeLotQRTx lot row s = (Inr (), s') \<and> script s' = []"
proof -
  let ?hit = "\<lambda>r. qr_lot_business_id r = lot \<and> qr_revoked_at r = None"
  from assms(2) obtain r where "find ?hit (lot_qr_codes s) = Some r" by (auto simp: live_token_def active_by_def)
  from find_Some_set [OF this] have "filter ?hit (lot_qr_codes s) \<noteq> []" by (auto simp: filter_empty_conv)
  with assms(1) obtain s' where "bindC (revokeLotQR lot) (\<lambda>_. enqueueOutbox row) s = (Inr (), s')" "script s' = []"
    by (simp add: bindC_def handleC_def revokeLotQR_def enqueueOutbox_def healthy revoke_qr_sql_def enqueue_sql_def Let_def retC_def)
  with healthy_txC [OF assms(1), of "bindC (revokeLotQR lot) (\<lambda>_. enqueueOutbox row)" "()" s'] show ?thesis
    by (simp add: RevokeLotQRTx_def)
qed

lemma RevokeLotQR_healthy:
  fixes s :: "'z web_scheme"
  assumes "script s = []" and "live_token s (get_or_empty (rq_Params rq) ''businessId'') = Some token"
  shows "status_of (fst (RevokeLotQR X a rq s)) = 200"
proof -
  let ?lot = "get_or_empty (rq_Params rq) ''businessId''"
  from assms(2) obtain r where r: "active_by (\<lambda>r. qr_lot_business_id r = ?lot) s = Some r"
    by (auto simp: live_token_def)
  with assms(1) have known: "GetLotQRByLotID ?lot s = (Inr (to_LotQR r), s)"
    by (simp add: GetLotQRByLotID_def bindC_def handleC_def healthy row_or_notfound_def retC_def)
  obtain row t where row: "LotQRRevokedRow X ?lot (lq_PublicToken (to_LotQR r)) s = (Inr row, t)" "script t = []"
    "lot_qr_codes t = lot_qr_codes s"
    using assms(1) by (simp add: LotQRRevokedRow_def NewEnvelope_def bindC_def handleC_def retC_def)
  have "live_token t ?lot = Some token" using row(3) assms(2) by (simp add: live_token_def active_by_def)
  from RevokeLotQRTx_healthy [OF row(2) this] obtain u where tx: "RevokeLotQRTx ?lot row t = (Inr (), u)" by blast
  from known row(1) tx show ?thesis
    by (auto simp: RevokeLotQR_def Let_def tryH_def doH_def bindC_def handleC_def reply_def split: prod.split sum.split)
qed

theorem revoked_qr_stays_dead_witness:
  "\<exists>ans s1. RevokeLotQR sample_ext sample_api (sample_request ''POST'' [] [(''businessId'', ''L-1'')]) (on_web sample_qr) = (ans, s1) \<and>
     status_of ans = 200 \<and> status_of (fst (PublicQR sample_ext sample_lib sample_api (sample_request ''GET'' [] [(''token'', ''t1'')])
       (snd (PublicQR sample_ext sample_lib sample_api (sample_request ''GET'' [] [(''token'', ''t1'')]) s1)))) \<in> {404, 500}"
proof -
  let ?rq = "sample_request ''POST'' [] [(''businessId'', ''L-1'')]" and ?scan = "sample_request ''GET'' [] [(''token'', ''t1'')]"
  have p: "get_or_empty (rq_Params ?rq) ''businessId'' = ''L-1''" "get_or_empty (rq_Params ?scan) ''token'' = ''t1''"
    by (simp_all add: get_or_empty_def)
  have "qr_ok (on_web sample_qr)" "live_token (on_web sample_qr) ''L-1'' = Some ''t1''" "next_io (on_web sample_qr) = IoOk"
    using qr_cong(1,2) [of "on_web sample_qr" sample_qr] sample_qr_ok by (simp_all add: healthy)
  note live = this
  obtain ans s1 where run: "RevokeLotQR sample_ext sample_api ?rq (on_web sample_qr) = (ans, s1)" by (meson surj_pair)
  have ok: "status_of ans = 200"
    using RevokeLotQR_healthy [of "on_web sample_qr" ?rq] live(2) sample_qr_ok(3) p(1) run by (metis fst_conv on_web_tables(1))
  note live
  moreover have "redis_ok (on_web sample_qr)" "ap_QRCache sample_api \<noteq> None \<or> qr_cache (on_web sample_qr) = []"
    by (simp_all add: redis_ok_def)
  ultimately show ?thesis
    using revoked_qr_stays_dead [of "on_web sample_qr" ?rq "''t1''" sample_api sample_ext ans s1 _ sample_lib "[?scan]" ?scan]
      run ok p by simp
qed

section \<open>Recording events\<close>

definition records :: "AppendEventInput \<Rightarrow> trace_row \<Rightarrow> bool" where
  "records i r \<longleftrightarrow> te_occurred_at r = in_OccurredAt i \<and> te_event_type r = in_EventType i \<and>
     te_entity_type r = in_EntityType i \<and> te_entity_business_id r = in_EntityBusinessID i \<and>
     te_actor_user_id r = in_ActorUserID i \<and> te_idempotency_key r = in_IdempotencyKey i"

text \<open>What an append that succeeds has done: added the row, or found the one stored under the key.\<close>

lemma AppendEvent_recorded:
  assumes "AppendEvent X ce i s = (Inr ev, s')"
  shows "\<exists>r \<in> set (trace_events s'). te_id r = te_id ev \<and>
    (if ev_Inserted ev then trace_events s' = trace_events s @ [r] \<and> records (append_defaults (now_us s) i) r
     else trace_events s' = trace_events s \<and> in_IdempotencyKey i \<noteq> None \<and> te_idempotency_key r = in_IdempotencyKey i)"
proof -
  let ?i = "append_defaults (now_us s) i"
  have stored: "r \<in> set rows \<and> in_IdempotencyKey i \<noteq> None \<and> te_idempotency_key r = in_IdempotencyKey i"
    if "stored_under ?i rows = Some r" for r rows
  proof -
    from that obtain k where k: "in_IdempotencyKey i = Some k"
      and f: "find (\<lambda>r. te_idempotency_key r = Some k) rows = Some r"
      by (auto simp: stored_under_def split: option.splits)
    from find_Some_set [OF f] show ?thesis using k by simp
  qed
  have new: "records ?i (new_row ?i rel pay z)" for rel pay and z :: "'a db_scheme"
    by (simp add: records_def new_row_def)
  show ?thesis
  proof (cases "ce \<and> EqualFold (in_EntityType i) ''batch''")
    case True
    with assms have run: "fst (appendEventChained X ?i s) = Inr ev" "snd (appendEventChained X ?i s) = s'"
      by (simp_all add: AppendEvent_batch)
    show ?thesis
    proof (cases rule: appendEventChained_effect [of s X ?i, case_names same grown])
      case same
      then obtain r where "stored_under ?i (trace_events s) = Some r" "ev = returned_event ?i r False" using run by blast
      with same(1) run(2) stored show ?thesis using ticks_db(1) [OF same(1)] by (auto simp: returned_event_def)
    next
      case (grown r rel t pay s1 s2)
      then have "trace_events s' = trace_events s @ [r]"
        using ticks_db(1) [OF grown(8)] ticks_db(1) [OF grown(6)] run by (auto simp: insert_chain_sql_Inr)
      with grown run new show ?thesis by (auto simp: returned_event_def)
    qed
  next
    case False
    with assms have "insert_event_sql X ?i (step_io s) = Inr (ev, s')" by (simp add: AppendEvent_plain execC_Inr_iff)
    then show ?thesis
    proof (cases rule: insert_event_sql_Inr)
      case (new rel pay)
      have "records ?i (new_row ?i rel pay (step_io s))" by (simp add: records_def new_row_def)
      with new show ?thesis by (simp add: returned_event_def)
    next
      case (replay r)
      with stored show ?thesis by (auto simp: returned_event_def)
    qed
  qed
qed

text \<open>What the endpoint asks of an event.\<close>

definition acceptable :: "principal option \<Rightarrow> int \<Rightarrow> event_body \<Rightarrow> bool" where
  "acceptable p now b \<longleftrightarrow> eb_EventType b \<in> set allowedEventTypes \<and> validEntityType (eb_EntityType b) \<and>
     eb_EntityBusinessID b \<noteq> [] \<and> ValidateEventPayload (eb_EventType b) (eb_EntityType b) (or_empty (eb_Payload b)) = Inr () \<and>
     (eb_EventType b = ''CORRECTION'' \<longrightarrow> (\<exists>c. PlatformClaims p = Some c \<and> cl_IsSuperuser c)) \<and>
     (\<forall>t. eb_OccurredAt b = Some t \<longrightarrow> t \<le> now + 300000000)"

lemma event_refusal_iff: "event_refusal p now b = None \<longleftrightarrow> acceptable p now b"
proof -
  have ne: "eb_EventType b \<noteq> []" if "eb_EventType b \<in> set allowedEventTypes"
  proof
    assume "eb_EventType b = []"
    with that have "[] \<in> set allowedEventTypes" by simp
    moreover have "[] \<notin> set allowedEventTypes" by code_simp
    ultimately show False by contradiction
  qed
  have ne2: "eb_EntityType b \<noteq> []" if "validEntityType (eb_EntityType b)" using that by (auto simp: validEntityType_def)
  show ?thesis
  proof (cases "eb_EventType b \<in> set allowedEventTypes \<and> validEntityType (eb_EntityType b)")
    case True
    then show ?thesis using ne ne2
      by (simp add: event_refusal_def acceptable_def ValidateEventType_def not_less
 split: option.split sum.split)
  next
    case False
    then show ?thesis
      by (cases "validEntityType (eb_EntityType b)") (simp_all add: event_refusal_def acceptable_def ValidateEventType_def)
  qed
qed

lemma event_refusal_status: "event_refusal p now b = Some (n, c, m) \<Longrightarrow> n = 400 \<or> n = 403"
  by (auto simp: event_refusal_def split: option.splits sum.splits if_splits)

text \<open>
  C13. Recording an event is exact.  A request whose body cannot be read or whose event the rules refuse
  (an unknown type or entity class, a missing id, a custody transfer without its details, a correction
  by anyone but a superuser, a time more than five minutes ahead) gets 400 or 403 and changes nothing.
  Any other either has its event in the ledger when 201 is answered, as a new last row with the fields
  of the request or as the row already stored under its key, or gets 500 after the append failed.
\<close>

theorem record_event_exact:
  assumes "RecordEvent X L a p rq s = (ans, s')"
  shows "case dec_event_body X L (rq_Body rq) of
      Inl _ \<Rightarrow> status_of ans = 400 \<and> s' = s
    | Inr b \<Rightarrow>
        if \<not> acceptable p (now_us s) b then status_of ans \<in> {400, 403} \<and> s' = s
        else (case AppendEvent X (ap_chain a) (event_input p (now_us s) b) s of
            (Inl e, t) \<Rightarrow> status_of ans = 500 \<and> s' = t
          | (Inr ev, t) \<Rightarrow> ans = Answer 201 (BEvent ev) \<and> (\<exists>r \<in> set (trace_events s'). te_id r = te_id ev \<and>
              (if ev_Inserted ev
               then trace_events s' = trace_events s @ [r] \<and> records (append_defaults (now_us s) (event_input p (now_us s) b)) r
               else trace_events s' = trace_events s \<and> eb_IdempotencyKey b \<noteq> None \<and> te_idempotency_key r = eb_IdempotencyKey b)))"
proof (cases "dec_event_body X L (rq_Body rq)")
  case (Inl e)
  with assms show ?thesis by (auto simp: RecordEvent_def BadRequest_def write_err_def)
next
  case (Inr b)
  show ?thesis
  proof (cases "event_refusal p (now_us s) b")
    case (Some r)
    obtain n c m where r: "r = (n, c, m)" by (cases r)
    with Some have "n = 400 \<or> n = 403" "\<not> acceptable p (now_us s) b"
      using event_refusal_status [of p "now_us s" b] event_refusal_iff [of p "now_us s" b] by auto
    with assms Inr Some r show ?thesis by (auto simp: RecordEvent_def write_err_def)
  next
    case None
    then have ok: "acceptable p (now_us s) b" using event_refusal_iff by blast
    let ?i = "event_input p (now_us s) b"
    obtain res t where app: "AppendEvent X (ap_chain a) ?i s = (res, t)" by (cases "AppendEvent X (ap_chain a) ?i s")
    show ?thesis
    proof (cases res)
      case (Inl e)
      with assms Inr None app ok show ?thesis by (auto simp: RecordEvent_def tryH_def internal_error_def write_err_def)
    next
      case (Inr ev)
      let ?after = "AfterAppend X (ap_story a) (eb_EventType b) (eb_EntityType b) (eb_EntityBusinessID b) (merged_related b)"
      have out: "ans = Answer 201 (BEvent ev)" "s' = snd (?after t)"
        using assms \<open>dec_event_body X L (rq_Body rq) = Inr b\<close> None app Inr
        by (auto simp: RecordEvent_def tryH_def doH_def reply_def)
      have "main_pred (\<lambda>z. trace_events z = trace_events t)" by (simp add: main_pred_def same_main_def)
      then have "trace_events s' = trace_events t" unfolding out(2) by (rule keepsD [OF keeps_AfterAppend]) simp
      moreover have "in_IdempotencyKey ?i = eb_IdempotencyKey b" by (simp add: event_input_def)
      moreover from app Inr have "AppendEvent X (ap_chain a) ?i s = (Inr ev, t)" by simp
      note AppendEvent_recorded [OF this]
      ultimately have "\<exists>r \<in> set (trace_events s'). te_id r = te_id ev \<and>
          (if ev_Inserted ev then trace_events s' = trace_events s @ [r] \<and> records (append_defaults (now_us s) ?i) r
           else trace_events s' = trace_events s \<and> eb_IdempotencyKey b \<noteq> None \<and> te_idempotency_key r = eb_IdempotencyKey b)"
        by (simp only:)
      with out(1) app Inr ok \<open>dec_event_body X L (rq_Body rq) = Inr b\<close> show ?thesis by simp
    qed
  qed
qed

lemma sample_accepts:
  "\<exists>b ev t. dec_event_body sample_ext sample_lib ''{}'' = Inr b \<and> acceptable None 100 b \<and>
     AppendEvent sample_ext (ap_chain sample_api) (event_input None 100 b) (on_web (empty_db [] 100)) = (Inr ev, t) \<and>
     ev_Inserted ev \<and> eb_EntityBusinessID b = ''B-1''"
proof -
  let ?s = "on_web (empty_db [] 100)"
  define b where "b = \<lparr>eb_OccurredAt = None, eb_EventType = ''MANUAL_NOTE'', eb_EntityType = ''batch'', eb_EntityBusinessID = ''B-1'',
    eb_EntityID = None, eb_RelatedIDs = None, eb_Payload = None, eb_IdempotencyKey = None\<rparr>"
  let ?m = "[(''event_type'', GStr ''MANUAL_NOTE''), (''entity_type'', GStr ''batch''), (''entity_business_id'', GStr ''B-1'')]"
  have "struct_get ?m ''occurred_at'' = None" "struct_get ?m ''event_type'' = Some (GStr ''MANUAL_NOTE'')"
    "struct_get ?m ''entity_type'' = Some (GStr ''batch'')" "struct_get ?m ''entity_business_id'' = Some (GStr ''B-1'')"
    "struct_get ?m ''entity_id'' = None" "struct_get ?m ''related_ids'' = None" "struct_get ?m ''payload'' = None"
    "struct_get ?m ''idempotency_key'' = None"
    by (simp_all add: struct_get_def EqualFold_def fold_case_plain plain_def del: fold_case.simps)
  then have dec: "dec_event_body sample_ext sample_lib ''{}'' = Inr b"
    by (simp add: dec_event_body_def sample_lib_def sample_note_def b_def dec_opt_def bindE_def)
  have "''MANUAL_NOTE'' \<in> set allowedEventTypes" "validEntityType ''batch''"
    "ValidateEventPayload ''MANUAL_NOTE'' ''batch'' [] = Inr ()"
    by (simp_all add: allowedEventTypes_def validEntityType_def ValidateEventPayload_def IsCustodyTransfer_def
        CustodyTransferred_def CustodyInTransit_def CustodyReceived_def)
  then have acc: "acceptable None 100 b" by (simp add: b_def acceptable_def or_empty_def)
  have s: "script (empty_db [] 100) = []" "now_us (empty_db [] 100) = 100" "trace_events (empty_db [] 100) = []"
    by (simp_all add: empty_db_def)
  have "merged_related b = []" by (simp add: merged_related_def b_def or_empty_def as_map_def)
  then have i: "in_RelatedIDs (event_input None 100 b) = Some []" "in_Payload (event_input None 100 b) = None"
    "in_IdempotencyKey (event_input None 100 b) = None" "in_EntityBusinessID (event_input None 100 b) = ''B-1''"
    by (simp_all add: event_input_def b_def)
  then have "stored_under (append_defaults 100 (event_input None 100 b)) [] = None"
    by (simp add: stored_under_def)
  with i obtain ev t where app: "AppendEvent sample_ext (ap_chain sample_api) (event_input None 100 b) ?s = (Inr ev, t)" "ev_Inserted ev"
    by (simp add: AppendEvent_plain sample_api_def healthy s insert_event_sql_def append_defaults_def or_empty_def
        returned_event_def Let_def)
  with dec acc show ?thesis by (auto simp: b_def)
qed

lemma sample_recorded:
  "\<exists>ev t. RecordEvent sample_ext sample_lib sample_api None (sample_request ''POST'' ''/api/v1/events'' []) (on_web (empty_db [] 100)) =
     (Answer 201 (BEvent ev), t)"
proof -
  obtain b ev t where b: "dec_event_body sample_ext sample_lib ''{}'' = Inr b" "acceptable None 100 b"
    "AppendEvent sample_ext (ap_chain sample_api) (event_input None 100 b) (on_web (empty_db [] 100)) = (Inr ev, t)"
    using sample_accepts by blast
  moreover have "event_refusal None 100 b = None" using b(2) event_refusal_iff by blast
  moreover have "now_us (empty_db [] 100) = 100" by (simp add: empty_db_def)
  ultimately show ?thesis by (simp add: RecordEvent_def tryH_def doH_def reply_def)
qed

theorem record_event_exact_witness:
  "\<exists>ev s'. RecordEvent sample_ext sample_lib sample_api None (sample_request ''POST'' ''/api/v1/events'' []) (on_web (empty_db [] 100)) =
      (Answer 201 (BEvent ev), s') \<and> (\<exists>r. trace_events s' = [r] \<and> te_entity_business_id r = ''B-1'')"
proof -
  let ?rq = "sample_request ''POST'' ''/api/v1/events'' []" and ?s = "on_web (empty_db [] 100)"
  obtain b ev t where b: "dec_event_body sample_ext sample_lib ''{}'' = Inr b" "acceptable None 100 b"
    "AppendEvent sample_ext (ap_chain sample_api) (event_input None 100 b) ?s = (Inr ev, t)" "ev_Inserted ev" "eb_EntityBusinessID b = ''B-1''"
    using sample_accepts by blast
  obtain ans s' where run: "RecordEvent sample_ext sample_lib sample_api None ?rq ?s = (ans, s')" by (meson surj_pair)
  have s: "now_us (empty_db [] 100) = 100" "trace_events (empty_db [] 100) = []" by (simp_all add: empty_db_def)
  from record_event_exact [OF run] b s show ?thesis
    using run by (auto simp: records_def append_defaults_def event_input_def)
qed

section \<open>Access control\<close>

lemma guarded_route:
  assumes "find_route (rq_Method rq) (rq_Path rq) = Some (params, Needs code, t)"
    and "serve X L d rand rq s = (ans, s')" and "rq_Method rq \<noteq> ''OPTIONS''"
  shows "(\<exists>c. verified d rq = Some c \<and> HasPermission c code) \<or>
    (\<exists>n \<in> {401, 403, 503}. \<exists>c m e. ans = Refused n c m e) \<and> only_logged s s'"
proof -
  let ?rest = "\<lambda>p. RequestAudit (rd_Audit d) rq p (routed X L d rand rq p)"
  have none: "(\<exists>n \<in> {401, 403, 503}. \<exists>c m e. fst (?rest p s) = Refused n c m e) \<and> only_logged s (snd (?rest p s))"
    if "\<not> (\<exists>c. PlatformClaims p = Some c \<and> HasPermission c code)" for p
    using audited_denied [of "routed X L d rand rq p" s, OF routed_denied [OF assms(1) that]] by blast
  have anon: "\<not> (\<exists>c. PlatformClaims None = Some c \<and> HasPermission c code)" by (simp add: PlatformClaims_def)
  from assms(2,3) have run: "(ans, s') = (case rd_PlatformAuth d of None \<Rightarrow> ?rest None | Some m \<Rightarrow> AttachPrincipal X m rq ?rest) s"
    by (simp add: serve_def Let_def split: option.splits)
  show ?thesis
  proof (cases "rd_PlatformAuth d")
    case None
    with run none [OF anon] show ?thesis by (metis fst_conv option.simps(4) snd_conv)
  next
    case (Some m)
    with run have run: "(ans, s') = AttachPrincipal X m rq ?rest s" by simp
    consider (public) "(ans, s') = ?rest None s"
      | (refused) n c e where "n \<in> {401, 503}" "(ans, s') = (Refused n c e [], s)"
      | (claims) c u where "verified d rq = Some c" "(ans, s') = ?rest (Some \<lparr>pr_UserID = u, pr_Claims = c\<rparr>) s"
      using run Some by (auto simp: AttachPrincipal_def fromJWT_def verified_def Let_def write_err_def Unauthorized_def
          split: if_splits option.splits sum.splits)
    then show ?thesis
    proof cases
      case public
      with none [OF anon] show ?thesis by (metis fst_conv snd_conv)
    next
      case refused
      then show ?thesis using only_logged_refl by blast
    next
      case claims
      show ?thesis
      proof (cases "HasPermission c code")
        case False
        then have "\<not> (\<exists>c'. PlatformClaims (Some \<lparr>pr_UserID = u, pr_Claims = c\<rparr>) = Some c' \<and> HasPermission c' code)"
          by (simp add: PlatformClaims_def)
        from none [OF this] claims show ?thesis by (metis fst_conv snd_conv)
      qed (use claims in blast)
    qed
  qed
qed

text \<open>
  C5. Every protected route is protected.  Whatever a request to a route with a permission carries, and
  however the database behaves, either its bearer token was accepted by the verifier with claims that
  hold the permission, or it is refused with 401, 403 or 503 and changes nothing but, perhaps, one row
  of the request log.
\<close>

theorem api_requires_permission:
  assumes "find_route (rq_Method rq) (rq_Path rq) = Some (params, Needs code, t)"
    and "serve X L d rand rq s = (ans, s')" and "rq_Method rq \<noteq> ''OPTIONS''"
  shows "(\<exists>c. verified d rq = Some c \<and> HasPermission c code) \<or>
    (\<exists>n \<in> {401, 403, 503}. \<exists>c m e. ans = Refused n c m e) \<and> only_logged s s'"
  using guarded_route [OF assms] .

theorem api_requires_permission_witness:
  "\<exists>n \<in> {401, 403, 503}. \<exists>c m e s'. serve sample_ext sample_lib \<lparr>rd_API = sample_api, rd_Audit = True, rd_PlatformAuth = None,
       rd_CORSOrigins = [], rd_limiter = \<lparr>lc_perMinute = Fin 60, lc_burst = 10\<rparr>, rd_allow = (\<lambda>_ _ _. True)\<rparr> []
       (sample_request ''POST'' ''/api/v1/lots/L-1/revoke'' []) (on_web sample_qr) = (Refused n c m e, s') \<and>
     only_logged (on_web sample_qr) s'"
proof -
  let ?d = "\<lparr>rd_API = sample_api, rd_Audit = True, rd_PlatformAuth = None,
       rd_CORSOrigins = [], rd_limiter = \<lparr>lc_perMinute = Fin 60, lc_burst = 10\<rparr>, rd_allow = (\<lambda>_ _ _. True)\<rparr>"
  let ?rq = "sample_request ''POST'' ''/api/v1/lots/L-1/revoke'' []"
  have "find_route ''POST'' ''/api/v1/lots/L-1/revoke'' = Some ([(''businessId'', ''L-1'')], Needs ''traceability.publish_qr'', TRevokeLotQR)"
    by code_simp
  then have f: "find_route (rq_Method ?rq) (rq_Path ?rq) = Some ([(''businessId'', ''L-1'')], Needs ''traceability.publish_qr'', TRevokeLotQR)"
    by simp
  obtain ans s' where run: "serve sample_ext sample_lib ?d [] ?rq (on_web sample_qr) = (ans, s')"
    by (meson surj_pair)
  have "verified ?d ?rq = None" by (simp add: verified_def)
  with api_requires_permission [OF f run] run show ?thesis by auto
qed

end
