(* ===== verification/AnchorKeys.thy ===== *)
theory AnchorKeys
  imports Anchoring ScmClient ServiceConfig Base64
begin

text \<open>
  \<open>internal/anchor\<close>: the signers and the providers and their selection from the configuration.  Ed25519
  of the standard library and the HTTP exchange with Vault are arguments; HMAC-SHA256, hexadecimal and
  base64 are written out.
\<close>

section \<open>Signers in the process\<close>

record SignerConfig =
  sk_Algo :: string
  sk_KeyID :: string
  sk_KeyHex :: string
  sk_VaultAddr :: string
  sk_VaultToken :: string
  sk_VaultMount :: string
  sk_VaultKey :: string

text \<open>\<open>crypto/ed25519\<close>: the key of a seed, the signature of a message, the public half.\<close>

record ed25519 =
  ed_NewKeyFromSeed :: "string \<Rightarrow> string"
  ed_Sign :: "string \<Rightarrow> string \<Rightarrow> string"
  ed_Public :: "string \<Rightarrow> string"

definition hmacSigner :: "string \<Rightarrow> string \<Rightarrow> Signer" where
  "hmacSigner keyID key = \<lparr>sg_Algo = ''hmac-sha256'', sg_KeyID = keyID,
     sg_Sign = (\<lambda>mroot. Inr (hex_encode (hmac_sha256 key mroot))), sg_PublicKeyHex = []\<rparr>"

definition ed25519Signer :: "ed25519 \<Rightarrow> string \<Rightarrow> string \<Rightarrow> Signer" where
  "ed25519Signer ed keyID priv = \<lparr>sg_Algo = ''ed25519'', sg_KeyID = keyID,
     sg_Sign = (\<lambda>mroot. Inr (hex_encode (ed_Sign ed priv mroot))), sg_PublicKeyHex = hex_encode (ed_Public ed priv)\<rparr>"

section \<open>The signer in Vault\<close>

text \<open>
  The outside of the Vault signer.  \<open>vh_do\<close> takes the method, URL, token and body of a request to the
  response or the error of the transport; \<open>vh_pick\<close> is the entry (counted modulo the size) at which the
  runtime happens to start a \<open>range\<close> over a Go map.
\<close>

record vault_http =
  vh_do :: "string \<Rightarrow> string \<Rightarrow> string \<Rightarrow> string option \<Rightarrow> err + http_resp"
  vh_pick :: nat

record vaultSigner =
  va_addr :: string
  va_token :: string
  va_mount :: string
  va_key :: string
  va_keyID :: string
  va_publicHex :: string

definition vault_do :: "vault_http \<Rightarrow> vaultSigner \<Rightarrow> string \<Rightarrow> string \<Rightarrow> string option \<Rightarrow> err + gval" where
  "vault_do http s verb path body =
     bindE (vh_do http verb (va_addr s @ ''/v1/'' @ va_mount s @ path) (va_token s) body) (\<lambda>r.
       if hr_StatusCode r \<ge> 300
       then Inl (ErrMsg (''vault '' @ verb @ '' '' @ path @ '': '' @ int_str (hr_StatusCode r) @ '' '' @ TrimSpace (hr_Body r)))
       else case hr_Json r of None \<Rightarrow> Inl (ErrMsg ''invalid character'') | Some v \<Rightarrow> Inr v)"

text \<open>A nested struct: absent or null is its zero value.\<close>

fun dec_obj :: "gval option \<Rightarrow> err + gmap" where
  "dec_obj None = Inr []"
| "dec_obj (Some GNil) = Inr []"
| "dec_obj (Some (GMap m)) = Inr m"
| "dec_obj (Some _) = Inl type_error"

fun dec_int :: "gval option \<Rightarrow> err + int" where
  "dec_int None = Inr 0"
| "dec_int (Some (GFloat NegZero)) = Inr 0"
| "dec_int (Some (GFloat (Fin r))) = (if of_int \<lfloor>r\<rfloor> = r then Inr \<lfloor>r\<rfloor> else Inl type_error)"
| "dec_int (Some _) = Inl type_error"

definition vault_data :: "gval \<Rightarrow> err + gmap" where
  "vault_data v = bindE (dec_obj (Some v)) (\<lambda>m. dec_obj (struct_get m ''data''))"

text \<open>\<open>raw[i+1:]\<close> after the last colon.\<close>

definition after_colon :: "string \<Rightarrow> string" where
  "after_colon raw = (case LastIndex raw '':'' of None \<Rightarrow> raw | Some i \<Rightarrow> drop (Suc i) raw)"

definition sign_body :: "string \<Rightarrow> string option" where
  "sign_body mroot = json_marshal (\<lambda>_. []) (GMap [(''input'', GStr (StdEncode mroot))])"

definition vault_Sign :: "vault_http \<Rightarrow> vaultSigner \<Rightarrow> string \<Rightarrow> err + string" where
  "vault_Sign http s mroot =
     bindE (vault_do http s ''POST'' (''/sign/'' @ va_key s) (sign_body mroot)) (\<lambda>out.
     bindE (vault_data out) (\<lambda>data.
     bindE (dec_str (struct_get data ''signature'')) (\<lambda>raw.
       case StdDecode (after_colon raw) of
         None \<Rightarrow> Inl (ErrMsg ''vault signer: decode signature: illegal base64 data'')
       | Some sig \<Rightarrow> Inr (hex_encode sig))))"

text \<open>The key versions, each an object; whichever the runtime yields when the latest is not among them.\<close>

fun dec_versions :: "gmap \<Rightarrow> err + (string \<times> string) list" where
  "dec_versions [] = Inr []"
| "dec_versions ((ver, v) # vs) =
     bindE (dec_obj (Some v)) (\<lambda>m.
     bindE (dec_str (struct_get m ''public_key'')) (\<lambda>pub.
     bindE (dec_versions vs) (\<lambda>rest. Inr ((ver, pub) # rest))))"

definition fetchPublicKeyHex :: "vault_http \<Rightarrow> vaultSigner \<Rightarrow> err + string" where
  "fetchPublicKeyHex http s =
     bindE (vault_do http s ''GET'' (''/keys/'' @ va_key s) None) (\<lambda>out.
     bindE (vault_data out) (\<lambda>data.
     bindE (bindE (dec_obj (struct_get data ''keys'')) dec_versions) (\<lambda>keys.
     bindE (dec_int (struct_get data ''latest_version'')) (\<lambda>latest.
       if keys = [] then Inl (ErrMsg (''no key versions returned for '' @ va_key s))
       else let entry = (case map_of keys (int_str latest) of Some e \<Rightarrow> e | None \<Rightarrow> snd (keys ! (vh_pick http mod length keys))) in
         if entry = [] then Inl (ErrMsg (''key has no public_key (is it an ed25519 key?): '' @ va_key s))
         else case StdDecode entry of
           None \<Rightarrow> Inl (ErrMsg ''decode public_key: illegal base64 data'')
         | Some pub \<Rightarrow> Inr (hex_encode pub)))))"

definition vault_setup :: "SignerConfig \<Rightarrow> vaultSigner" where
  "vault_setup cfg =
     (let addr = TrimRight (TrimSpace (sk_VaultAddr cfg)) (CHR ''/'');
          mount0 = TrimRight (dropWhile (\<lambda>c. c = CHR ''/'') (TrimSpace (sk_VaultMount cfg))) (CHR ''/'');
          mount = (if mount0 = [] then ''transit'' else mount0);
          key = TrimSpace (sk_VaultKey cfg)
      in \<lparr>va_addr = addr, va_token = TrimSpace (sk_VaultToken cfg), va_mount = mount, va_key = key,
          va_keyID = (if sk_KeyID cfg = [] then ''vault:'' @ mount @ ''/'' @ key else sk_KeyID cfg), va_publicHex = []\<rparr>)"

definition newVaultSigner :: "vault_http \<Rightarrow> SignerConfig \<Rightarrow> err + Signer" where
  "newVaultSigner http cfg =
     (let s = vault_setup cfg in
      if va_addr s = [] \<or> va_key s = [] \<or> va_token s = []
      then Inl (ErrMsg ''vault signer: VAULT_ADDR, VAULT_TOKEN and VAULT_TRANSIT_KEY are required'')
      else case fetchPublicKeyHex http s of
        Inl e \<Rightarrow> Inl (ErrWrap ''vault signer'' e)
      | Inr pub \<Rightarrow> Inr \<lparr>sg_Algo = ''ed25519'', sg_KeyID = va_keyID s, sg_Sign = vault_Sign http s, sg_PublicKeyHex = pub\<rparr>)"

section \<open>Selection\<close>

definition NewSigner :: "ed25519 \<Rightarrow> vault_http \<Rightarrow> SignerConfig \<Rightarrow> err + Signer" where
  "NewSigner ed http cfg =
     (let algo = ToLower (TrimSpace (sk_Algo cfg)); key = hex_decode (TrimSpace (sk_KeyHex cfg)) in
      if algo = [] \<or> algo = ''none'' then Inr noneSigner
      else if algo = ''hmac-sha256'' \<or> algo = ''hmac'' then
        (case key of
           Some k \<Rightarrow> if k = [] then Inl (ErrMsg ''hmac signer: ANCHOR_SIGNING_KEY must be non-empty hex'') else Inr (hmacSigner (sk_KeyID cfg) k)
         | None \<Rightarrow> Inl (ErrMsg ''hmac signer: ANCHOR_SIGNING_KEY must be non-empty hex''))
      else if algo = ''ed25519'' then
        (case key of
           Some seed \<Rightarrow> if length seed \<noteq> 32 then Inl (ErrMsg ''ed25519 signer: ANCHOR_SIGNING_KEY must be 32-byte hex seed'')
             else Inr (ed25519Signer ed (sk_KeyID cfg) (ed_NewKeyFromSeed ed seed))
         | None \<Rightarrow> Inl (ErrMsg ''ed25519 signer: ANCHOR_SIGNING_KEY must be 32-byte hex seed''))
      else if algo = ''vault-transit'' \<or> algo = ''vault'' then newVaultSigner http cfg
      else Inl (ErrMsg (''unknown ANCHOR_SIGNING_ALGO '' @ sk_Algo cfg)))"

definition polygon_PublishRoot :: "string \<Rightarrow> AnchorMeta \<Rightarrow> err + string" where
  "polygon_PublishRoot mroot meta =
     (if length mroot \<noteq> 32 then Inl (ErrMsg (''polygon provider: root must be 32 bytes, got '' @ nat_str (length mroot)))
      else Inl ErrNotImplemented)"

definition newPolygonProvider :: "string \<Rightarrow> string \<Rightarrow> err + AnchorProvider" where
  "newPolygonProvider rpcURL contract =
     (if TrimSpace rpcURL = [] then Inl (ErrMsg ''polygon provider: ANCHOR_RPC_URL is required'')
      else if TrimSpace contract = [] then Inl (ErrMsg ''polygon provider: ANCHOR_CONTRACT_ADDRESS is required'')
      else Inr \<lparr>pv_Name = ''polygon'', pv_PublishRoot = polygon_PublishRoot, pv_VerifyRoot = (\<lambda>_ _. Inl ErrNotImplemented)\<rparr>)"

definition NewProvider :: "string \<Rightarrow> string \<Rightarrow> string \<Rightarrow> err + AnchorProvider" where
  "NewProvider name rpcURL contract =
     (let n = ToLower (TrimSpace name) in
      if n = [] \<or> n = ''none'' then Inr noopProvider
      else if n = ''polygon'' then newPolygonProvider rpcURL contract
      else Inl (ErrMsg (''unknown ANCHOR_PROVIDER '' @ name)))"

section \<open>Vault signs like the process\<close>

lemma HasPrefix_mem: "HasPrefix s [c] \<Longrightarrow> c \<in> set s"
  by (cases s) (auto simp: HasPrefix_def)

lemma LastIndex_colon:
  assumes "CHR '':'' \<notin> set q"
  shows "LastIndex (p @ CHR '':'' # q) '':'' = Some (length p)"
proof -
  let ?s = "p @ CHR '':'' # q" and ?P = "\<lambda>i. HasPrefix (drop i (p @ CHR '':'' # q)) '':''"
  have "[0..<Suc (length ?s)] = [0..<length p] @ length p # [Suc (length p)..<Suc (length ?s)]"
    using upt_add_eq_append [of 0 "length p" "Suc (Suc (length q))"] upt_conv_Cons [of "length p" "Suc (length ?s)"] by simp
  then have all: "rev [0..<Suc (length ?s)] = rev [Suc (length p)..<Suc (length ?s)] @ length p # rev [0..<length p]"
    by (simp only: rev_append rev.simps append_assoc append.simps)
  have nohit: "\<not> ?P i" if "Suc (length p) \<le> i" for i
  proof -
    have "set (drop i ?s) \<subseteq> set q" using that set_drop_subset [of "i - Suc (length p)" q]
      by (auto simp: drop_Cons dest: in_set_dropD split: nat.split)
    with assms have "CHR '':'' \<notin> set (drop i ?s)" by blast
    then show ?thesis using HasPrefix_mem [of "drop i ?s" "CHR '':''"] by blast
  qed
  then have none: "find ?P (rev [Suc (length p)..<Suc (length ?s)]) = None"
    unfolding find_None_set by (intro ballI nohit) auto
  show ?thesis
    unfolding LastIndex_def all by (simp only: find_append none option.case) (simp add: HasPrefix_def)
qed

lemma StdEncode_no_colon: "CHR '':'' \<notin> set (StdEncode bs)"
proof -
  have "set (raw_encode std_alphabet bs) \<subseteq> set std_alphabet" by (rule raw_encode_chars) code_simp
  moreover have "CHR '':'' \<notin> set std_alphabet" by code_simp
  ultimately show ?thesis by (auto simp: StdEncode_def Let_def padding_def)
qed

lemma after_colon_signature: "after_colon (p @ CHR '':'' # StdEncode bs) = StdEncode bs"
  by (simp add: after_colon_def LastIndex_colon [OF StdEncode_no_colon])

text \<open>
  What Transit documents.  Every answer is an object with a \<open>data\<close> object, beside other members of any
  kind; \<open>sign\<close> puts the signature of the decoded input under \<open>signature\<close>, after the version of the key;
  \<open>keys\<close> lists any number of versions of the key, each an object with its \<open>public_key\<close> beside other
  members, and says which is the latest.  The key in use is the latest one.
\<close>

definition reads_as :: "gmap \<Rightarrow> string \<Rightarrow> gval \<Rightarrow> bool" where
  "reads_as m name v \<longleftrightarrow> map snd (filter (\<lambda>(k, _). EqualFold k name) m) = [v] \<and> v \<noteq> GNil"

definition vault_answer :: "err + http_resp \<Rightarrow> gmap \<Rightarrow> bool" where
  "vault_answer r data \<longleftrightarrow>
     (\<exists>resp m. r = Inr resp \<and> hr_StatusCode resp = 200 \<and> hr_Json resp = Some (GMap m) \<and>
        reads_as m ''data'' (GMap data))"

definition key_version :: "gval \<Rightarrow> string \<Rightarrow> bool" where
  "key_version v pub \<longleftrightarrow> (\<exists>m. v = GMap m \<and> reads_as m ''public_key'' (GStr pub))"

definition vault_serves :: "ed25519 \<Rightarrow> vault_http \<Rightarrow> vaultSigner \<Rightarrow> string \<Rightarrow> nat \<Rightarrow> bool" where
  "vault_serves ed http s priv n \<longleftrightarrow>
     (\<forall>mroot. \<exists>data.
        vault_answer (vh_do http ''POST'' (va_addr s @ ''/v1/'' @ va_mount s @ ''/sign/'' @ va_key s) (va_token s)
          (sign_body mroot)) data \<and>
        reads_as data ''signature'' (GStr (''vault:v'' @ nat_str n @ '':'' @ StdEncode (ed_Sign ed priv mroot)))) \<and>
     (\<exists>data versions v.
        vault_answer (vh_do http ''GET'' (va_addr s @ ''/v1/'' @ va_mount s @ ''/keys/'' @ va_key s) (va_token s) None) data \<and>
        reads_as data ''latest_version'' (GFloat (Fin (of_nat n))) \<and>
        reads_as data ''keys'' (GMap versions) \<and> (\<forall>w \<in> snd ` set versions. \<exists>pub. key_version w pub) \<and>
        map_of versions (nat_str n) = Some v \<and> key_version v (StdEncode (ed_Public ed priv)))"

lemma ToLower_plain: "plain s \<Longrightarrow> ToLower s = s"
proof (induction s rule: ToLower.induct)
  case (2 c cs)
  have "(of_char (byte 0xC4) :: nat) = 0xC4" "(of_char (byte 0xE2) :: nat) = 0xE2" by simp_all
  with 2(4) have "c \<noteq> byte 0xC4" "c \<noteq> byte 0xE2" by (auto simp: plain_def simp del: of_char_of)
  then have "\<not> HasPrefix (c # cs) [byte 0xC4, byte 0xB0]" "\<not> HasPrefix (c # cs) [byte 0xE2, byte 0x84, byte 0xAA]"
    by (simp_all add: HasPrefix_def)
  with 2 show ?case by (auto simp: plain_def lower_ascii_def Let_def)
qed simp

lemma StdEncode_nil: "StdEncode [] = []"
  by code_simp

lemma reads_as_get:
  assumes "reads_as m name v" shows "struct_get m name = Some v"
proof -
  from assms obtain k where one: "filter (\<lambda>(k, _). EqualFold k name) m = [(k, v)]" and "v \<noteq> GNil"
    by (auto simp: reads_as_def map_eq_Cons_conv)
  have "filter (\<lambda>(k, v). EqualFold k name \<and> v \<noteq> GNil) m =
      filter (\<lambda>(_, v). v \<noteq> GNil) (filter (\<lambda>(k, _). EqualFold k name) m)"
    by (auto simp: filter_filter intro!: filter_cong)
  with \<open>v \<noteq> GNil\<close> show ?thesis by (simp add: struct_get_def one)
qed

lemma vault_answerI:
  "r = Inr resp \<Longrightarrow> hr_StatusCode resp = 200 \<Longrightarrow> hr_Json resp = Some (GMap m) \<Longrightarrow>
   reads_as m ''data'' (GMap data) \<Longrightarrow> vault_answer r data"
  by (auto simp: vault_answer_def)

lemma vault_answer_do:
  "vault_answer (vh_do http verb (va_addr s @ ''/v1/'' @ va_mount s @ path) (va_token s) body) data \<Longrightarrow>
   bindE (vault_do http s verb path body) (\<lambda>out. bindE (vault_data out) k) = k data"
  by (auto simp: vault_answer_def vault_do_def vault_data_def bindE_def reads_as_get)

lemma dec_versions_found:
  assumes "\<forall>w \<in> snd ` set versions. \<exists>pub. key_version w pub"
  shows "\<exists>keys. dec_versions versions = Inr keys \<and>
    (\<forall>ver v pub. map_of versions ver = Some v \<longrightarrow> key_version v pub \<longrightarrow> map_of keys ver = Some pub)"
  using assms
proof (induction versions rule: dec_versions.induct)
  case (2 ver v vs)
  then obtain m pub keys where v: "v = GMap m" "struct_get m ''public_key'' = Some (GStr pub)"
    and ih: "dec_versions vs = Inr keys"
      "\<forall>ver v pub. map_of vs ver = Some v \<longrightarrow> key_version v pub \<longrightarrow> map_of keys ver = Some pub"
    by (auto simp: key_version_def dest: reads_as_get)
  have "dec_versions ((ver, v) # vs) = Inr ((ver, pub) # keys)" by (simp add: v ih(1) bindE_def)
  moreover have "pub' = pub" if "key_version v pub'" for pub'
    using that v by (auto simp: key_version_def dest: reads_as_get)
  ultimately show ?case using ih(2) by auto
qed simp

lemma vault_Sign_serves:
  assumes "vault_serves ed http s priv n"
  shows "vault_Sign http s mroot = Inr (hex_encode (ed_Sign ed priv mroot))"
proof -
  let ?raw = "''vault:v'' @ nat_str n @ '':'' @ StdEncode (ed_Sign ed priv mroot)"
  from assms obtain data where
    "vault_answer (vh_do http ''POST'' (va_addr s @ ''/v1/'' @ va_mount s @ ''/sign/'' @ va_key s) (va_token s) (sign_body mroot)) data"
    and raw: "reads_as data ''signature'' (GStr ?raw)"
    unfolding vault_serves_def by blast
  note run = vault_answer_do [OF this(1)]
  have "after_colon ?raw = StdEncode (ed_Sign ed priv mroot)"
    using after_colon_signature [of "''vault:v'' @ nat_str n"] by simp
  with reads_as_get [OF raw] show ?thesis unfolding vault_Sign_def run by (simp add: bindE_def StdDecode_StdEncode)
qed

lemma fetchPublicKeyHex_serves:
  assumes "vault_serves ed http s priv n" and "ed_Public ed priv \<noteq> []"
  shows "fetchPublicKeyHex http s = Inr (hex_encode (ed_Public ed priv))"
proof -
  let ?pub = "StdEncode (ed_Public ed priv)"
  have "?pub \<noteq> []"
    using assms(2) StdDecode_StdEncode [of "ed_Public ed priv"] StdDecode_StdEncode [of "[]"]
    by (metis StdEncode_nil option.inject)
  from assms(1) obtain data versions v where
    "vault_answer (vh_do http ''GET'' (va_addr s @ ''/v1/'' @ va_mount s @ ''/keys/'' @ va_key s) (va_token s) None) data"
    and latest: "reads_as data ''latest_version'' (GFloat (Fin (of_nat n)))" and vs: "reads_as data ''keys'' (GMap versions)"
    and all: "\<forall>w \<in> snd ` set versions. \<exists>pub. key_version w pub"
    and v: "map_of versions (nat_str n) = Some v" "key_version v ?pub"
    unfolding vault_serves_def by blast
  note run = vault_answer_do [OF this(1)]
  obtain keys where keys: "dec_versions versions = Inr keys" "map_of keys (nat_str n) = Some ?pub"
    using dec_versions_found [OF all] v by blast
  then have "keys \<noteq> []" by auto
  moreover have "int_str (int n) = nat_str n" by (simp add: int_str_def)
  ultimately show ?thesis
    unfolding fetchPublicKeyHex_def run
    using \<open>?pub \<noteq> []\<close> keys by (simp add: bindE_def reads_as_get [OF latest] reads_as_get [OF vs] StdDecode_StdEncode)
qed

text \<open>
  C40. A key in Vault signs like the same key in the process.  If Vault answers as the Transit engine
  documents (any further members and any older versions of the key), and the latest version is the key
  that a 32-byte seed makes, then the signer that talks to Vault and the one that
  holds the seed are both accepted, and they give the same algorithm, the same public key and, for every
  root, the same signature, in the same hexadecimal form.
\<close>

theorem vault_signs_like_process:
  assumes "ToLower (TrimSpace (sk_Algo cfg)) \<in> {''vault'', ''vault-transit''}"
    and "ToLower (TrimSpace (sk_Algo cfg')) = ''ed25519''"
    and "hex_decode (TrimSpace (sk_KeyHex cfg')) = Some seed" and "length seed = 32"
    and "va_addr (vault_setup cfg) \<noteq> []" and "va_key (vault_setup cfg) \<noteq> []" and "va_token (vault_setup cfg) \<noteq> []"
    and "vault_serves ed http (vault_setup cfg) (ed_NewKeyFromSeed ed seed) n"
    and "ed_Public ed (ed_NewKeyFromSeed ed seed) \<noteq> []"
  shows "\<exists>sg sg'. NewSigner ed http cfg = Inr sg \<and> NewSigner ed http cfg' = Inr sg' \<and> sg_Algo sg = sg_Algo sg' \<and>
    sg_PublicKeyHex sg = sg_PublicKeyHex sg' \<and> sg_Sign sg = sg_Sign sg'"
proof -
  let ?s = "vault_setup cfg" and ?priv = "ed_NewKeyFromSeed ed seed"
  have "NewSigner ed http cfg = newVaultSigner http cfg" using assms(1) by (auto simp: NewSigner_def)
  also have "\<dots> = Inr \<lparr>sg_Algo = ''ed25519'', sg_KeyID = va_keyID ?s, sg_Sign = vault_Sign http ?s,
      sg_PublicKeyHex = hex_encode (ed_Public ed ?priv)\<rparr>"
    using assms(5-7) fetchPublicKeyHex_serves [OF assms(8,9)] by (simp add: newVaultSigner_def Let_def)
  finally have vault: "NewSigner ed http cfg = \<dots>" .
  have process: "NewSigner ed http cfg' = Inr (ed25519Signer ed (sk_KeyID cfg') ?priv)"
    using assms(2-4) by (simp add: NewSigner_def Let_def)
  have "vault_Sign http ?s = (\<lambda>mroot. Inr (hex_encode (ed_Sign ed ?priv mroot)))"
    using vault_Sign_serves [OF assms(8)] by blast
  with vault process show ?thesis by (simp add: ed25519Signer_def)
qed

definition sample_ed :: ed25519 where
  "sample_ed = \<lparr>ed_NewKeyFromSeed = (\<lambda>seed. seed), ed_Sign = (\<lambda>priv m. sha256 (priv @ m)), ed_Public = sha256\<rparr>"

definition sample_vault_cfg :: SignerConfig where
  "sample_vault_cfg = \<lparr>sk_Algo = ''vault'', sk_KeyID = [], sk_KeyHex = [], sk_VaultAddr = ''http://v'', sk_VaultToken = ''t'',
     sk_VaultMount = [], sk_VaultKey = ''k''\<rparr>"

definition sample_seed :: string where
  "sample_seed = replicate 32 (CHR ''s'')"

text \<open>A Vault that signs what the body of the request holds, with a key that has been rotated once.\<close>

definition unbody :: "string option \<Rightarrow> string" where
  "unbody b = (case b of None \<Rightarrow> [] | Some t \<Rightarrow> (case StdDecode (takeWhile (\<lambda>c. c \<noteq> CHR 0x22) (drop 10 t)) of Some m \<Rightarrow> m | None \<Rightarrow> []))"

definition sample_version :: "string \<Rightarrow> gval" where
  "sample_version priv = GMap [(''name'', GStr ''ed25519''), (''public_key'', GStr (StdEncode (ed_Public sample_ed priv)))]"

definition sample_vault :: vault_http where
  "sample_vault = \<lparr>vh_do = (\<lambda>verb url token body.
     Inr \<lparr>hr_StatusCode = 200, hr_Status = [], hr_Body = [], hr_Json = Some (GMap [(''request_id'', GStr ''r1''), (''data'', GMap
       (if verb = ''POST''
        then [(''key_version'', GFloat (Fin 2)),
              (''signature'', GStr (''vault:v'' @ nat_str 2 @ '':'' @ StdEncode (ed_Sign sample_ed sample_seed (unbody body))))]
        else [(''type'', GStr ''ed25519''), (''keys'', GMap [(nat_str 1, sample_version []), (nat_str 2, sample_version sample_seed)]),
              (''latest_version'', GFloat (Fin (of_nat 2)))]))])\<rparr>), vh_pick = 0\<rparr>"

lemma sample_vault_reads:
  "reads_as [(''request_id'', x), (''data'', GMap d)] ''data'' (GMap d)"
  "reads_as [(''key_version'', x), (''signature'', GStr t)] ''signature'' (GStr t)"
  "reads_as [(''type'', x), (''keys'', GMap ks), (''latest_version'', GFloat n)] ''keys'' (GMap ks)"
  "reads_as [(''type'', x), (''keys'', GMap ks), (''latest_version'', GFloat n)] ''latest_version'' (GFloat n)"
  "key_version (sample_version priv) (StdEncode (ed_Public sample_ed priv))"
  by (simp_all add: key_version_def sample_version_def reads_as_def EqualFold_def fold_case_plain plain_def del: fold_case.simps)

lemma json_escape_base64: "set t \<subseteq> set (CHR ''='' # std_alphabet) \<Longrightarrow> json_escape t = t"
proof (induction t)
  case (Cons c t)
  have "list_all (\<lambda>c. \<not> (of_char c :: nat) < 32 \<and> c \<notin> {CHR 0x22, CHR 0x5C, CHR 0x08, CHR 0x0C, CHR 0x0A, CHR 0x0D, CHR 0x09} \<and>
      c \<notin> set ''<>&'' \<and> c \<noteq> byte 0xE2) (CHR ''='' # std_alphabet)"
    by code_simp
  with Cons.prems have "\<not> (of_char c :: nat) < 32" "c \<notin> {CHR 0x22, CHR 0x5C, CHR 0x08, CHR 0x0C, CHR 0x0A, CHR 0x0D, CHR 0x09}"
    "c \<notin> set ''<>&''" "c \<noteq> byte 0xE2"
    by (auto simp only: list_all_iff set_simps set_subset_Cons list.set insert_subset)
  moreover from this(4) have "\<not> HasPrefix (c # t) [byte 0xE2, byte 0x80, byte 0xA8]" "\<not> HasPrefix (c # t) [byte 0xE2, byte 0x80, byte 0xA9]"
    by (simp_all add: HasPrefix_def)
  ultimately show ?case using Cons by simp
qed simp

lemma StdEncode_chars: "set (StdEncode m) \<subseteq> set (CHR ''='' # std_alphabet)"
proof -
  have "set (raw_encode std_alphabet m) \<subseteq> set std_alphabet" by (rule raw_encode_chars) code_simp
  then show ?thesis by (auto simp: StdEncode_def Let_def padding_def)
qed

lemma unbody_sign_body: "unbody (sign_body m) = m"
proof -
  have "CHR 0x22 \<notin> set (CHR ''='' # std_alphabet)" by code_simp
  with StdEncode_chars [of m] have q: "CHR 0x22 \<notin> set (StdEncode m)" by blast
  have "sign_body m = Some (CHR ''{'' # json_string ''input'' @ '':'' @ CHR 0x22 # StdEncode m @ [CHR 0x22, CHR ''}''])"
    using json_escape_base64 [OF StdEncode_chars [of m]] by (simp add: sign_body_def json_object_def sort_by_key_def json_string_def)
  moreover have "json_string ''input'' = CHR 0x22 # ''input'' @ [CHR 0x22]" by code_simp
  moreover have "takeWhile (\<lambda>c. c \<noteq> CHR 0x22) (StdEncode m @ [CHR 0x22, CHR ''}'']) = StdEncode m"
    by (subst takeWhile_append2) (use q in auto)
  ultimately show ?thesis by (simp add: unbody_def StdDecode_StdEncode)
qed

lemma sample_vault_serves: "vault_serves sample_ed sample_vault s sample_seed 2"
proof -
  let ?versions = "[(nat_str 1, sample_version []), (nat_str 2, sample_version sample_seed)]"
  have "nat_str 1 \<noteq> nat_str 2" by code_simp
  then have latest: "map_of ?versions (nat_str 2) = Some (sample_version sample_seed)" by simp
  have all: "\<forall>w \<in> snd ` set ?versions. \<exists>pub. key_version w pub"
    using sample_vault_reads(5) by auto
  have sign: "vault_answer (vh_do sample_vault ''POST'' url token (sign_body mroot))
      [(''key_version'', GFloat (Fin 2)), (''signature'', GStr (''vault:v'' @ nat_str 2 @ '':'' @ StdEncode (ed_Sign sample_ed sample_seed mroot)))]"
    for url token mroot
    unfolding sample_vault_def vault_http.simps unbody_sign_body
    by (rule vault_answerI [OF refl _ _ sample_vault_reads(1) [of "GStr ''r1''"]]) simp_all
  have key: "vault_answer (vh_do sample_vault ''GET'' url token None)
      [(''type'', GStr ''ed25519''), (''keys'', GMap ?versions), (''latest_version'', GFloat (Fin (of_nat 2)))]" for url token
    unfolding sample_vault_def vault_http.simps
    by (rule vault_answerI [OF refl _ _ sample_vault_reads(1) [of "GStr ''r1''"]]) simp_all
  show ?thesis
    unfolding vault_serves_def
  proof (intro conjI allI)
    show "\<exists>data. vault_answer (vh_do sample_vault ''POST'' (va_addr s @ ''/v1/'' @ va_mount s @ ''/sign/'' @ va_key s) (va_token s)
        (sign_body mroot)) data \<and> reads_as data ''signature''
          (GStr (''vault:v'' @ nat_str 2 @ '':'' @ StdEncode (ed_Sign sample_ed sample_seed mroot)))" for mroot
      by (rule exI, rule conjI, rule sign, rule sample_vault_reads(2))
    show "\<exists>data versions v. vault_answer (vh_do sample_vault ''GET'' (va_addr s @ ''/v1/'' @ va_mount s @ ''/keys/'' @ va_key s)
        (va_token s) None) data \<and> reads_as data ''latest_version'' (GFloat (Fin (of_nat 2))) \<and>
        reads_as data ''keys'' (GMap versions) \<and> (\<forall>w \<in> snd ` set versions. \<exists>pub. key_version w pub) \<and>
        map_of versions (nat_str 2) = Some v \<and> key_version v (StdEncode (ed_Public sample_ed sample_seed))"
      by (rule exI, rule exI, rule exI, rule conjI [OF key], rule conjI [OF sample_vault_reads(4)],
          rule conjI [OF sample_vault_reads(3)], rule conjI [OF all], rule conjI [OF latest sample_vault_reads(5)])
  qed
qed

theorem vault_signs_like_process_witness:
  "\<exists>sg sg'. NewSigner sample_ed sample_vault sample_vault_cfg = Inr sg \<and>
     NewSigner sample_ed sample_vault (sample_vault_cfg\<lparr>sk_Algo := ''ed25519'', sk_KeyHex := hex_encode sample_seed\<rparr>) = Inr sg' \<and>
     sg_Sign sg = sg_Sign sg'"
proof -
  let ?cfg' = "sample_vault_cfg\<lparr>sk_Algo := ''ed25519'', sk_KeyHex := hex_encode sample_seed\<rparr>"
  have algo: "ToLower (TrimSpace (sk_Algo sample_vault_cfg)) \<in> {''vault'', ''vault-transit''}"
    "ToLower (TrimSpace (sk_Algo ?cfg')) = ''ed25519''"
  proof -
    have "TrimSpace ''vault'' = ''vault''" "TrimSpace ''ed25519'' = ''ed25519''"
      by (simp_all add: TrimSpace_graphic graphic_def)
    moreover have "ToLower ''vault'' = ''vault''" "ToLower ''ed25519'' = ''ed25519''"
      by (simp_all add: ToLower_plain plain_def del: ToLower.simps)
    ultimately show "ToLower (TrimSpace (sk_Algo sample_vault_cfg)) \<in> {''vault'', ''vault-transit''}"
      "ToLower (TrimSpace (sk_Algo ?cfg')) = ''ed25519''" by (simp_all add: sample_vault_cfg_def)
  qed
  have "hex_encode sample_seed = concat (replicate 32 ''73'')" by code_simp
  then have "TrimSpace (hex_encode sample_seed) = hex_encode sample_seed"
    by (simp add: TrimSpace_graphic graphic_def numeral_eq_Suc)
  then have seed: "hex_decode (TrimSpace (sk_KeyHex ?cfg')) = Some sample_seed" "length sample_seed = 32"
    by (simp_all add: sample_seed_def)
  have s: "va_addr (vault_setup sample_vault_cfg) \<noteq> []" "va_key (vault_setup sample_vault_cfg) \<noteq> []"
    "va_token (vault_setup sample_vault_cfg) \<noteq> []"
  proof -
    have "TrimSpace ''http://v'' = ''http://v''" "TrimSpace ''k'' = ''k''" "TrimSpace ''t'' = ''t''"
      by (simp_all add: TrimSpace_graphic graphic_def)
    then show "va_addr (vault_setup sample_vault_cfg) \<noteq> []" "va_key (vault_setup sample_vault_cfg) \<noteq> []"
      "va_token (vault_setup sample_vault_cfg) \<noteq> []"
      by (simp_all add: vault_setup_def Let_def sample_vault_cfg_def TrimRight_def)
  qed
  have priv: "ed_NewKeyFromSeed sample_ed sample_seed = sample_seed" by (simp add: sample_ed_def)
  have "vault_serves sample_ed sample_vault (vault_setup sample_vault_cfg) (ed_NewKeyFromSeed sample_ed sample_seed) 2"
    unfolding priv by (rule sample_vault_serves)
  moreover have "ed_Public sample_ed (ed_NewKeyFromSeed sample_ed sample_seed) \<noteq> []"
    by (simp add: sample_ed_def) (metis length_sha256 list.size(3) zero_neq_numeral)
  ultimately show ?thesis
    using vault_signs_like_process [OF algo seed s] by blast
qed

end
