(* ===== verification/Registration.thy ===== *)
theory Registration
  imports Router AnchorKeys
begin

text \<open>
  Registering the permissions of the service: the catalogue (\<open>internal/models/permissions.go\<close>), the
  cached service token and the registration call (\<open>third_party/platform-go/serviceauth\<close>), and the loop
  that repeats the call (\<open>cmd/server/permissions_register.go\<close>).  The HTTP exchange and the decoding of the
  token document are arguments; times are nanoseconds.
\<close>

section \<open>The catalogue\<close>

record PermissionDescriptor =
  pd_Name :: string
  pd_Description :: string

definition PermissionDescriptors :: "PermissionDescriptor list" where
  "PermissionDescriptors = [
     \<lparr>pd_Name = ''traceability.view_chain'', pd_Description = ''View chain of custody and trace events''\<rparr>,
     \<lparr>pd_Name = ''traceability.manage_anchors'', pd_Description = ''Create custody-chain notarization anchors (L2/L3)''\<rparr>,
     \<lparr>pd_Name = ''traceability.add_trace_event'', pd_Description = ''Append custody trace events''\<rparr>,
     \<lparr>pd_Name = ''traceability.publish_qr'', pd_Description = ''Publish or revoke public lot QR codes''\<rparr>,
     \<lparr>pd_Name = ''traceability.view_events'', pd_Description = ''List trace events (internal)''\<rparr>,
     \<lparr>pd_Name = ''audit.view_api_log'', pd_Description = ''Read HTTP audit entries''\<rparr>]"

section \<open>The service token\<close>

record TokenOptions =
  to_TokenURL :: string
  to_ClientID :: string
  to_ClientSecret :: string
  to_Audience :: string
  to_EarlyRefresh :: int

record token_client =
  tc_opts :: TokenOptions
  tc_token :: string
  tc_expiry :: int

text \<open>\<open>None\<close> is the panic of \<open>NewClient\<close>.\<close>

definition NewClient :: "TokenOptions \<Rightarrow> token_client option" where
  "NewClient opts =
     (if to_TokenURL opts = [] \<or> to_ClientID opts = [] \<or> to_ClientSecret opts = [] then None
      else Some \<lparr>tc_opts = (if to_EarlyRefresh opts \<le> 0 then opts\<lparr>to_EarlyRefresh := 60000000000\<rparr> else opts),
             tc_token = [], tc_expiry = 0\<rparr>)"

record tokenResponse =
  tr_AccessToken :: string
  tr_ExpiresIn :: int         \<comment> \<open>an \<open>int64\<close>\<close>

text \<open>
  A request is its URL, headers and body; the body of the token request is the form before its encoding.
  \<open>nw_NewRequest\<close> is \<open>http.NewRequest\<close>, which refuses a URL it cannot parse; \<open>nw_decode\<close> is \<open>json.Unmarshal\<close> into the token document.
\<close>

datatype req_body = Form "(string \<times> string) list" | Json string

record auth_net =
  nw_NewRequest :: "string \<Rightarrow> err + unit"
  nw_Do :: "string \<Rightarrow> (string \<times> string) list \<Rightarrow> req_body \<Rightarrow> err + http_resp"
  nw_decode :: "string \<Rightarrow> tokenResponse option"

definition token_form :: "TokenOptions \<Rightarrow> (string \<times> string) list" where
  "token_form o' = [(''grant_type'', ''client_credentials''), (''client_id'', to_ClientID o'), (''client_secret'', to_ClientSecret o')] @
     (if to_Audience o' \<noteq> [] then [(''audience'', to_Audience o')] else [])"

text \<open>\<open>time.Duration(tr.ExpiresIn) * time.Second\<close> on 64 bits.\<close>

definition lifetime :: "int \<Rightarrow> int" where
  "lifetime e = sint (word_of_int e * 1000000000 :: 64 word)"

text \<open>\<open>now'\<close> is the time when the answer has been read.\<close>

definition fetchLocked :: "auth_net \<Rightarrow> int \<Rightarrow> token_client \<Rightarrow> err + token_client" where
  "fetchLocked nw now' c =
     bindE (case nw_NewRequest nw (to_TokenURL (tc_opts c)) of
       Inl e \<Rightarrow> Inl (ErrWrap ''serviceauth: build request'' e) | Inr _ \<Rightarrow> Inr ()) (\<lambda>_.
     bindE (case nw_Do nw (to_TokenURL (tc_opts c))
         [(''Content-Type'', ''application/x-www-form-urlencoded''), (''Accept'', ''application/json'')] (Form (token_form (tc_opts c))) of
       Inl e \<Rightarrow> Inl (ErrWrap ''serviceauth: post token'' e) | Inr r \<Rightarrow> Inr r) (\<lambda>r.
     if hr_StatusCode r \<noteq> 200
     then Inl (ErrMsg (''serviceauth: token endpoint '' @ int_str (hr_StatusCode r) @ '': '' @ TrimSpace (hr_Body r)))
     else case nw_decode nw (hr_Body r) of
       None \<Rightarrow> Inl (ErrWrap ''serviceauth: decode token response'' (ErrMsg ''invalid character''))
     | Some tr \<Rightarrow>
         if tr_AccessToken tr = [] then Inl (ErrMsg ''serviceauth: empty access_token in response'')
         else Inr (c\<lparr>tc_token := tr_AccessToken tr, tc_expiry := now' + lifetime (tr_ExpiresIn tr)\<rparr>)))"

definition Token :: "auth_net \<Rightarrow> int \<Rightarrow> int \<Rightarrow> token_client \<Rightarrow> (err + string) \<times> token_client" where
  "Token nw now now' c =
     (if tc_token c \<noteq> [] \<and> tc_expiry c - now > to_EarlyRefresh (tc_opts c) then (Inr (tc_token c), c)
      else case fetchLocked nw now' c of Inl e \<Rightarrow> (Inl e, c) | Inr c' \<Rightarrow> (Inr (tc_token c'), c'))"

section \<open>The registration\<close>

definition permission_json :: "PermissionDescriptor \<Rightarrow> string" where
  "permission_json d = ''{'' @ json_string ''name'' @ '':'' @ json_string (pd_Name d) @ '','' @
     json_string ''description'' @ '':'' @ json_string (pd_Description d) @ ''}''"

definition register_body :: "string \<Rightarrow> PermissionDescriptor list \<Rightarrow> string" where
  "register_body service perms = ''{'' @ json_string ''permissions'' @ '':['' @ join_with '','' (map permission_json perms) @ ''],'' @
     json_string ''service'' @ '':'' @ json_string service @ ''}''"

definition RegisterPermissions :: "auth_net \<Rightarrow> int \<Rightarrow> int \<Rightarrow> token_client \<Rightarrow> string \<Rightarrow> string \<Rightarrow> PermissionDescriptor list \<Rightarrow>
    (err + unit) \<times> token_client" where
  "RegisterPermissions nw now now' c authBaseURL service perms =
     (if service = [] then (Inl (ErrMsg ''serviceauth: service is required''), c)
      else if perms = [] then (Inr (), c)
      else case nw_NewRequest nw (TrimRight authBaseURL (CHR ''/'') @ ''/v1/permissions/register'') of
        Inl e \<Rightarrow> (Inl (ErrWrap ''serviceauth: build request'' e), c)
      | Inr _ \<Rightarrow> (case Token nw now now' c of
        (Inl e, c') \<Rightarrow> (Inl (ErrWrap ''serviceauth: attach token'' e), c')
      | (Inr tok, c') \<Rightarrow>
          (case nw_Do nw (TrimRight authBaseURL (CHR ''/'') @ ''/v1/permissions/register'')
               [(''Content-Type'', ''application/json''), (''Accept'', ''application/json''), (''Authorization'', ''Bearer '' @ tok)]
               (Json (register_body service perms)) of
             Inl e \<Rightarrow> (Inl (ErrWrap ''serviceauth: post register'' e), c')
           | Inr r \<Rightarrow>
               if hr_StatusCode r \<noteq> 200
               then (Inl (ErrMsg (''serviceauth: register status '' @ int_str (hr_StatusCode r) @ '': '' @ TrimSpace (hr_Body r))), c')
               else (Inr (), c'))))"

text \<open>
  The loop.  \<open>attempt n\<close> is the call number \<open>n\<close> on the client, \<open>ended n\<close> whether the context is done in the
  wait after it; the waits are in seconds.  Nothing bounds the number of attempts, so a loop that goes on
  for ever is \<open>None\<close>.  The result says whether the permissions are registered and how long it waited.
\<close>

type_synonym attempt = "nat \<Rightarrow> token_client \<Rightarrow> (err + unit) \<times> token_client"

partial_function (option) register_loop ::
  "attempt \<Rightarrow> (nat \<Rightarrow> bool) \<Rightarrow> nat \<Rightarrow> token_client \<Rightarrow> nat \<Rightarrow> nat \<Rightarrow> (bool \<times> nat \<times> nat) option" where
  "register_loop attempt ended n c backoff waited =
     (if fst (attempt n c) = Inr () then Some (True, n, waited)
      else if ended n then Some (False, n, waited)
      else register_loop attempt ended (Suc n) (snd (attempt n c))
             (if backoff < 300 then backoff * 2 else backoff) (waited + backoff))"

text \<open>\<open>net n\<close>, \<open>clock n\<close>: the network during attempt \<open>n\<close>, the time it starts and the time a token answer is read.\<close>

definition registration_client :: "Cfg \<Rightarrow> token_client option" where
  "registration_client cfg = NewClient \<lparr>to_TokenURL = cfg_AuthTokenURL cfg, to_ClientID = cfg_ServiceClientID cfg,
     to_ClientSecret = cfg_ServiceClientSecret cfg, to_Audience = ''iag.authentication'', to_EarlyRefresh = 0\<rparr>"

definition registration_attempt :: "Cfg \<Rightarrow> (nat \<Rightarrow> auth_net) \<Rightarrow> (nat \<Rightarrow> int \<times> int) \<Rightarrow> attempt" where
  "registration_attempt cfg net clock n c =
     RegisterPermissions (net n) (fst (clock n)) (snd (clock n)) c (cfg_AuthServiceURL cfg) ''traceability'' PermissionDescriptors"

text \<open>The outer \<open>None\<close> is the panic of \<open>NewClient\<close>.\<close>

definition registerPermissionsLoop ::
  "Cfg \<Rightarrow> (nat \<Rightarrow> auth_net) \<Rightarrow> (nat \<Rightarrow> int \<times> int) \<Rightarrow> (nat \<Rightarrow> bool) \<Rightarrow> (bool \<times> nat \<times> nat) option option" where
  "registerPermissionsLoop cfg net clock ended =
     map_option (\<lambda>c. register_loop (registration_attempt cfg net clock) ended 0 c 1 0) (registration_client cfg)"

section \<open>Lemmas\<close>

text \<open>The client before attempt \<open>n\<close>, and the wait after it.\<close>

primrec client_before :: "attempt \<Rightarrow> token_client \<Rightarrow> nat \<Rightarrow> token_client" where
  "client_before attempt c 0 = c"
| "client_before attempt c (Suc n) = snd (attempt n (client_before attempt c n))"

definition registers_at :: "attempt \<Rightarrow> token_client \<Rightarrow> nat \<Rightarrow> bool" where
  "registers_at attempt c n \<longleftrightarrow> fst (attempt n (client_before attempt c n)) = Inr ()"

definition backoff_at :: "nat \<Rightarrow> nat" where
  "backoff_at n = 2 ^ min n 9"

lemma backoff_next: "(if backoff_at n < 300 then backoff_at n * 2 else backoff_at n) = backoff_at (Suc n)"
proof (cases "n \<le> 8")
  case True
  then have "n \<in> {0, 1, 2, 3, 4, 5, 6, 7, 8}" by auto
  then show ?thesis by (auto simp: backoff_at_def)
next
  case False
  then have "min n 9 = 9" "min (Suc n) 9 = 9" by simp_all
  then show ?thesis by (simp add: backoff_at_def)
qed

abbreviation loop_at :: "attempt \<Rightarrow> (nat \<Rightarrow> bool) \<Rightarrow> token_client \<Rightarrow> nat \<Rightarrow> (bool \<times> nat \<times> nat) option" where
  "loop_at attempt ended c n \<equiv>
     register_loop attempt ended n (client_before attempt c n) (backoff_at n) (\<Sum>k<n. backoff_at k)"

lemma loop_at_step:
  "loop_at attempt ended c n =
     (if registers_at attempt c n then Some (True, n, \<Sum>k<n. backoff_at k)
      else if ended n then Some (False, n, \<Sum>k<n. backoff_at k) else loop_at attempt ended c (Suc n))"
  by (subst register_loop.simps) (simp add: registers_at_def backoff_next)

lemma loop_at_skip:
  assumes "\<And>k. k < n \<Longrightarrow> \<not> registers_at attempt c k \<and> \<not> ended k"
  shows "loop_at attempt ended c 0 = loop_at attempt ended c n"
  using assms
proof (induction n)
  case (Suc n)
  then have "loop_at attempt ended c 0 = loop_at attempt ended c n" by simp
  also have "\<dots> = loop_at attempt ended c (Suc n)" using Suc.prems [of n] loop_at_step [of attempt ended n c] by simp
  finally show ?case .
qed simp

text \<open>A loop that returns has come to an attempt that ends it.\<close>

lemma register_loop_returns:
  assumes "register_loop attempt ended n c backoff waited = Some r"
  shows "\<forall>c0. c = client_before attempt c0 n \<longrightarrow> (\<exists>k \<ge> n. registers_at attempt c0 k \<or> ended k)"
proof (rule register_loop.raw_induct [OF _ assms, where P = "\<lambda>attempt ended n c backoff waited r.
    \<forall>c0. c = client_before attempt c0 n \<longrightarrow> (\<exists>k \<ge> n. registers_at attempt c0 k \<or> ended k)"])
  fix f :: "attempt \<Rightarrow> (nat \<Rightarrow> bool) \<Rightarrow> nat \<Rightarrow> token_client \<Rightarrow> nat \<Rightarrow> nat \<Rightarrow> (bool \<times> nat \<times> nat) option"
  fix attempt :: attempt and ended n c backoff waited r
  assume IH: "\<And>attempt ended n c backoff waited r. f attempt ended n c backoff waited = Some r \<Longrightarrow>
      \<forall>c0. c = client_before attempt c0 n \<longrightarrow> (\<exists>k \<ge> n. registers_at attempt c0 k \<or> ended k)"
    and run: "(if fst (attempt n c) = Inr () then Some (True, n, waited)
      else if ended n then Some (False, n, waited)
      else f attempt ended (Suc n) (snd (attempt n c)) (if backoff < 300 then backoff * 2 else backoff) (waited + backoff)) = Some r"
  show "\<forall>c0. c = client_before attempt c0 n \<longrightarrow> (\<exists>k \<ge> n. registers_at attempt c0 k \<or> ended k)"
  proof (intro allI impI)
    fix c0 assume c: "c = client_before attempt c0 n"
    show "\<exists>k \<ge> n. registers_at attempt c0 k \<or> ended k"
    proof (cases "registers_at attempt c0 n \<or> ended n")
      case False
      with run c have "f attempt ended (Suc n) (client_before attempt c0 (Suc n)) (if backoff < 300 then backoff * 2 else backoff) (waited + backoff) = Some r"
        by (simp add: registers_at_def)
      from IH [OF this] obtain k where "k \<ge> Suc n" "registers_at attempt c0 k \<or> ended k" by blast
      then show ?thesis by (intro exI [of _ k]) simp
    qed blast
  qed
qed

lemma loop_at_result:
  "loop_at attempt ended c 0 = Some (ok, n, waited) \<longleftrightarrow>
     (registers_at attempt c n \<or> ended n) \<and> (\<forall>k. k < n \<longrightarrow> \<not> registers_at attempt c k \<and> \<not> ended k) \<and>
     ok = registers_at attempt c n \<and> waited = (\<Sum>k<n. backoff_at k)"
  (is "?run = _ \<longleftrightarrow> ?stop n \<and> ?first n \<and> _")
proof -
  have at: "?run = Some (registers_at attempt c m, m, \<Sum>k<m. backoff_at k)" if "?stop m" "?first m" for m
    using that loop_at_skip [of m attempt c ended] loop_at_step [of attempt ended m c] by (cases "registers_at attempt c m") auto
  show ?thesis
  proof
    assume run: "?run = Some (ok, n, waited)"
    have "\<exists>k. registers_at attempt c k \<or> ended k" using register_loop_returns [OF run] by auto
    then obtain m where m: "?stop m" "?first m" by (subst (asm) exists_least_iff) auto
    have "n = m \<and> ok = registers_at attempt c m \<and> waited = (\<Sum>k<m. backoff_at k)"
      using trans [OF at [OF m, symmetric] run] by auto
    with m show "?stop n \<and> ?first n \<and> ok = registers_at attempt c n \<and> waited = (\<Sum>k<n. backoff_at k)" by blast
  next
    assume n: "?stop n \<and> ?first n \<and> ok = registers_at attempt c n \<and> waited = (\<Sum>k<n. backoff_at k)"
    then have "?stop n" "?first n" by blast+
    from at [OF this] n show "?run = Some (ok, n, waited)" by simp
  qed
qed

lemma loop_at_diverges: "loop_at attempt ended c 0 = None \<longleftrightarrow> (\<forall>n. \<not> registers_at attempt c n \<and> \<not> ended n)"
proof
  assume none: "loop_at attempt ended c 0 = None"
  show "\<forall>n. \<not> registers_at attempt c n \<and> \<not> ended n"
  proof (rule ccontr)
    assume "\<not> ?thesis"
    then have "\<exists>k. registers_at attempt c k \<or> ended k" by blast
    then obtain m where "registers_at attempt c m \<or> ended m" "\<forall>k. k < m \<longrightarrow> \<not> registers_at attempt c k \<and> \<not> ended k"
      by (subst (asm) exists_least_iff) auto
    with loop_at_result [of attempt ended c "registers_at attempt c m" m] none show False by auto
  qed
next
  assume "\<forall>n. \<not> registers_at attempt c n \<and> \<not> ended n"
  then show "loop_at attempt ended c 0 = None"
    using loop_at_result [of attempt ended c] by (cases "loop_at attempt ended c 0") auto
qed

text \<open>A configuration that \<open>Load\<close> accepts has what the token client insists on, but perhaps no secret.\<close>

lemma getenv_nonempty: "def \<noteq> [] \<Longrightarrow> getenv env key def \<noteq> []"
  by (simp add: getenv_def Let_def)

lemma Load_token_client:
  assumes "Load P env = Inr cfg"
  shows "cfg_AuthTokenURL cfg \<noteq> []" "cfg_ServiceClientID cfg \<noteq> []"
proof -
  define c where "c = loaded P env (ToLower (TrimSpace (getenv env ''ENVIRONMENT'' ''development''))) (ToLower (TrimSpace (getenv env ''AUTH_MODE'' ''jwt'')))"
  have "cfg_ServiceClientID c \<noteq> []" using getenv_nonempty by (simp add: c_def loaded_def)
  moreover from assms have "cfg_ServiceClientID cfg = cfg_ServiceClientID c"
    "cfg_AuthTokenURL cfg = (if cfg_AuthTokenURL c = [] then TrimRight (cfg_JWTIssuer c) (CHR ''/'') @ ''/oauth/token'' else cfg_AuthTokenURL c)"
    unfolding Load_def Let_def c_def [symmetric] by (auto split: if_splits)
  ultimately show "cfg_AuthTokenURL cfg \<noteq> []" "cfg_ServiceClientID cfg \<noteq> []" by simp_all
qed

section \<open>Properties\<close>

text \<open>
  C24. With a configuration that \<open>Load\<close> accepts and a client secret, registering the permissions never
  panics, and the loop ends exactly when it should: it goes on for ever only if every attempt fails and
  the context never ends; otherwise it stops at the first attempt that succeeds or after which the
  context is done, reports success just in the first case, and has waited 1, 2, 4, \<dots>, 512 and from then
  on 512 seconds after the failed attempts.
\<close>

theorem registration_loop_ends:
  assumes "Load P env = Inr cfg" and "cfg_ServiceClientSecret cfg \<noteq> []"
  shows "\<exists>c. registration_client cfg = Some c \<and>
    (registerPermissionsLoop cfg net clock ended = Some None \<longleftrightarrow>
       (\<forall>n. \<not> registers_at (registration_attempt cfg net clock) c n \<and> \<not> ended n)) \<and>
    (\<forall>ok n waited. registerPermissionsLoop cfg net clock ended = Some (Some (ok, n, waited)) \<longleftrightarrow>
       (registers_at (registration_attempt cfg net clock) c n \<or> ended n) \<and>
       (\<forall>k. k < n \<longrightarrow> \<not> registers_at (registration_attempt cfg net clock) c k \<and> \<not> ended k) \<and>
       ok = registers_at (registration_attempt cfg net clock) c n \<and> waited = (\<Sum>k<n. 2 ^ min k 9))"
proof -
  obtain c where c: "registration_client cfg = Some c"
    using Load_token_client [OF assms(1)] assms(2) by (simp add: registration_client_def NewClient_def)
  have run: "registerPermissionsLoop cfg net clock ended = Some (loop_at (registration_attempt cfg net clock) ended c 0)"
    by (simp add: registerPermissionsLoop_def c backoff_at_def)
  show ?thesis
    using c loop_at_diverges [of "registration_attempt cfg net clock" ended c]
      loop_at_result [of "registration_attempt cfg net clock" ended c]
    by (auto simp: run backoff_at_def)
qed

text \<open>An environment with the two variables that have no default; the second attempt is answered.\<close>

definition sample_env :: "env" where
  "sample_env k = (if k = ''DATABASE_URL'' then ''db'' else if k = ''SERVICE_CLIENT_SECRET'' then ''s'' else [])"

definition sample_ps :: parsers where
  "sample_ps = \<lparr>ps_Duration = (\<lambda>_. None), ps_Float = (\<lambda>_. None), ps_url_base = (\<lambda>_. None)\<rparr>"

definition sample_net :: "nat \<Rightarrow> auth_net" where
  "sample_net n = \<lparr>nw_NewRequest = (\<lambda>_. Inr ()),
     nw_Do = (\<lambda>_ _ _. if n = 0 then Inl ErrContext else Inr \<lparr>hr_StatusCode = 200, hr_Status = [], hr_Body = [], hr_Json = None\<rparr>),
     nw_decode = (\<lambda>_. Some \<lparr>tr_AccessToken = ''tok'', tr_ExpiresIn = 3600\<rparr>)\<rparr>"

lemma sample_Load: "\<exists>cfg. Load sample_ps sample_env = Inr cfg \<and> cfg_ServiceClientSecret cfg = ''s''"
proof -
  note TrimSpace_Nil
  moreover have "TrimSpace ''db'' = ''db''" "TrimSpace ''jwt'' = ''jwt''" "TrimSpace ''development'' = ''development''"
    by (simp_all add: TrimSpace_graphic graphic_def)
  moreover have "ToLower ''jwt'' = ''jwt''" by (simp add: ToLower_plain plain_def del: ToLower.simps)
  ultimately have "getenv sample_env ''AUTH_MODE'' ''jwt'' = ''jwt''" "TrimSpace ''jwt'' = ''jwt''" "ToLower ''jwt'' = ''jwt''"
    "TrimSpace (sample_env ''DATABASE_URL'') = ''db''" "sample_env ''SERVICE_CLIENT_SECRET'' = ''s''"
    by (simp_all add: getenv_def sample_env_def)
  then show ?thesis by (simp add: Load_def Let_def loaded_def)
qed

theorem registration_loop_ends_witness:
  "\<exists>cfg. registerPermissionsLoop cfg sample_net (\<lambda>_. (0, 0)) (\<lambda>_. False) = Some (Some (True, 1, 1))"
proof -
  obtain cfg where cfg: "Load sample_ps sample_env = Inr cfg" "cfg_ServiceClientSecret cfg = ''s''" using sample_Load by blast
  let ?A = "registration_attempt cfg sample_net (\<lambda>_. (0, 0))"
  from registration_loop_ends [OF cfg(1), of sample_net "\<lambda>_. (0, 0)" "\<lambda>_. False"] cfg(2) obtain c where
    c: "registration_client cfg = Some c" and
    run: "registerPermissionsLoop cfg sample_net (\<lambda>_. (0, 0)) (\<lambda>_. False) = Some (Some (ok, n, w)) \<longleftrightarrow>
      registers_at ?A c n \<and> (\<forall>k. k < n \<longrightarrow> \<not> registers_at ?A c k) \<and> ok = registers_at ?A c n \<and> w = (\<Sum>k<n. 2 ^ min k 9)" for ok n w
    by auto
  have empty: "tc_token c = []" using c by (auto simp: registration_client_def NewClient_def split: if_splits)
  have none: "?A 0 c = (Inl (ErrWrap ''serviceauth: attach token'' (ErrWrap ''serviceauth: post token'' ErrContext)), c)"
    by (simp add: registration_attempt_def RegisterPermissions_def PermissionDescriptors_def Token_def empty fetchLocked_def
        sample_net_def bindE_def)
  have "fst (?A 1 c) = Inr ()"
    by (simp add: registration_attempt_def RegisterPermissions_def PermissionDescriptors_def Token_def empty fetchLocked_def
        sample_net_def bindE_def)
  with none run [of True 1 1] show ?thesis by (intro exI [of _ cfg]) (simp add: registers_at_def less_Suc_eq)
qed

end
