(* ===== verification/Migrations.thy ===== *)
theory Migrations
  imports Schema
begin

text \<open>
  \<open>internal/migrate/migrate.go\<close>: the splitting of a migration file into statements, with the loops over
  byte indices of the code, a description of the same on texts, and the run of all pending files in one
  transaction.  What a statement does to the schema is an argument.
\<close>

section \<open>Dollar quotes\<close>

definition tag_char :: "char \<Rightarrow> bool" where
  "tag_char c \<longleftrightarrow> c = CHR ''_'' \<or> (let n = of_char c :: nat in
     97 \<le> n \<and> n \<le> 122 \<or> 65 \<le> n \<and> n \<le> 90 \<or> 48 \<le> n \<and> n \<le> 57)"

text \<open>\<open>dollarTagAt\<close>: the loop, and the tag that opens at the start of a text (which is a dollar) or nothing.\<close>

function tag_end :: "string \<Rightarrow> nat \<Rightarrow> nat" where
  "tag_end s j = (if j < length s \<and> tag_char (s ! j) then tag_end s (Suc j) else j)"
  by pat_completeness auto
termination by (relation "measure (\<lambda>(s, j). length s - j)") auto

declare tag_end.simps [simp del]

definition dollarTagAt :: "string \<Rightarrow> string" where
  "dollarTagAt s = (let j = tag_end s 1 in
     if j < length s \<and> s ! j = CHR ''$'' then take (Suc j) s else [])"

definition slice :: "string \<Rightarrow> nat \<Rightarrow> nat \<Rightarrow> string" where
  "slice s i j = drop i (take j s)"

lemma dollarTagAt_prefix: "\<exists>r. s = dollarTagAt s @ r"
proof (cases "dollarTagAt s = []")
  case False
  then have "dollarTagAt s = take (Suc (tag_end s 1)) s" by (auto simp: dollarTagAt_def Let_def split: if_splits)
  then show ?thesis by (metis append_take_drop_id)
qed simp

definition statement_end :: string where
  "statement_end = [CHR '';'', CHR 0x0A, CHR 0x0A]"

section \<open>The loop\<close>

text \<open>
  \<open>splitStatements\<close>: the index, the start of the open chunk, the open tag and the chunks so far.
\<close>

function split_loop :: "string \<Rightarrow> nat \<Rightarrow> nat \<Rightarrow> string \<Rightarrow> string list \<Rightarrow> string list" where
  "split_loop sql i start tag out =
     (if i \<ge> length sql then out @ [drop start sql]
      else if tag \<noteq> [] then
        if sql ! i = CHR ''$'' \<and> HasPrefix (drop i sql) tag then split_loop sql (i + (length tag - 1) + 1) start [] out
        else split_loop sql (Suc i) start tag out
      else let t = (if sql ! i = CHR ''$'' then dollarTagAt (drop i sql) else []) in
        if t \<noteq> [] then split_loop sql (i + (length t - 1) + 1) start t out
        else if sql ! i = CHR '';'' \<and> HasPrefix (drop i sql) statement_end
          then split_loop sql (Suc i) (Suc i) [] (out @ [slice sql start (Suc i)])
        else split_loop sql (Suc i) start [] out)"
  by pat_completeness auto
termination by (relation "measure (\<lambda>(sql, i, start, tag, out). length sql - i)") auto

declare split_loop.simps [simp del]

definition splitStatements :: "string \<Rightarrow> string list" where
  "splitStatements sql = split_loop sql 0 0 [] []"

section \<open>The same on texts\<close>

definition glue :: "string \<Rightarrow> string list \<Rightarrow> string list" where
  "glue p xs = (p @ hd xs) # tl xs"

function pieces :: "string \<Rightarrow> string \<Rightarrow> string list" where
  "pieces tag [] = [[]]"
| "pieces tag (c # cs) =
     (if tag \<noteq> [] then
        if c = CHR ''$'' \<and> HasPrefix (c # cs) tag then glue tag (pieces [] (drop (length tag) (c # cs)))
        else glue [c] (pieces tag cs)
      else let t = (if c = CHR ''$'' then dollarTagAt (c # cs) else []) in
        if t \<noteq> [] then glue t (pieces t (drop (length t) (c # cs)))
        else if c = CHR '';'' \<and> HasPrefix (c # cs) statement_end then [c] # pieces [] cs
        else glue [c] (pieces [] cs))"
  by pat_completeness auto
termination by (relation "measure (\<lambda>(tag, s). length s)") auto

declare pieces.simps(2) [simp del]

lemma pieces_nonempty: "pieces tag s \<noteq> []"
  by (induction tag s rule: pieces.induct) (simp_all add: pieces.simps(2) glue_def Let_def)

lemma glue_glue: "glue p (glue q xs) = glue (p @ q) xs"
  by (simp add: glue_def)

lemma glue_append: "xs \<noteq> [] \<Longrightarrow> glue p (xs @ ys) = glue p xs @ ys"
  by (cases xs) (simp_all add: glue_def)

lemma concat_glue: "xs \<noteq> [] \<Longrightarrow> concat (glue p xs) = p @ concat xs"
  by (cases xs) (simp_all add: glue_def)

text \<open>The loop over indices computes it.\<close>

lemma slice_self: "slice s i i = []"
  by (simp add: slice_def)

lemma slice_Suc: "start \<le> i \<Longrightarrow> i < length s \<Longrightarrow> slice s start (Suc i) = slice s start i @ [s ! i]"
  by (simp add: slice_def take_Suc_conv_app_nth)

lemma slice_add: "start \<le> i \<Longrightarrow> drop i s = p @ r \<Longrightarrow> slice s start (i + length p) = slice s start i @ p"
proof -
  assume a: "start \<le> i" "drop i s = p @ r"
  then have "take (i + length p) s = take i s @ p" by (simp add: take_add)
  then show ?thesis using a by (cases "i \<le> length s") (simp_all add: slice_def)
qed

lemma pieces_at:
  "i < length sql \<Longrightarrow> pieces tag (drop i sql) =
     (if tag \<noteq> [] then
        if sql ! i = CHR ''$'' \<and> HasPrefix (drop i sql) tag then glue tag (pieces [] (drop (i + length tag) sql))
        else glue [sql ! i] (pieces tag (drop (Suc i) sql))
      else let t = (if sql ! i = CHR ''$'' then dollarTagAt (drop i sql) else []) in
        if t \<noteq> [] then glue t (pieces t (drop (i + length t) sql))
        else if sql ! i = CHR '';'' \<and> HasPrefix (drop i sql) statement_end then [sql ! i] # pieces [] (drop (Suc i) sql)
        else glue [sql ! i] (pieces [] (drop (Suc i) sql)))"
proof -
  assume "i < length sql"
  then have d: "sql ! i # drop (Suc i) sql = drop i sql" by (simp add: Cons_nth_drop_Suc)
  note step = pieces.simps(2) [of tag "sql ! i" "drop (Suc i) sql", unfolded d]
  show ?thesis unfolding step by (simp add: Let_def drop_drop add.commute)
qed

lemma split_loop_pieces:
  "start \<le> i \<Longrightarrow> i \<le> length sql \<Longrightarrow>
   split_loop sql i start tag out = out @ glue (slice sql start i) (pieces tag (drop i sql))"
proof (induction sql i start tag out rule: split_loop.induct)
  case (1 sql i start tag out)
  note start = 1(6)
  have next_len: "i + (length p - 1) + 1 = i + length p" if "p \<noteq> []" for p :: string using that by (cases p) simp_all
  have jump: "i + length p \<le> length sql" "slice sql start (i + length p) = slice sql start i @ p"
    if "drop i sql = p @ r" for p r
    using slice_add [OF start that] arg_cong [OF that, of length] 1(7) by simp_all
  have skip: "start \<le> i + length p" for p :: string using start by simp
  show ?case
  proof (cases "i = length sql")
    case True
    then show ?thesis using start by (simp add: split_loop.simps [of sql "length sql"] slice_def glue_def)
  next
    case False
    then have i: "i < length sql" "\<not> length sql \<le> i" "Suc i \<le> length sql" using 1(7) by simp_all
    consider (close) "tag \<noteq> []" "sql ! i = CHR ''$''" "HasPrefix (drop i sql) tag"
      | (inside) "tag \<noteq> []" "\<not> (sql ! i = CHR ''$'' \<and> HasPrefix (drop i sql) tag)"
      | (outside) "tag = []" by blast
    then show ?thesis
    proof cases
      case close
      then have "drop i sql = tag @ drop (length tag) (drop i sql)"
        using append_take_drop_id [of "length tag" "drop i sql"] by (simp add: HasPrefix_def)
      note tag = jump [OF this]
      from 1(1) [OF i(2) close(1)] close tag(1) skip next_len [OF close(1)]
      have "split_loop sql (i + length tag) start [] out =
          out @ glue (slice sql start (i + length tag)) (pieces [] (drop (i + length tag) sql))" by simp
      then show ?thesis
        unfolding split_loop.simps [of sql i] pieces_at [OF i(1)] next_len [OF close(1)]
        using close i tag(2) by (simp add: glue_glue)
    next
      case inside
      with 1(2) [OF i(2) inside] i start show ?thesis
        by (auto simp add: split_loop.simps [of sql i] pieces_at glue_glue slice_Suc)
    next
      case outside
      let ?t = "if sql ! i = CHR ''$'' then dollarTagAt (drop i sql) else []"
      obtain r where "drop i sql = ?t @ r" using dollarTagAt_prefix [of "drop i sql"] by (cases "sql ! i = CHR ''$''") auto
      note tag = jump [OF this]
      show ?thesis
      proof (cases "?t = []")
        case False
        note ih = 1(3) [OF i(2) _ refl False, unfolded next_len [OF False]]
        have "split_loop sql (i + length ?t) start ?t out =
            out @ glue (slice sql start (i + length ?t)) (pieces ?t (drop (i + length ?t) sql))"
          by (rule ih) (use outside tag(1) skip in simp_all)
        then show ?thesis
          unfolding split_loop.simps [of sql i] pieces_at [OF i(1)] Let_def next_len [OF False]
          using outside False i tag(2) by (simp only: if_False if_True glue_glue simp_thms)
      next
        case no_tag: True
        show ?thesis
        proof (cases "sql ! i = CHR '';'' \<and> HasPrefix (drop i sql) statement_end")
          case True
          with 1(4) [OF i(2) _ refl _ True] outside no_tag i start show ?thesis
            unfolding split_loop.simps [of sql i] pieces_at [OF i(1)] Let_def
            by (simp add: glue_def slice_Suc slice_self pieces_nonempty)
        next
          case False
          with 1(5) [OF i(2) _ refl _ False] outside no_tag i start show ?thesis
            unfolding split_loop.simps [of sql i] pieces_at [OF i(1)] Let_def
            by (auto simp: glue_glue slice_Suc)
        qed
      qed
    qed
  qed
qed

lemma splitStatements_pieces: "splitStatements sql = pieces [] sql"
proof -
  have "glue [] xs = xs" if "xs \<noteq> []" for xs :: "string list" using that by (cases xs) (simp_all add: glue_def)
  then show ?thesis using split_loop_pieces [of 0 0 sql "[]" "[]"] pieces_nonempty [of "[]" sql]
    by (simp add: splitStatements_def slice_self)
qed

section \<open>What the splitting promises\<close>

lemma concat_pieces: "concat (pieces tag s) = s"
proof (induction tag s rule: pieces.induct)
  case (2 tag c cs)
  have "tag @ drop (length tag) (c # cs) = c # cs" if "HasPrefix (c # cs) tag" for tag
    using that append_take_drop_id [of "length tag" "c # cs"] by (simp add: HasPrefix_def)
  moreover have "HasPrefix (c # cs) (dollarTagAt (c # cs))"
    using dollarTagAt_prefix [of "c # cs"] by (auto simp: HasPrefix_def) (metis append_eq_conv_conj)
  ultimately show ?case using 2 by (auto simp: pieces.simps(2) Let_def concat_glue pieces_nonempty)
qed simp

lemma tag_end_takeWhile: "tag_end s j = j + length (takeWhile tag_char (drop j s))"
proof (induction s j rule: tag_end.induct)
  case (1 s j)
  show ?case
  proof (cases "j < length s")
    case True
    then have "drop j s = s ! j # drop (Suc j) s" by (simp add: Cons_nth_drop_Suc)
    with 1 True show ?thesis by (simp add: tag_end.simps [of s j])
  qed (simp add: tag_end.simps [of s j])
qed

text \<open>A dollar-quote tag: word characters between two dollars.\<close>

definition is_tag :: "string \<Rightarrow> bool" where
  "is_tag t \<longleftrightarrow> (\<exists>w. t = CHR ''$'' # w @ [CHR ''$''] \<and> list_all tag_char w)"

lemma dollar_no_tag_char: "\<not> tag_char (CHR ''$'')"
  by (simp add: tag_char_def)

lemma dollarTagAt_tag: "is_tag t \<Longrightarrow> dollarTagAt (t @ rest) = t"
proof -
  assume "is_tag t"
  then obtain w where t: "t = CHR ''$'' # w @ [CHR ''$'']" and w: "\<forall>c \<in> set w. tag_char c"
    by (auto simp: is_tag_def list_all_iff)
  have "takeWhile tag_char (w @ CHR ''$'' # rest) = w" using w dollar_no_tag_char by (simp add: takeWhile_append2)
  then have "tag_end (t @ rest) 1 = Suc (length w)" by (simp add: tag_end_takeWhile t)
  then show ?thesis by (simp add: dollarTagAt_def t nth_append)
qed

lemma pieces_open: "is_tag t \<Longrightarrow> pieces [] (t @ rest) = glue t (pieces t rest)"
proof -
  assume t: "is_tag t"
  then obtain cs where cs: "t = CHR ''$'' # cs" by (auto simp: is_tag_def)
  then have "pieces [] (t @ rest) = pieces [] (CHR ''$'' # cs @ rest)" by simp
  also have "\<dots> = glue t (pieces t rest)"
    using dollarTagAt_tag [OF t, of rest] cs by (simp add: pieces.simps(2) Let_def)
  finally show ?thesis .
qed

lemma HasPrefix_append: "length p \<le> length s \<Longrightarrow> HasPrefix (s @ r) p = HasPrefix s p"
  by (simp add: HasPrefix_def)

lemma pieces_inside:
  assumes "is_tag t" and "\<forall>k < length body. \<not> HasPrefix (drop k (body @ t)) t"
  shows "pieces t (body @ t @ post) = glue (body @ t) (pieces [] post)"
  using assms(2)
proof (induction body)
  case Nil
  obtain cs where cs: "t = CHR ''$'' # cs" using assms(1) by (auto simp: is_tag_def)
  then have "pieces t (t @ post) = pieces t (CHR ''$'' # cs @ post)" by simp
  also have "\<dots> = glue t (pieces [] post)" using cs by (simp add: pieces.simps(2) HasPrefix_def)
  finally show ?case by simp
next
  case (Cons c body)
  have "\<not> HasPrefix (drop 0 ((c # body) @ t)) t" using Cons.prems by blast
  then have "\<not> HasPrefix (((c # body) @ t) @ post) t" by (subst HasPrefix_append) simp_all
  then have "\<not> HasPrefix (c # body @ t @ post) t" by simp
  moreover have "\<forall>k < length body. \<not> HasPrefix (drop k (body @ t)) t"
    using Cons.prems by (metis Suc_less_eq append_Cons drop_Suc_Cons length_Cons)
  moreover have "t \<noteq> []" using assms(1) by (auto simp: is_tag_def)
  ultimately show ?case using Cons.IH by (simp add: pieces.simps(2) glue_glue)
qed

lemma pieces_before:
  assumes "CHR ''$'' \<notin> set pre" and "q = [] \<or> hd q = CHR ''$''"
  shows "pieces [] (pre @ q) = butlast (pieces [] pre) @ glue (last (pieces [] pre)) (pieces [] q)"
  using assms(1)
proof (induction pre)
  case Nil
  then show ?case using pieces_nonempty [of "[]" q] by (cases "pieces [] q") (simp_all add: glue_def)
next
  case (Cons c pre)
  have eq: "HasPrefix (c # pre @ q) statement_end = HasPrefix (c # pre) statement_end"
    using assms(2) Cons.prems by (cases pre; cases "tl pre"; cases q) (auto simp: HasPrefix_def statement_end_def)
  have ne: "pieces [] pre \<noteq> []" by (rule pieces_nonempty)
  from Cons have IH: "pieces [] (pre @ q) = butlast (pieces [] pre) @ glue (last (pieces [] pre)) (pieces [] q)"
    and c: "c \<noteq> CHR ''$''" by auto
  have glue_split: "glue [c] (butlast xs @ glue (last xs) ys) = butlast (glue [c] xs) @ glue (last (glue [c] xs)) ys"
    if "xs \<noteq> []" for xs ys :: "string list"
    using that by (cases xs; cases "tl xs") (simp_all add: glue_def)
  show ?case using c eq ne by (auto simp: pieces.simps(2) IH glue_split)
qed

text \<open>
  Splitting a migration loses nothing: the chunks put together are the file, byte for byte.
\<close>

theorem split_concat: "concat (splitStatements sql) = sql"
  by (simp add: splitStatements_pieces concat_pieces)

text \<open>
  C38. A dollar-quoted block is never cut.  Wherever a block stands after text without dollars, whatever
  its body and whatever follows, it stays whole in one chunk, the text before it is split as it would be
  alone and so is the text after it.
\<close>

theorem split_keeps_blocks:
  assumes "CHR ''$'' \<notin> set pre" and "is_tag t" and "\<forall>k < length body. \<not> HasPrefix (drop k (body @ t)) t"
  shows "splitStatements (pre @ t @ body @ t @ post) =
    butlast (splitStatements pre) @
      (last (splitStatements pre) @ t @ body @ t @ hd (splitStatements post)) # tl (splitStatements post)"
proof -
  have hd: "t @ body @ t @ post = [] \<or> hd (t @ body @ t @ post) = CHR ''$''" using assms(2) by (auto simp: is_tag_def)
  show ?thesis
    unfolding splitStatements_pieces pieces_before [OF assms(1) hd] pieces_open [OF assms(2)] pieces_inside [OF assms(2,3)]
    by (simp add: glue_def)
qed

text \<open>A file with a block whose body has the end of a statement before a blank line.\<close>

definition sample_block :: string where
  "sample_block = [CHR ''x'', CHR '';'', CHR 0x0A, CHR 0x0A, CHR ''y'']"

theorem split_keeps_blocks_witness:
  "splitStatements (''a'' @ statement_end @ ''$b$'' @ sample_block @ ''$b$'' @ statement_end @ ''c'') =
     [''a;'', [CHR 0x0A, CHR 0x0A] @ ''$b$'' @ sample_block @ ''$b$;'', [CHR 0x0A, CHR 0x0A] @ ''c'']"
proof -
  have pre: "CHR ''$'' \<notin> set (''a'' @ statement_end)" by (simp add: statement_end_def)
  have tag: "is_tag ''$b$''" unfolding is_tag_def by (rule exI [of _ "''b''"]) (simp add: tag_char_def)
  have "HasPrefix (drop k (sample_block @ ''$b$'')) ''$b$'' = False" if "k < 5" for k
    using that by (cases k rule: nat.exhaust) (auto simp: less_Suc_eq numeral_eq_Suc HasPrefix_def sample_block_def)
  then have body: "\<forall>k < length sample_block. \<not> HasPrefix (drop k (sample_block @ ''$b$'')) ''$b$''"
    by (simp add: sample_block_def)
  have "splitStatements (''a'' @ statement_end) = [''a;'', [CHR 0x0A, CHR 0x0A]]"
    "splitStatements (statement_end @ ''c'') = ['';'', [CHR 0x0A, CHR 0x0A] @ ''c'']"
    by (simp_all add: splitStatements_pieces pieces.simps(2) statement_end_def HasPrefix_def glue_def)
  with split_keeps_blocks [OF pre tag body, of "statement_end @ ''c''"] show ?thesis by simp
qed

section \<open>Applying the migrations\<close>

text \<open>
  The table of applied versions, absent at first, and the schema the statements work on.  \<open>run\<close> says
  what Postgres does with a statement: a new schema or a refusal.
\<close>

record 'd migdb = pg +
  mg_versions :: "string list option"
  mg_objects :: 'd

type_synonym 'd runner = "string \<Rightarrow> 'd \<Rightarrow> 'd option"

fun replace_crlf :: "string \<Rightarrow> string" where
  "replace_crlf [] = []"
| "replace_crlf (c # cs) =
     (if c = CHR 0x0D \<and> HasPrefix cs [CHR 0x0A] then CHR 0x0A # replace_crlf (tl cs) else c # replace_crlf cs)"

definition run_sql :: "'d runner \<Rightarrow> string \<Rightarrow> ('d, 'z) migdb_scheme \<Rightarrow> err + (unit \<times> ('d, 'z) migdb_scheme)" where
  "run_sql run chunk s = (case run chunk (mg_objects s) of None \<Rightarrow> Inl ErrDB | Some d \<Rightarrow> Inr ((), s\<lparr>mg_objects := d\<rparr>))"

definition exec_chunk :: "'d runner \<Rightarrow> string \<Rightarrow> (('d, 'z) migdb_scheme, unit) cmd" where
  "exec_chunk run chunk' =
     (let chunk = TrimSpace chunk' in
      if chunk = [] then retC () else wrapC ''exec migration chunk'' (execC (run_sql run chunk)))"

definition execSQL :: "'d runner \<Rightarrow> string \<Rightarrow> (('d, 'z) migdb_scheme, unit) cmd" where
  "execSQL run sql' =
     (let sql = TrimSpace (replace_crlf sql') in
      if sql = [] then retC () else forC (splitStatements sql) (exec_chunk run))"

definition create_table_sql :: "('d, 'z) migdb_scheme \<Rightarrow> err + (unit \<times> ('d, 'z) migdb_scheme)" where
  "create_table_sql s = Inr ((), s\<lparr>mg_versions := Some (case mg_versions s of None \<Rightarrow> [] | Some vs \<Rightarrow> vs)\<rparr>)"

text \<open>A primary key on the version.\<close>

definition record_version_sql :: "string \<Rightarrow> ('d, 'z) migdb_scheme \<Rightarrow> err + (unit \<times> ('d, 'z) migdb_scheme)" where
  "record_version_sql v s = (case mg_versions s of
     None \<Rightarrow> Inl ErrDB
   | Some vs \<Rightarrow> if v \<in> set vs then Inl ErrConflict else Inr ((), s\<lparr>mg_versions := Some (vs @ [v])\<rparr>))"

definition has_version :: "string \<Rightarrow> ('d, 'z) migdb_scheme \<Rightarrow> bool" where
  "has_version v s = (case mg_versions s of None \<Rightarrow> False | Some vs \<Rightarrow> v \<in> set vs)"

definition migration_version :: "string \<Rightarrow> string" where
  "migration_version name = TrimSuffix name ''.sql''"

definition migrate_file :: "'d runner \<Rightarrow> string \<times> string \<Rightarrow> (('d, 'z) migdb_scheme, unit) cmd" where
  "migrate_file run f = (case f of (name, src) \<Rightarrow>
     let version = migration_version name in
     bindC (wrapC (''check migration '' @ version) (queryC (has_version version))) (\<lambda>exists.
       if exists then retC ()
       else bindC (wrapC (''apply migration '' @ name) (execSQL run src)) (\<lambda>_.
         wrapC (''record migration '' @ name) (execC (record_version_sql version)))))"

text \<open>The entries of the embedded directory, a subdirectory without contents; the files among them by name.\<close>

definition migration_files :: "(string \<times> string option) list \<Rightarrow> (string \<times> string) list" where
  "migration_files entries = sort_by_key (List.map_filter (\<lambda>(name, src).
     case src of None \<Rightarrow> None | Some t \<Rightarrow> if HasSuffix name ''.sql'' then Some (name, t) else None) entries)"

definition Up_body :: "'d runner \<Rightarrow> (string \<times> string option) list \<Rightarrow> (('d, 'z) migdb_scheme, unit) cmd" where
  "Up_body run entries =
     bindC (wrapC ''migrate advisory lock'' (execC (\<lambda>s. Inr ((), s)))) (\<lambda>_.
     bindC (wrapC ''migration table'' (execC create_table_sql)) (\<lambda>_.
       forC (migration_files entries) (migrate_file run)))"

definition Up :: "'d runner \<Rightarrow> (string \<times> string option) list \<Rightarrow> (('d, 'z) migdb_scheme, unit) cmd" where
  "Up run entries = txC (Up_body run entries)"

section \<open>What applying promises\<close>

text \<open>The pending files applied in order, as a function on versions and schema.\<close>

fun run_chunks :: "'d runner \<Rightarrow> string list \<Rightarrow> 'd \<Rightarrow> 'd option" where
  "run_chunks run [] d = Some d"
| "run_chunks run (c # cs) d =
     (if TrimSpace c = [] then run_chunks run cs d
      else case run (TrimSpace c) d of None \<Rightarrow> None | Some d' \<Rightarrow> run_chunks run cs d')"

definition run_file :: "'d runner \<Rightarrow> string \<Rightarrow> 'd \<Rightarrow> 'd option" where
  "run_file run src d = (let sql = TrimSpace (replace_crlf src) in
     if sql = [] then Some d else run_chunks run (splitStatements sql) d)"

fun apply_files :: "'d runner \<Rightarrow> (string \<times> string) list \<Rightarrow> string list \<times> 'd \<Rightarrow> (string list \<times> 'd) option" where
  "apply_files run [] v = Some v"
| "apply_files run ((name, src) # fs) v =
     (if migration_version name \<in> set (fst v) then apply_files run fs v
      else case run_file run src (snd v) of
        None \<Rightarrow> None
      | Some d \<Rightarrow> apply_files run fs (fst v @ [migration_version name], d))"

definition schema_of :: "('d, 'z) migdb_scheme \<Rightarrow> string list \<times> 'd" where
  "schema_of s = (case mg_versions s of None \<Rightarrow> [] | Some vs \<Rightarrow> vs, mg_objects s)"

lemma mig_step_io [simp]:
  fixes s :: "('d, 'z) migdb_scheme"
  shows "mg_versions (step_io s) = mg_versions s" "mg_objects (step_io s) = mg_objects s"
  by (simp_all add: step_io_def split: list.split)

lemma run_chunks_exec:
  fixes s :: "('d, 'z) migdb_scheme"
  assumes "forC cs (exec_chunk run) s = (Inr (), s')"
  shows "run_chunks run cs (mg_objects s) = Some (mg_objects s') \<and> mg_versions s' = mg_versions s"
  using assms
proof (induction cs arbitrary: s)
  case (Cons c cs)
  then obtain s1 where s1: "exec_chunk run c s = (Inr (), s1)" "forC cs (exec_chunk run) s1 = (Inr (), s')"
    by (auto simp: bindC_Inr_iff)
  from s1(1) have "(if TrimSpace c = [] then Some (mg_objects s) else run (TrimSpace c) (mg_objects s)) = Some (mg_objects s1) \<and>
      mg_versions s1 = mg_versions s"
    by (auto simp: exec_chunk_def Let_def retC_def wrapC_Inr_iff execC_Inr_iff run_sql_def split: if_splits option.splits)
  with Cons.IH [OF s1(2)] show ?case by (auto split: if_splits)
qed (simp add: retC_def)

lemma run_file_exec:
  fixes s :: "('d, 'z) migdb_scheme"
  assumes "execSQL run src s = (Inr (), s')"
  shows "run_file run src (mg_objects s) = Some (mg_objects s') \<and> mg_versions s' = mg_versions s"
  using assms run_chunks_exec [of _ run s s']
  by (auto simp: execSQL_def run_file_def Let_def retC_def split: if_splits)

lemma apply_files_exec:
  fixes s :: "('d, 'z) migdb_scheme"
  assumes "forC fs (migrate_file run) s = (Inr (), s')" and "mg_versions s \<noteq> None"
  shows "apply_files run fs (schema_of s) = Some (schema_of s') \<and> mg_versions s' \<noteq> None \<and>
    (\<forall>f \<in> set fs. has_version (migration_version (fst f)) s') \<and> (\<forall>v. has_version v s \<longrightarrow> has_version v s')"
  using assms
proof (induction fs arbitrary: s)
  case (Cons f fs)
  obtain name src where f: "f = (name, src)" by (cases f)
  let ?v = "migration_version name"
  from Cons.prems(2) obtain vs where vs: "mg_versions s = Some vs" by blast
  from Cons.prems(1) obtain s1 where s1: "migrate_file run f s = (Inr (), s1)" "forC fs (migrate_file run) s1 = (Inr (), s')"
    by (auto simp: bindC_Inr_iff)
  have "mg_versions s1 \<noteq> None \<and> has_version ?v s1 \<and> (\<forall>v. has_version v s \<longrightarrow> has_version v s1) \<and>
    apply_files run (f # fs) (schema_of s) = apply_files run fs (schema_of s1)"
  proof (cases "?v \<in> set vs")
    case True
    with s1(1) vs have "mg_versions s1 = mg_versions s" "mg_objects s1 = mg_objects s"
      by (auto simp: f migrate_file_def Let_def bindC_Inr_iff wrapC_Inr_iff queryC_Inr_iff has_version_def retC_def)
    with vs True show ?thesis by (simp add: f schema_of_def has_version_def)
  next
    case False
    with s1(1) vs obtain s2 where s2: "execSQL run src (step_io s) = (Inr (), s2)" and
        "execC (record_version_sql ?v) s2 = (Inr (), s1)"
      by (auto simp: f migrate_file_def Let_def bindC_Inr_iff wrapC_Inr_iff queryC_Inr_iff has_version_def)
    with run_file_exec [OF s2] vs have "run_file run src (mg_objects s) = Some (mg_objects s1)" "mg_versions s1 = Some (vs @ [?v])"
      by (auto simp: execC_Inr_iff record_version_sql_def split: option.splits if_splits)
    with vs False show ?thesis by (simp add: f schema_of_def has_version_def)
  qed
  with Cons.IH [OF s1(2)] show ?case by (auto simp: f)
qed (simp add: retC_def)

lemma Up_body_exec:
  fixes s :: "('d, 'z) migdb_scheme"
  assumes "Up_body run entries s = (Inr (), s')"
  shows "apply_files run (migration_files entries) (schema_of s) = Some (schema_of s')" and "mg_versions s' \<noteq> None"
    and "\<forall>f \<in> set (migration_files entries). has_version (migration_version (fst f)) s'"
proof -
  from assms obtain s1 s2 where s1: "execC (\<lambda>s. Inr ((), s)) s = (Inr (), s1)" "execC create_table_sql s1 = (Inr (), s2)"
    and all: "forC (migration_files entries) (migrate_file run) s2 = (Inr (), s')"
    by (auto simp: Up_body_def bindC_Inr_iff wrapC_Inr_iff)
  from s1 have s2: "mg_versions s2 \<noteq> None" "schema_of s2 = schema_of s"
    by (auto simp: execC_Inr_iff create_table_sql_def schema_of_def split: option.splits)
  from apply_files_exec [OF all s2(1)] s2(2)
  show "apply_files run (migration_files entries) (schema_of s) = Some (schema_of s')" "mg_versions s' \<noteq> None"
    "\<forall>f \<in> set (migration_files entries). has_version (migration_version (fst f)) s'" by auto
qed

lemma schema_of_step_io [simp]:
  fixes s :: "('d, 'z) migdb_scheme"
  shows "schema_of (step_io s) = schema_of s" "has_version v (step_io s) = has_version v s"
  by (simp_all add: schema_of_def has_version_def)

lemma schema_of_rollback [simp]:
  fixes s :: "('d, 'z) migdb_scheme"
  shows "schema_of (rollback s t) = schema_of s"
  by (simp add: rollback_def schema_of_def)

text \<open>
  C39. Migrating is all or nothing.  However the database behaves, afterwards the schema and the table of
  versions are either as before or the result of applying every pending file, in the order of the names
  and each once; and success means the latter.
\<close>

theorem migrate_all_or_nothing:
  assumes "Up run entries s = (res, s')"
  shows "(schema_of s' = schema_of s \<or> apply_files run (migration_files entries) (schema_of s) = Some (schema_of s')) \<and>
    (res = Inr () \<longrightarrow> apply_files run (migration_files entries) (schema_of s) = Some (schema_of s'))"
proof -
  obtain r s1 where body: "Up_body run entries (step_io s) = (r, s1)" by (cases "Up_body run entries (step_io s)")
  have "apply_files run (migration_files entries) (schema_of s) = Some (schema_of s1)" if "r = Inr ()"
    using Up_body_exec(1) [of run entries "step_io s" s1] body that by simp
  with assms body show ?thesis
    by (cases r) (auto simp: Up_def txC_def Let_def split: if_splits io.splits)
qed

lemma migrate_skip:
  fixes s :: "('d, 'z) migdb_scheme"
  assumes "script s = []" and "has_version (migration_version (fst f)) s"
  shows "migrate_file run f s = (Inr (), s)"
  using assms by (cases f) (simp add: migrate_file_def Let_def bindC_def handleC_def wrapC_def retC_def healthy)

lemma migrate_skip_all:
  fixes s :: "('d, 'z) migdb_scheme"
  assumes "script s = []" and "\<forall>f \<in> set fs. has_version (migration_version (fst f)) s"
  shows "forC fs (migrate_file run) s = (Inr (), s)"
  using assms by (induction fs) (simp_all add: retC_def bindC_def handleC_def migrate_skip)

text \<open>
  Migrating again does nothing.  After a success a second run on a healthy database succeeds, and
  runs no statement of any file: even if Postgres would refuse them all, schema and versions stay.
\<close>

theorem migrate_idempotent:
  assumes "Up run entries s = (Inr (), s')" and "script s' = []"
  shows "Up run' entries s' = (Inr (), s')"
proof -
  from assms(1) obtain s1 where body: "Up_body run entries (step_io s) = (Inr (), s1)" and s': "s' = step_io s1"
    by (auto simp: Up_def txC_Inr_iff)
  note applied = Up_body_exec [OF body]
  from applied(2) s' obtain vs where vs: "mg_versions s' = Some vs" by auto
  have "create_table_sql s' = Inr ((), s')" using vs by (simp add: create_table_sql_def)
  moreover have "forC (migration_files entries) (migrate_file run') s' = (Inr (), s')"
    by (rule migrate_skip_all [OF assms(2)]) (use applied(3) s' in simp)
  ultimately have "Up_body run' entries s' = (Inr (), s')"
    using assms(2) by (simp add: Up_body_def bindC_def handleC_def wrapC_def retC_def healthy)
  with assms(2) show ?thesis by (simp add: Up_def healthy_txC)
qed

definition sample_entries :: "(string \<times> string option) list" where
  "sample_entries = [(''002.sql'', Some ''b''), (''001.sql'', Some ''a''), (''embed.go'', Some ''x'')]"

definition sample_mig :: "string list migdb" where
  "sample_mig = \<lparr>script = [], now_us = 0, fresh_id = 1, mg_versions = None, mg_objects = []\<rparr>"

lemma sample_up:
  "Up (\<lambda>c d. Some (d @ [c])) sample_entries sample_mig =
     (Inr (), sample_mig\<lparr>mg_versions := Some [''001'', ''002''], mg_objects := [''a'', ''b'']\<rparr>)"
proof -
  have files: "migration_files sample_entries = [(''001.sql'', ''a''), (''002.sql'', ''b'')]" by code_simp
  have version: "migration_version ''001.sql'' = ''001''" "migration_version ''002.sql'' = ''002''" by code_simp+
  have trim: "TrimSpace ''a'' = ''a''" "TrimSpace ''b'' = ''b''"
    by (simp_all add: TrimSpace_graphic graphic_def)
  have split: "splitStatements ''a'' = [''a'']" "splitStatements ''b'' = [''b'']"
    by (simp_all add: splitStatements_pieces pieces.simps(2) glue_def)
  show ?thesis
    by (simp add: Up_def txC_def Let_def Up_body_def files sample_mig_def bindC_def handleC_def wrapC_def retC_def healthy
        create_table_sql_def migrate_file_def version has_version_def execSQL_def trim split exec_chunk_def run_sql_def
        record_version_sql_def)
qed

theorem migrate_all_or_nothing_witness:
  "apply_files (\<lambda>c d. Some (d @ [c])) (migration_files sample_entries) (schema_of sample_mig) =
     Some ([''001'', ''002''], [''a'', ''b''])"
  using migrate_all_or_nothing [OF sample_up] by (simp add: schema_of_def)

theorem migrate_idempotent_witness:
  "Up (\<lambda>c d. None) sample_entries (sample_mig\<lparr>mg_versions := Some [''001'', ''002''], mg_objects := [''a'', ''b'']\<rparr>) =
     (Inr (), sample_mig\<lparr>mg_versions := Some [''001'', ''002''], mg_objects := [''a'', ''b'']\<rparr>)"
  using migrate_idempotent [OF sample_up] by (simp add: sample_mig_def)

end
