(* ===== verification/DbPool.thy ===== *)
theory DbPool
  imports ServiceConfig "HOL-Library.Word"
begin

text \<open>
  Opening the database: the settings of the pool read from the environment
  (\<open>third_party/platform-go/db/db.go\<close>) and \<open>internal/db/db.go\<close>.  The driver - parsing a connection
  string, making the pool, pinging it - is an argument, as is the parsing of durations (nanoseconds).
\<close>

section \<open>The settings\<close>

datatype ExecMode = ExecModeDefault | ExecModeCacheStatement | ExecModeCacheDescribe | ExecModeDescribeExec
  | ExecModeExec | ExecModeSimpleProtocol

datatype QueryExecMode = QueryExecModeCacheStatement | QueryExecModeCacheDescribe | QueryExecModeDescribeExec
  | QueryExecModeExec | QueryExecModeSimpleProtocol

fun pgxMode :: "ExecMode \<Rightarrow> QueryExecMode option" where
  "pgxMode ExecModeCacheStatement = Some QueryExecModeCacheStatement"
| "pgxMode ExecModeCacheDescribe = Some QueryExecModeCacheDescribe"
| "pgxMode ExecModeDescribeExec = Some QueryExecModeDescribeExec"
| "pgxMode ExecModeExec = Some QueryExecModeExec"
| "pgxMode ExecModeSimpleProtocol = Some QueryExecModeSimpleProtocol"
| "pgxMode ExecModeDefault = None"

datatype PoolerMode = PoolerSession | PoolerTransaction

text \<open>\<open>MaxConns\<close> and \<open>MinConns\<close> are \<open>int32\<close>; the fields nobody sets here are left out and stay zero.\<close>

record DbConfig =
  dc_URL :: string
  dc_SearchPath :: string
  dc_Pooler :: PoolerMode
  dc_MaxConns :: int
  dc_MinConns :: int
  dc_MaxConnLifetime :: int
  dc_MaxConnIdleTime :: int
  dc_ConnectTimeout :: int
  dc_ExecMode :: ExecMode

record pool_config =
  pc_MaxConns :: int
  pc_MinConns :: int
  pc_MaxConnLifetime :: int
  pc_MaxConnLifetimeJitter :: int
  pc_MaxConnIdleTime :: int
  pc_HealthCheckPeriod :: int
  pc_ConnectTimeout :: int
  pc_RuntimeParams :: "string \<rightharpoonup> string"
  pc_DefaultQueryExecMode :: QueryExecMode
  pc_StatementCacheCapacity :: int
  pc_DescriptionCacheCapacity :: int
  pc_AfterConnect :: "string list"       \<comment> \<open>the statements run on a new connection\<close>

record pg_driver =
  pg_Duration :: "string \<Rightarrow> int option"
  pg_ParseConfig :: "string \<Rightarrow> err + pool_config"
  pg_NewWithConfig :: "pool_config \<Rightarrow> err + unit"
  pg_Ping :: "err + unit"

section \<open>Reading them\<close>

definition int32 :: "int \<Rightarrow> int" where
  "int32 v = sint (word_of_int v :: 32 word)"

definition parseExecMode :: "string \<Rightarrow> ExecMode option" where
  "parseExecMode s = (let v = ToLower (TrimSpace s) in
     if v = ''cache_statement'' then Some ExecModeCacheStatement
     else if v = ''cache_describe'' then Some ExecModeCacheDescribe
     else if v = ''describe_exec'' then Some ExecModeDescribeExec
     else if v = ''exec'' then Some ExecModeExec
     else if v = ''simple'' then Some ExecModeSimpleProtocol
     else None)"

definition intEnv :: "env \<Rightarrow> string \<Rightarrow> int option" where
  "intEnv env key = (let v = TrimSpace (env key) in
     if v = [] then None else case Atoi v of None \<Rightarrow> None | Some n \<Rightarrow> if n \<le> 0 then None else Some n)"

definition durationEnv :: "pg_driver \<Rightarrow> env \<Rightarrow> string \<Rightarrow> int option" where
  "durationEnv G env key = (let v = TrimSpace (env key) in
     if v = [] then None else case pg_Duration G v of None \<Rightarrow> None | Some d \<Rightarrow> if d \<le> 0 then None else Some d)"

definition ConfigFromEnv :: "pg_driver \<Rightarrow> env \<Rightarrow> string \<Rightarrow> DbConfig" where
  "ConfigFromEnv G env searchPath = \<lparr>
     dc_URL = env ''DATABASE_URL'',
     dc_SearchPath = searchPath,
     dc_Pooler = (if EqualFold (TrimSpace (env ''DB_POOLER_MODE'')) ''transaction'' then PoolerTransaction else PoolerSession),
     dc_MaxConns = (case intEnv env ''DB_MAX_CONNS'' of Some v \<Rightarrow> int32 v | None \<Rightarrow> 0),
     dc_MinConns = (case intEnv env ''DB_MIN_CONNS'' of Some v \<Rightarrow> int32 v | None \<Rightarrow> 0),
     dc_MaxConnLifetime = (case durationEnv G env ''DB_MAX_CONN_LIFETIME'' of Some d \<Rightarrow> d | None \<Rightarrow> 0),
     dc_MaxConnIdleTime = (case durationEnv G env ''DB_MAX_CONN_IDLE_TIME'' of Some d \<Rightarrow> d | None \<Rightarrow> 0),
     dc_ConnectTimeout = (case durationEnv G env ''DB_CONNECT_TIMEOUT'' of Some d \<Rightarrow> d | None \<Rightarrow> 0),
     dc_ExecMode = (case parseExecMode (env ''DB_QUERY_EXEC_MODE'') of Some m \<Rightarrow> m | None \<Rightarrow> ExecModeDefault)\<rparr>"

section \<open>Building the pool\<close>

text \<open>\<open>orInt32\<close> and \<open>orDuration\<close>.\<close>

definition or_positive :: "int \<Rightarrow> int \<Rightarrow> int" where
  "or_positive v fallback = (if v > 0 then v else fallback)"

definition defaultMaxConns :: "bool \<Rightarrow> int" where
  "defaultMaxConns transaction = (if transaction then 25 else 10)"

definition defaultQueryExecMode :: "bool \<Rightarrow> QueryExecMode" where
  "defaultQueryExecMode transaction = (if transaction then QueryExecModeExec else QueryExecModeCacheStatement)"

definition tune_pool :: "DbConfig \<Rightarrow> pool_config \<Rightarrow> pool_config" where
  "tune_pool cfg p =
     (let transaction = (dc_Pooler cfg = PoolerTransaction);
          mx = or_positive (dc_MaxConns cfg) (defaultMaxConns transaction);
          mn = or_positive (dc_MinConns cfg) 2;
          sp = TrimSpace (dc_SearchPath cfg)
      in p\<lparr>pc_MaxConns := mx,
           pc_MinConns := (if mn > mx then mx else mn),
           pc_MaxConnLifetime := or_positive (dc_MaxConnLifetime cfg) 3600000000000,
           pc_MaxConnLifetimeJitter := 300000000000,
           pc_MaxConnIdleTime := or_positive (dc_MaxConnIdleTime cfg) 900000000000,
           pc_HealthCheckPeriod := 60000000000,
           pc_ConnectTimeout := or_positive (dc_ConnectTimeout cfg) 10000000000,
           pc_RuntimeParams := (if sp \<noteq> [] then (pc_RuntimeParams p)(''search_path'' \<mapsto> sp) else pc_RuntimeParams p),
           pc_DefaultQueryExecMode := (case pgxMode (dc_ExecMode cfg) of Some m \<Rightarrow> m | None \<Rightarrow> defaultQueryExecMode transaction),
           pc_StatementCacheCapacity := (if transaction then 0 else pc_StatementCacheCapacity p),
           pc_DescriptionCacheCapacity := (if transaction then 0 else pc_DescriptionCacheCapacity p)\<rparr>)"

definition BuildPoolConfig :: "pg_driver \<Rightarrow> env \<Rightarrow> DbConfig \<Rightarrow> err + pool_config" where
  "BuildPoolConfig G env cfg =
     (let url = (if dc_URL cfg = [] then env ''DATABASE_URL'' else dc_URL cfg) in
      if TrimSpace url = [] then Inl (ErrMsg ''db: DATABASE_URL is empty'')
      else case pg_ParseConfig G url of
        Inl e \<Rightarrow> Inl (ErrWrap ''db: parse DATABASE_URL'' e)
      | Inr p \<Rightarrow> Inr (tune_pool cfg p))"

definition Schema :: string where
  "Schema = ''traceability''"

definition pool_settings :: "pg_driver \<Rightarrow> env \<Rightarrow> string \<Rightarrow> DbConfig" where
  "pool_settings G env databaseURL =
     (let pcfg = ConfigFromEnv G env (Schema @ '', public'') in
      if TrimSpace databaseURL \<noteq> [] then pcfg\<lparr>dc_URL := databaseURL\<rparr> else pcfg)"

definition NewPool :: "pg_driver \<Rightarrow> env \<Rightarrow> string \<Rightarrow> err + pool_config" where
  "NewPool G env databaseURL =
     (case BuildPoolConfig G env (pool_settings G env databaseURL) of
        Inl e \<Rightarrow> Inl (ErrWrap ''parse database url'' e)
      | Inr cfg0 \<Rightarrow>
          let cfg = cfg0\<lparr>pc_RuntimeParams := (pc_RuntimeParams cfg0)(''search_path'' \<mapsto> Schema @ '', public''),
                         pc_AfterConnect := [''CREATE SCHEMA IF NOT EXISTS '' @ Schema]\<rparr> in
          (case pg_NewWithConfig G cfg of
             Inl e \<Rightarrow> Inl (ErrWrap ''connect postgres'' e)
           | Inr _ \<Rightarrow> (case pg_Ping G of
               Inl e \<Rightarrow> Inl (ErrWrap ''ping postgres'' e)
             | Inr _ \<Rightarrow> Inr cfg)))"

section \<open>Lemmas\<close>

lemma int32_range: "- (2 ^ 31) \<le> int32 v" "int32 v < 2 ^ 31"
  using signed_take_bit_int_greater_eq_minus_exp [of 31 v] signed_take_bit_int_less_exp [of 31 v]
  by (simp_all add: int32_def sint_sbintrunc')

lemma int32_id: "0 \<le> v \<Longrightarrow> v < 2 ^ 31 \<Longrightarrow> int32 v = v"
  by (simp add: int32_def sint_sbintrunc' signed_take_bit_int_eq_self)

lemma or_positive_pos: "0 < d \<Longrightarrow> 0 < or_positive v d"
  by (simp add: or_positive_def)

text \<open>\<open>MaxConns\<close> as it comes out of the environment.\<close>

definition configured_conns :: "env \<Rightarrow> int \<Rightarrow> int" where
  "configured_conns env d = (case intEnv env ''DB_MAX_CONNS'' of Some v \<Rightarrow> or_positive (int32 v) d | None \<Rightarrow> d)"

lemma configured_conns_range: "0 < d \<Longrightarrow> d < 2 ^ 31 \<Longrightarrow> 0 < configured_conns env d \<and> configured_conns env d < 2 ^ 31"
  using int32_range by (auto simp: configured_conns_def or_positive_def split: option.split)

lemma NewPool_cases:
  assumes "NewPool G env url = Inr p"
  obtains p0 where "p = (tune_pool (pool_settings G env url) p0)\<lparr>pc_RuntimeParams :=
      (pc_RuntimeParams (tune_pool (pool_settings G env url) p0))(''search_path'' \<mapsto> Schema @ '', public''),
      pc_AfterConnect := [''CREATE SCHEMA IF NOT EXISTS '' @ Schema]\<rparr>"
  using assms by (auto simp: NewPool_def BuildPoolConfig_def Let_def split: sum.splits if_splits)

lemma pool_settings_from_env:
  "dc_MaxConns (pool_settings G env url) = (case intEnv env ''DB_MAX_CONNS'' of Some v \<Rightarrow> int32 v | None \<Rightarrow> 0)"
  "dc_Pooler (pool_settings G env url) =
     (if EqualFold (TrimSpace (env ''DB_POOLER_MODE'')) ''transaction'' then PoolerTransaction else PoolerSession)"
  by (simp_all add: pool_settings_def ConfigFromEnv_def Let_def)

section \<open>Properties\<close>

text \<open>
  C26. A pool that opens is usable and bounded, whatever the environment and the connection string say:
  it holds at least one warm connection and never more warm ones than connections, at most
  \<open>2\<^sup>31 - 1\<close> of them, and all its times are positive; every connection resolves table names in the
  schema of this service first, even if the connection string names another; behind a transaction pooler
  no prepared statement is cached; and a number of connections in the range of an \<open>int32\<close> is obeyed.
\<close>

theorem pool_within_bounds:
  assumes "NewPool G env url = Inr p"
  shows "1 \<le> pc_MinConns p \<and> pc_MinConns p \<le> pc_MaxConns p \<and> pc_MaxConns p < 2 ^ 31 \<and>
    0 < pc_MaxConnLifetime p \<and> 0 < pc_MaxConnIdleTime p \<and> 0 < pc_ConnectTimeout p \<and>
    pc_RuntimeParams p ''search_path'' = Some ''traceability, public'' \<and>
    (EqualFold (TrimSpace (env ''DB_POOLER_MODE'')) ''transaction'' \<longrightarrow>
       pc_StatementCacheCapacity p = 0 \<and> pc_DescriptionCacheCapacity p = 0) \<and>
    (\<forall>n. intEnv env ''DB_MAX_CONNS'' = Some n \<and> n < 2 ^ 31 \<longrightarrow> pc_MaxConns p = n)"
proof -
  let ?c = "pool_settings G env url"
  obtain p0 where p: "p = (tune_pool ?c p0)\<lparr>pc_RuntimeParams :=
      (pc_RuntimeParams (tune_pool ?c p0))(''search_path'' \<mapsto> Schema @ '', public''),
      pc_AfterConnect := [''CREATE SCHEMA IF NOT EXISTS '' @ Schema]\<rparr>"
    using NewPool_cases [OF assms] by blast
  let ?d = "defaultMaxConns (dc_Pooler ?c = PoolerTransaction)"
  have mx: "pc_MaxConns p = configured_conns env ?d"
    by (simp add: p tune_pool_def Let_def pool_settings_from_env configured_conns_def or_positive_def split: option.split)
  have range: "0 < pc_MaxConns p \<and> pc_MaxConns p < 2 ^ 31"
    unfolding mx by (rule configured_conns_range) (simp_all add: defaultMaxConns_def)
  have mn: "pc_MinConns p = min (or_positive (dc_MinConns ?c) 2) (pc_MaxConns p)"
    by (simp add: p tune_pool_def Let_def min_def)
  have obeyed: "pc_MaxConns p = n" if "intEnv env ''DB_MAX_CONNS'' = Some n" "n < 2 ^ 31" for n
  proof -
    have "0 < n" using that(1) by (auto simp: intEnv_def Let_def split: if_splits option.splits)
    then show ?thesis using that int32_id [of n] by (simp add: mx configured_conns_def or_positive_def)
  qed
  have "1 \<le> pc_MinConns p \<and> pc_MinConns p \<le> pc_MaxConns p"
    using range by (auto simp: mn or_positive_def)
  moreover have "0 < pc_MaxConnLifetime p \<and> 0 < pc_MaxConnIdleTime p \<and> 0 < pc_ConnectTimeout p"
    by (simp add: p tune_pool_def Let_def or_positive_pos)
  moreover have "pc_RuntimeParams p ''search_path'' = Some ''traceability, public''"
    by (simp add: p Schema_def)
  moreover have "pc_StatementCacheCapacity p = 0 \<and> pc_DescriptionCacheCapacity p = 0"
    if "EqualFold (TrimSpace (env ''DB_POOLER_MODE'')) ''transaction''"
    using that by (simp add: p tune_pool_def Let_def pool_settings_from_env)
  ultimately show ?thesis using range obeyed by blast
qed

definition sample_driver :: pg_driver where
  "sample_driver = \<lparr>pg_Duration = (\<lambda>_. None),
     pg_ParseConfig = (\<lambda>_. Inr \<lparr>pc_MaxConns = 4, pc_MinConns = 0, pc_MaxConnLifetime = 0, pc_MaxConnLifetimeJitter = 0,
       pc_MaxConnIdleTime = 0, pc_HealthCheckPeriod = 0, pc_ConnectTimeout = 0, pc_RuntimeParams = [''search_path'' \<mapsto> ''public''],
       pc_DefaultQueryExecMode = QueryExecModeCacheStatement, pc_StatementCacheCapacity = 512,
       pc_DescriptionCacheCapacity = 512, pc_AfterConnect = []\<rparr>),
     pg_NewWithConfig = (\<lambda>_. Inr ()), pg_Ping = Inr ()\<rparr>"

lemma sample_NewPool: "TrimSpace url \<noteq> [] \<Longrightarrow> \<exists>p. NewPool sample_driver env url = Inr p"
  by (cases "url = []") (auto simp: NewPool_def BuildPoolConfig_def pool_settings_def sample_driver_def Let_def TrimSpace_Nil)

theorem pool_within_bounds_witness:
  "\<exists>p. NewPool sample_driver (\<lambda>k. if k = ''DB_MAX_CONNS'' then ''1'' else []) ''db'' = Inr p \<and>
     pc_MaxConns p = 1 \<and> pc_MinConns p = 1 \<and> pc_RuntimeParams p ''search_path'' = Some ''traceability, public''"
proof -
  let ?env = "\<lambda>k. if k = ''DB_MAX_CONNS'' then ''1'' else []"
  have "TrimSpace ''1'' = ''1''" "TrimSpace ''db'' = ''db''" by (simp_all add: TrimSpace_graphic graphic_def)
  moreover have "Atoi ''1'' = Some 1" by code_simp
  ultimately have n: "intEnv ?env ''DB_MAX_CONNS'' = Some 1" "TrimSpace ''db'' \<noteq> []" by (simp_all add: intEnv_def)
  obtain p where p: "NewPool sample_driver ?env ''db'' = Inr p" using sample_NewPool [OF n(2)] by blast
  from pool_within_bounds [OF p] n(1) have "pc_MaxConns p = 1" "1 \<le> pc_MinConns p \<and> pc_MinConns p \<le> pc_MaxConns p"
    "pc_RuntimeParams p ''search_path'' = Some ''traceability, public''" by auto
  with p show ?thesis by auto
qed

end
