(* ===== verification/Wiring.thy ===== *)
theory Wiring
  imports Registration Migrations ScmSync DbPool ApiRules
begin

text \<open>
  \<open>cmd/server/main.go\<close>: how the service is put together from its configuration, and its background
  loops; the commands \<open>cmd/migrate-scm\<close>, \<open>cmd/chain-backfill\<close> and \<open>cmd/healthcheck\<close>.  What they get from
  outside is one record, the environment is the one after \<open>godotenv.Load\<close>; \<open>log.Fatal\<close> is the left side
  of the result and ends the process whatever was started before it.  Logging, tracing, the HTTP server
  object and the notifier, which \<open>main\<close> makes and hands to nobody, are left out.
\<close>

section \<open>The outside\<close>

record outside =
  ou_pg :: pg_driver
  ou_migrated :: "err + unit"      \<comment> \<open>\<open>migrate.Up\<close>\<close>
  ou_redis :: "err + unit"         \<comment> \<open>\<open>cache.NewClient\<close>\<close>
  ou_scm_pool :: "err + unit"      \<comment> \<open>\<open>pgxpool.New\<close> on the supply-chain database\<close>
  ou_net :: scm_net
  ou_jwt :: jwt_parser
  ou_ed :: ed25519
  ou_vault :: vault_http
  ou_allow :: bucket

section \<open>The parts\<close>

definition wire_story :: "outside \<Rightarrow> Cfg \<Rightarrow> StoryCfg" where
  "wire_story O' cfg = \<lparr>
     sc_scm = New (cfg_SupplyChainBaseURL cfg) (cfg_AuthTokenURL cfg) (cfg_ServiceClientID cfg) (cfg_ServiceClientSecret cfg),
     sc_net = ou_net O',
     sc_opts = \<lparr>op_PlaceholderJourney = cfg_StoryPlaceholderJourney cfg, op_PreciseGeo = cfg_PublicPreciseGeo cfg\<rparr>\<rparr>"

definition wire_cache :: "outside \<Rightarrow> Cfg \<Rightarrow> int option" where
  "wire_cache O' cfg =
     (if cfg_RedisURL cfg = [] then None
      else case ou_redis O' of Inl _ \<Rightarrow> None | Inr _ \<Rightarrow> Some (cfg_CacheTTL cfg))"

text \<open>The verifier exists in mode \<open>jwt\<close> only; it answers with the keys it holds at the time.\<close>

definition wire_auth :: "outside \<Rightarrow> Cfg \<Rightarrow> key_set \<Rightarrow> PlatformAuth" where
  "wire_auth O' cfg keys = \<lparr>pa_authMode = cfg_AuthMode cfg,
     pa_verify = (if cfg_AuthMode cfg = ''jwt'' then Some (Verify (ou_jwt O') keys) else None)\<rparr>"

definition wire_consumer :: "outside \<Rightarrow> Cfg \<Rightarrow> Consumer option" where
  "wire_consumer O' cfg =
     (if length (cfg_KafkaBrokers cfg) > 0 then Some \<lparr>
        cn_cfg = \<lparr>cf_Brokers = cfg_KafkaBrokers cfg, cf_SupplyChainTopic = cfg_KafkaSupplyChainTopic cfg,
          cf_ProductionTopic = cfg_KafkaProductionTopic cfg, cf_QualityTopic = cfg_KafkaQualityTopic cfg\<rparr>,
        cn_chain = cfg_ChainEnabled cfg, cn_story = wire_story O' cfg, cn_pub = True\<rparr>
      else None)"

definition wire_relay :: "Cfg \<Rightarrow> Relay option" where
  "wire_relay cfg =
     (if length (cfg_KafkaBrokers cfg) > 0 then Some (NewRelay (NewPublisher (cfg_KafkaBrokers cfg))) else None)"

definition wire_anchors :: "outside \<Rightarrow> Cfg \<Rightarrow> err + Service option" where
  "wire_anchors O' cfg =
     (if \<not> cfg_AnchorEnabled cfg then Inr None
      else case NewSigner (ou_ed O') (ou_vault O') \<lparr>sk_Algo = cfg_AnchorSigningAlgo cfg, sk_KeyID = cfg_AnchorKeyID cfg,
          sk_KeyHex = cfg_AnchorSigningKey cfg, sk_VaultAddr = cfg_VaultAddr cfg, sk_VaultToken = cfg_VaultToken cfg,
          sk_VaultMount = cfg_VaultTransitMount cfg, sk_VaultKey = cfg_VaultTransitKey cfg\<rparr> of
        Inl e \<Rightarrow> Inl (ErrWrap ''anchor signer'' e)
      | Inr signer \<Rightarrow>
          (case NewProvider (cfg_AnchorProvider cfg) (cfg_AnchorRPCURL cfg) (cfg_AnchorContract cfg) of
             Inl e \<Rightarrow> Inl (ErrWrap ''anchor provider'' e)
           | Inr provider \<Rightarrow> Inr (Some (NewService (Some signer) (Some provider)))))"

text \<open>\<open>startSCMSync\<close>: the loop, or nothing when its source cannot be opened or is not named.\<close>

definition startSCMSync :: "outside \<Rightarrow> Cfg \<Rightarrow> Syncer option" where
  "startSCMSync O' cfg =
     (let syncer = Syncer_New (cfg_ChainEnabled cfg) (wire_story O' cfg) in
      if cfg_SCMSyncSameDB cfg then Some syncer
      else if cfg_SCMDatabaseURL cfg \<noteq> [] then (case ou_scm_pool O' of Inl _ \<Rightarrow> None | Inr _ \<Rightarrow> Some syncer)
      else None)"

text \<open>The literal of \<open>main\<close> does not set the field for alerts.\<close>

definition wire_api :: "outside \<Rightarrow> Cfg \<Rightarrow> Service option \<Rightarrow> API" where
  "wire_api O' cfg anchorSvc = \<lparr>ap_Cfg = cfg, ap_chain = cfg_ChainEnabled cfg, ap_story = wire_story O' cfg, ap_Audit = True,
     ap_QRCache = wire_cache O' cfg, ap_metrics = True, ap_Anchor = anchorSvc, ap_Notify = None\<rparr>"

definition wire_router :: "outside \<Rightarrow> Cfg \<Rightarrow> API \<Rightarrow> key_set \<Rightarrow> RouterDeps" where
  "wire_router O' cfg api keys = \<lparr>rd_API = api, rd_Audit = True, rd_PlatformAuth = Some (wire_auth O' cfg keys),
     rd_CORSOrigins = cfg_CORSOrigins cfg,
     rd_limiter = fst (newLimiterMap (cfg_PublicRateLimitPerMin cfg) (cfg_PublicRateBurst cfg)),
     rd_allow = ou_allow O'\<rparr>"

section \<open>The service\<close>

text \<open>
  What runs after \<open>main\<close> has started everything: the router (for the keys held at a time), the Kafka
  consumer, the relay, the supply-chain sync, the notary with the interval of its job, and whether the
  permissions are registered.
\<close>

record deployment =
  dp_router :: "key_set \<Rightarrow> RouterDeps"
  dp_consumer :: "Consumer option"
  dp_relay :: "Relay option"
  dp_sync :: "Syncer option"
  dp_anchors :: "Service option"
  dp_job :: "int option"
  dp_registers :: bool

definition boot :: "outside \<Rightarrow> env \<Rightarrow> Cfg \<Rightarrow> err + deployment" where
  "boot O' env cfg = (case NewPool (ou_pg O') env (cfg_DatabaseURL cfg) of
     Inl e \<Rightarrow> Inl (ErrWrap ''database'' e)
   | Inr _ \<Rightarrow> (case (if cfg_AutoMigrate cfg then ou_migrated O' else Inr ()) of
       Inl e \<Rightarrow> Inl (ErrWrap ''migrate'' e)
     | Inr _ \<Rightarrow> (case wire_anchors O' cfg of
         Inl e \<Rightarrow> Inl e
       | Inr anchorSvc \<Rightarrow> Inr \<lparr>
           dp_router = wire_router O' cfg (wire_api O' cfg anchorSvc),
           dp_consumer = wire_consumer O' cfg,
           dp_relay = wire_relay cfg,
           dp_sync = (if cfg_SCMSyncEnabled cfg then startSCMSync O' cfg else None),
           dp_anchors = anchorSvc,
           dp_job = (if cfg_AnchorEnabled cfg \<and> cfg_AnchorInterval cfg > 0 then Some (cfg_AnchorInterval cfg) else None),
           dp_registers = (cfg_AuthMode cfg = ''jwt'' \<and> cfg_ServiceClientSecret cfg \<noteq> [])\<rparr>)))"

definition main :: "outside \<Rightarrow> parsers \<Rightarrow> env \<Rightarrow> err + deployment" where
  "main O' P env = (case Load P env of Inl e \<Rightarrow> Inl (ErrWrap ''config'' e) | Inr cfg \<Rightarrow> boot O' env cfg)"

text \<open>The periodic notary: one \<open>CreateAnchor\<close> per tick, whatever the last one gave.\<close>

primrec anchorJobLoop :: "Service \<Rightarrow> nat \<Rightarrow> ('z db_scheme, unit) cmd" where
  "anchorJobLoop svc 0 = retC ()"
| "anchorJobLoop svc (Suc n) = bindC (ignoreC (CreateAnchor svc)) (\<lambda>_. anchorJobLoop svc n)"

section \<open>The commands\<close>

text \<open>This process sets no story options, so those of the package hold, and it has no supply-chain client.\<close>

definition story_default_opts :: Options where
  "story_default_opts = \<lparr>op_PlaceholderJourney = True, op_PreciseGeo = False\<rparr>"

definition migrate_scm :: "ext \<Rightarrow> outside \<Rightarrow> env \<Rightarrow> source \<Rightarrow> ('z sync_scheme, Result) cmd" where
  "migrate_scm X O' env src =
     (if TrimSpace (env ''DATABASE_URL'') = [] then failC (ErrMsg ''DATABASE_URL is required'')
      else case NewPool (ou_pg O') env (TrimSpace (env ''DATABASE_URL'')) of
        Inl e \<Rightarrow> failC e
      | Inr _ \<Rightarrow> (case (if TrimSpace (env ''SCM_DATABASE_URL'') \<noteq> [] then ou_scm_pool O' else Inr ()) of
          Inl e \<Rightarrow> failC e
        | Inr _ \<Rightarrow>
            handleC (Sync_Run X (Syncer_New (env ''CHAIN_ENABLED'' = ''true'')
                \<lparr>sc_scm = None, sc_net = ou_net O', sc_opts = story_default_opts\<rparr>) src True)
              (\<lambda>e. failC (if e = ErrLocked then e else ErrWrap ''migrate-scm'' e))
              (\<lambda>_. getC sync_res)))"

text \<open>\<open>chain-backfill [--dry-run]\<close>: the result is what it logs.\<close>

definition chain_backfill :: "ext \<Rightarrow> outside \<Rightarrow> env \<Rightarrow> bool \<Rightarrow> ('z db_scheme, nat) cmd" where
  "chain_backfill X O' env dryRun =
     (if env ''DATABASE_URL'' = [] then failC (ErrMsg ''DATABASE_URL is required'')
      else case NewPool (ou_pg O') env (env ''DATABASE_URL'') of
        Inl e \<Rightarrow> failC (ErrWrap ''connect'' e)
      | Inr _ \<Rightarrow> wrapC ''backfill'' (backfill X dryRun))"

text \<open>The exit code of the probe; \<open>get\<close> is the HTTP request, answered with a status.\<close>

definition healthcheck :: "env \<Rightarrow> (string \<Rightarrow> err + nat) \<Rightarrow> nat" where
  "healthcheck env get =
     (let port = (if env ''PORT'' = [] then ''4011'' else env ''PORT'') in
      case get (''http://127.0.0.1:'' @ port @ ''/ready'') of
        Inl _ \<Rightarrow> 1
      | Inr status \<Rightarrow> if status \<noteq> 200 then 1 else 0)"

section \<open>Properties\<close>

lemma Load_settings:
  assumes "Load P env = Inr cfg"
  shows "cfg_AuthMode cfg = ''jwt''" "cfg_AnchorEnabled cfg = getEnvBool env ''ANCHOR_ENABLED'' False"
    "cfg_DatabaseURL cfg = TrimSpace (env ''DATABASE_URL'')"
proof -
  define mode where "mode = ToLower (TrimSpace (getenv env ''AUTH_MODE'' ''jwt''))"
  define c where "c = loaded P env (ToLower (TrimSpace (getenv env ''ENVIRONMENT'' ''development''))) mode"
  from assms have "cfg_AuthMode cfg = cfg_AuthMode c" "cfg_AnchorEnabled cfg = cfg_AnchorEnabled c"
    "cfg_DatabaseURL cfg = cfg_DatabaseURL c" "mode = ''jwt''"
    unfolding Load_def Let_def mode_def [symmetric] c_def [symmetric] by (auto split: if_splits)
  then show "cfg_AuthMode cfg = ''jwt''" "cfg_AnchorEnabled cfg = getEnvBool env ''ANCHOR_ENABLED'' False"
    "cfg_DatabaseURL cfg = TrimSpace (env ''DATABASE_URL'')"
    by (simp_all add: c_def loaded_def Let_def)
qed

lemma main_Inr:
  assumes "main O' P env = Inr D"
  obtains cfg svc where "cfg_AuthMode cfg = ''jwt''" "dp_router D = wire_router O' cfg (wire_api O' cfg svc)"
proof -
  from assms obtain cfg where cfg: "Load P env = Inr cfg" "boot O' env cfg = Inr D"
    by (auto simp: main_def split: sum.splits)
  from cfg(2) obtain svc where "dp_router D = wire_router O' cfg (wire_api O' cfg svc)"
    by (auto simp: boot_def split: sum.splits if_splits)
  with Load_settings(1) [OF cfg(1)] show ?thesis by (rule that)
qed

text \<open>A parser that accepts no token without having been given a key for it, as the token library does for RS256.\<close>

definition asks_for_key :: "jwt_parser \<Rightarrow> bool" where
  "asks_for_key jwt \<longleftrightarrow> (\<forall>f token c valid. jwt f token = Inr (c, valid) \<longrightarrow> (\<exists>header key. f header = Inr key))"

lemma verified_booted:
  assumes "main O' P env = Inr D" and "asks_for_key (ou_jwt O')" and "verified (dp_router D keys) rq = Some c"
  shows "keys \<noteq> [] \<and> Verify (ou_jwt O') keys (bearerToken rq) = Inr c"
proof -
  obtain cfg svc where "cfg_AuthMode cfg = ''jwt''" "dp_router D = wire_router O' cfg (wire_api O' cfg svc)"
    using main_Inr [OF assms(1)] .
  with assms(3) have ok: "Verify (ou_jwt O') keys (bearerToken rq) = Inr c"
    by (auto simp: verified_def wire_router_def wire_auth_def split: if_splits sum.splits)
  then obtain valid where "ou_jwt O' (key_for keys) (bearerToken rq) = Inr (c, valid)"
    by (auto simp: Verify_def split: sum.splits prod.splits if_splits)
  with assms(2) obtain header key where "key_for keys header = Inr key" unfolding asks_for_key_def by blast
  then have "keys \<noteq> []" by (auto simp: key_for_def Let_def split: if_splits)
  with ok show ?thesis by blast
qed

text \<open>
  C4. The service that boots fails closed.  Whatever the environment, if \<open>main\<close> gets the service up, then
  a request to a protected route goes through only if the key set holds keys and the verifier accepts its
  token with them and with claims that hold the permission of the route; in all other cases, in
  particular as long as no keys are loaded, it is refused with 401, 403 or 503 and nothing is changed but,
  perhaps, one row of the request log.
\<close>

theorem booted_service_fails_closed:
  assumes "main O' P env = Inr D" and "asks_for_key (ou_jwt O')"
    and "find_route (rq_Method rq) (rq_Path rq) = Some (params, Needs code, t)" and "rq_Method rq \<noteq> ''OPTIONS''"
    and "serve X L (dp_router D keys) rand rq s = (ans, s')"
  shows "(keys \<noteq> [] \<and> (\<exists>c. Verify (ou_jwt O') keys (bearerToken rq) = Inr c \<and> HasPermission c code)) \<or>
    (\<exists>n \<in> {401, 403, 503}. \<exists>c m e. ans = Refused n c m e) \<and> only_logged s s'"
  using guarded_route [OF assms(3,5,4)] verified_booted [OF assms(1,2)] by blast

definition sample_claims :: Claims where
  "sample_claims = \<lparr>cl_Email = [], cl_Name = [], cl_PrincipalType = [], cl_ClientID = [], cl_IsSuperuser = True, cl_IsStaff = False,
     cl_Groups = [], cl_Permissions = [], cl_Subject = []\<rparr>"

definition sample_outside :: outside where
  "sample_outside = \<lparr>ou_pg = sample_driver, ou_migrated = Inr (), ou_redis = Inl ErrContext, ou_scm_pool = Inr (),
     ou_net = sc_net sample_cfg,
     ou_jwt = (\<lambda>f token. case f [(''kid'', GStr ''k'')] of Inl e \<Rightarrow> Inl e | Inr _ \<Rightarrow> Inr (sample_claims, True)),
     ou_ed = sample_ed, ou_vault = sample_vault, ou_allow = (\<lambda>_ _ _. True)\<rparr>"

lemma sample_main: "\<exists>D. main sample_outside sample_ps sample_env = Inr D"
proof -
  obtain cfg where cfg: "Load sample_ps sample_env = Inr cfg" using sample_Load by blast
  have "cfg_AnchorEnabled cfg = getEnvBool sample_env ''ANCHOR_ENABLED'' False" "cfg_DatabaseURL cfg = TrimSpace ''db''"
    using Load_settings [OF cfg] by (simp_all add: sample_env_def)
  moreover have "TrimSpace ''db'' = ''db''" by (simp add: TrimSpace_graphic graphic_def)
  ultimately have off: "\<not> cfg_AnchorEnabled cfg" "TrimSpace (cfg_DatabaseURL cfg) \<noteq> []"
    by (simp_all add: getEnvBool_def sample_env_def TrimSpace_Nil)
  from sample_NewPool [OF off(2)] obtain p where "NewPool sample_driver sample_env (cfg_DatabaseURL cfg) = Inr p" by blast
  with off(1) show ?thesis by (simp add: main_def cfg boot_def wire_anchors_def sample_outside_def)
qed

theorem booted_service_fails_closed_witness:
  "\<exists>D. main sample_outside sample_ps sample_env = Inr D \<and> (\<exists>n \<in> {401, 403, 503}. \<exists>c m e s'.
     serve sample_ext sample_lib (dp_router D []) [] (sample_request ''POST'' ''/api/v1/lots/L-1/revoke'' []) (on_web sample_qr) =
       (Refused n c m e, s') \<and> only_logged (on_web sample_qr) s')"
proof -
  obtain D where D: "main sample_outside sample_ps sample_env = Inr D" using sample_main by blast
  let ?rq = "sample_request ''POST'' ''/api/v1/lots/L-1/revoke'' []"
  have asks: "asks_for_key (ou_jwt sample_outside)"
    by (auto simp: asks_for_key_def sample_outside_def split: sum.splits)
  have "find_route ''POST'' ''/api/v1/lots/L-1/revoke'' = Some ([(''businessId'', ''L-1'')], Needs ''traceability.publish_qr'', TRevokeLotQR)"
    by code_simp
  then have f: "find_route (rq_Method ?rq) (rq_Path ?rq) = Some ([(''businessId'', ''L-1'')], Needs ''traceability.publish_qr'', TRevokeLotQR)"
    "rq_Method ?rq \<noteq> ''OPTIONS''" by simp_all
  obtain ans s' where run: "serve sample_ext sample_lib (dp_router D []) [] ?rq (on_web sample_qr) = (ans, s')"
    by (meson surj_pair)
  from booted_service_fails_closed [OF D asks f run] run D show ?thesis by auto
qed

end
