(* ===== verification/SystemSteps.thy ===== *)
theory SystemSteps
  imports Wiring EventBus ApiRules
begin

text \<open>
  The service as a whole: its parts (requests, the Kafka consumer, the supply-chain sync, the relay of
  the outbox, the notary, the two commands) take turns on one state, and between them time passes, the
  cache forgets and the database, the broker and the cache server fail as they like.  An invariant of
  the parts is an invariant of the service: the interface and the induction are a locale, interpreted on
  the invariant of ledger, chain and anchors, on the history and on the QR codes.
\<close>

section \<open>Steps\<close>

text \<open>
  What a deployment runs with, besides what \<open>main\<close> builds; the last two say which bytes its random source
  may give and which contents the supply-chain database may have.
\<close>

record library =
  lb_ext :: ext
  lb_web :: weblib
  lb_parse :: "string \<Rightarrow> gval option"
  lb_dec :: "string \<Rightarrow> Envelope option"
  lb_random :: "string \<Rightarrow> bool"
  lb_source :: "source \<Rightarrow> bool"

text \<open>A payload that JSONB returns as it was written; every event that is appended is asked for one.\<close>

definition good_request :: "library \<Rightarrow> request \<Rightarrow> bool" where
  "good_request B rq \<longleftrightarrow>
     (\<forall>b. dec_event_body (lb_ext B) (lb_web B) (rq_Body rq) = Inr b \<longrightarrow> jsonb_stable (lb_ext B) (or_empty (eb_Payload b)))"

definition good_message :: "library \<Rightarrow> kafka_msg \<Rightarrow> bool" where
  "good_message B m \<longleftrightarrow>
     (\<forall>e. decode_event (lb_parse B) (km_Value m) = Inr e \<longrightarrow> jsonb_stable (lb_ext B) (or_empty (ce_Data e)))"

definition good_source :: "library \<Rightarrow> source \<Rightarrow> bool" where
  "good_source B src \<longleftrightarrow> lb_source B src \<and> (\<forall>e \<in> set (src_events src). jsonb_stable (lb_ext B) (or_empty (se_payload e)))"

inductive service_step :: "library \<Rightarrow> deployment \<Rightarrow> 'z web_scheme \<Rightarrow> 'z web_scheme \<Rightarrow> bool"
  for B :: library and D :: deployment where
  request: "good_request B rq \<Longrightarrow> lb_random B rand \<Longrightarrow>
     service_step B D s (snd (serve (lb_ext B) (lb_web B) (dp_router D keys) rand rq s))"
| message: "dp_consumer D = Some c \<Longrightarrow> good_message B m \<Longrightarrow>
     service_step B D s (snd (consume_loop (lb_ext B) (lb_parse B) c [Fetched m ok] s))"
| sync: "dp_sync D = Some y \<Longrightarrow> good_source B src \<Longrightarrow>
     service_step B D s (snd (Tick (lb_ext B) y src n s))"
| relay: "dp_relay D = Some r \<Longrightarrow>
     service_step B D s (snd (drain (lb_ext B) (lb_dec B) r ended s))"
| notary: "dp_anchors D = Some sv \<Longrightarrow> dp_job D = Some interval \<Longrightarrow>
     service_step B D s (snd (anchorJobLoop sv 1 s))"
| chained: "service_step B D s (snd (chain_backfill (lb_ext B) O' env dry s))"
| migrated: "good_source B src \<Longrightarrow> service_step B D s (snd (migrate_scm (lb_ext B) O' env src s))"
| world: "now_us s \<le> now \<Longrightarrow> set kept \<subseteq> set (qr_cache s) \<Longrightarrow>
     service_step B D s (s\<lparr>script := db_script, now_us := now, kafka_script := broker, redis_script := redis, qr_cache := kept\<rparr>)"

inductive_cases service_stepE: "service_step B D s s'"

inductive reaches :: "library \<Rightarrow> deployment \<Rightarrow> 'z web_scheme \<Rightarrow> 'z web_scheme \<Rightarrow> bool" for B D s where
  here: "reaches B D s s"
| further: "reaches B D s t \<Longrightarrow> service_step B D t u \<Longrightarrow> reaches B D s u"

lemma reaches_trans: "reaches B D t u \<Longrightarrow> reaches B D s t \<Longrightarrow> reaches B D s u"
  by (induction rule: reaches.induct) (auto intro: further)

text \<open>All tokens that may be drawn satisfy \<open>T\<close>, all sources \<open>S\<close>.\<close>

definition allows :: "library \<Rightarrow> (string \<Rightarrow> bool) \<Rightarrow> (source \<Rightarrow> bool) \<Rightarrow> bool" where
  "allows B T S \<longleftrightarrow> (\<forall>rand. lb_random B rand \<longrightarrow> T (GeneratePublicToken rand)) \<and> (\<forall>src. lb_source B src \<longrightarrow> S src)"

lemma allows_all: "allows B (\<lambda>_. True) (\<lambda>_. True)"
  by (simp add: allows_def)

section \<open>What every part keeps\<close>

lemma redis_same_main:
  "same_main s (redis_step s)" "same_main s (redis_Set key v ttl s)" "same_main s (redis_Del key s)"
  by (simp_all add: same_main_def redis_Set_def redis_Del_def redis_step_def)

text \<open>
  A predicate on the main tables that the statements which write to them keep, publishing with tokens
  that satisfy \<open>T\<close> and copying from sources that satisfy \<open>S\<close>.
\<close>

locale main_invariant =
  fixes X :: ext and T :: "string \<Rightarrow> bool" and S :: "source \<Rightarrow> bool" and P :: "'z web_scheme \<Rightarrow> bool"
  assumes main: "main_pred P"
    and append: "jsonb_stable X (or_empty (in_Payload i)) \<Longrightarrow> keeps P (AppendEvent X ce i)"
    and anchoring: "keeps P (CreateAnchor sv)"
    and backfilling: "keeps P (backfill X dry)"
    and publishing: "T token \<Longrightarrow> keeps P (UpsertLotQRTx lot token row)"
    and revoking: "keeps P (RevokeLotQRTx lot row)"
    and scanning: "keeps P (IncrementScanCount token)"
    and copying: "S src \<Longrightarrow> keeps P (copyQRCodes src)"
    and marking: "keeps P (execC (mark_seen_sql k t))" "keeps P (saveMark m)" "keeps P (saveRun err)"
begin

lemmas tables = main_pred_tables [OF main]

lemma keeps_main_frame: "(\<And>s. same_main s (snd (m s))) \<Longrightarrow> keeps P m"
  by (rule keepsI) (blast intro: main_predD [OF main])

lemma keeps_kafka: "keeps P (Publish X' topic key e)"
  unfolding Publish_def WriteMessages_def
  by (intro keeps_intros keeps_main_frame) (auto simp: same_main_def Let_def split: list.split io.split)

lemma keeps_envelope: "keeps P (NewEnvelope src ty data)"
  unfolding NewEnvelope_def by (rule keeps_main_frame) (simp add: same_main_def)

lemma keeps_other_writes:
  "keeps P (SetStoryOverride X' lot p)" "keeps P (cache_Delete c key)" "keeps P (AlertOnce X' n key t b w)"
proof -
  have ov: "keeps P (override_body X' lot p)"
    unfolding override_body_def Let_def
    by (intro keeps_intros tables keeps_execC, auto simp: same_main_def write_override_sql_def audit_sql_def mirror_sql_def
        split: option.splits elim!: main_predD [OF main])
  show "keeps P (SetStoryOverride X' lot p)"
    unfolding SetStoryOverride_def by (rule keeps_txC [OF tables ov draws_override_body])
  show "keeps P (cache_Delete c key)"
    unfolding cache_Delete_def
    by (intro keeps_intros keeps_main_frame) (simp add: modifyC_def redis_same_main)
  show "keeps P (AlertOnce X' n key t b w)"
    unfolding AlertOnce_def Alert_def allow_alert_def
    by (intro keeps_intros keeps_kafka keeps_envelope keeps_main_frame)
       (auto simp: same_main_def split: option.split)
qed

text \<open>Publishing a code, resolving one, and a request on the whole.\<close>

lemma keeps_rows [keeps_intros]: "keeps P (LotQRPublishedRow X' lot token url)" "keeps P (LotQRRevokedRow X' lot token)"
  unfolding LotQRPublishedRow_def LotQRRevokedRow_def by (intro keeps_intros keeps_envelope)+

lemma keeps_resolve: "keeps P (resolvePublicQR cfg token url counted)"
  unfolding resolvePublicQR_def Let_def
  by (intro keeps_intros tables scanning)

lemma keeps_cached: "keeps P load \<Longrightarrow> keeps P (GetOrSet c key marshal unmarshal load)"
  by (rule keeps_GetOrSet) (blast intro: main_predD [OF main] redis_same_main)+

lemma keeps_reads:
  "keeps P Ping" "keeps P (ListEvents f)" "keeps P (ListEventsForEntity ty b n)" "keeps P (GetLotQRByLotID lot)"
  "keeps P (GetQRRegisterRow lot)" "keeps P (ListQRRegister X' rf)" "keeps P (ListChain b n)" "keeps P (VerifyChain X')"
  "keeps P (Anchoring.List sv n)" "keeps P (Latest sv)" "keeps P (Service_Proof sv k)" "keeps P (ListAPIAuditLogs n)"
  "keeps P (MonitoringSummary kafka)" "keeps P (RecentDeadLetters n)" "keeps P (APIMonitoringActivity n)"
  unfolding Ping_def ListEvents_def ListEventsForEntity_def listEvents_def GetLotQRByLotID_def GetQRRegisterRow_def ListQRRegister_def
    ListChain_def VerifyChain_def Anchoring.List_def ListAnchors_def Latest_def LatestAnchor_def Service_Proof_def
    AnchorCoveringSeq_def ChainLeafRange_def scanAnchor_def ListAPIAuditLogs_def
    MonitoringSummary_def APIMonitoringSummary_def RecentDeadLetters_def APIMonitoringActivity_def Let_def
  by (intro keeps_intros tables)+

lemma keeps_story: "keeps P (ComposeAndStoreLotStory X' cfg lot url)" "keeps P (ValidateLotPublish X' cfg lot)"
  unfolding ComposeAndStoreLotStory_def ValidateLotPublish_def Let_def
  by (intro keeps_intros tables main)+

lemma keepsH_reads:
  "keepsH P (Health a)" "keepsH P Ready" "keepsH P (GetBatchChain rq)" "keepsH P (GetCustodyChain a rq)"
  "keepsH P (VerifyCustodyChain X' a)" "keepsH P (handle_ListAnchors a rq)" "keepsH P (handle_LatestAnchor a)"
  "keepsH P (AnchorProof a rq)" "keepsH P (handle_ListEvents L rq)" "keepsH P (ListQRCodes X' a rq)" "keepsH P (GetQRCode a rq)"
  "keepsH P (handle_AuditLogs a rq)" "keepsH P (AdminMonitoringActivity a rq)" "keepsH P (AdminDeadLetters a rq)"
  unfolding Health_def Ready_def GetBatchChain_def GetCustodyChain_def VerifyCustodyChain_def handle_ListAnchors_def anchorDisabled_def
    handle_LatestAnchor_def AnchorProof_def handle_ListEvents_def ListQRCodes_def GetQRCode_def loadQRRow_def handle_AuditLogs_def
    AdminMonitoringActivity_def AdminDeadLetters_def audit_missing_def Let_def
  by (intro keepsH_intros keeps_reads)+

lemma keepsH_writes:
  "keepsH P (PublicQR X' L a rq)" "keepsH P (PublicQRPng L a rq)"
  "keepsH P (Handlers.RevokeLotQR X' a rq)" "keepsH P (PatchQRStory X' L a p rq)" "keepsH P (handle_CreateAnchor a)"
  unfolding PublicQR_def PublicQRPng_def ResolvePublicQR_def ResolvePublicQRNoCount_def Handlers.RevokeLotQR_def
    PatchQRStory_def loadQRRow_def handle_CreateAnchor_def anchorDisabled_def Let_def
  by (intro keepsH_intros keeps_intros keeps_cached keeps_resolve keeps_story keeps_other_writes keeps_reads
      revoking anchoring)+

lemma keepsH_publish:
  assumes "T (GeneratePublicToken rand)"
  shows "keepsH P (PublishLotQR X' a rand rq)"
  unfolding PublishLotQR_def Let_def
  by (intro keepsH_intros keeps_intros keeps_story keeps_other_writes publishing assms)

lemma keepsH_RecordEvent:
  assumes "\<forall>b. dec_event_body X L (rq_Body rq) = Inr b \<longrightarrow> jsonb_stable X (or_empty (eb_Payload b))"
  shows "keepsH P (RecordEvent X L a p rq)"
proof -
  have "keepsH P (tryH (AppendEvent X (ap_chain a) (event_input p now b)) (\<lambda>_. internal_error m)
      (\<lambda>ev. doH (AfterAppend X (ap_story a) (eb_EventType b) (eb_EntityType b) (eb_EntityBusinessID b) (merged_related b))
         (reply 201 (BEvent ev))))" if "dec_event_body X L (rq_Body rq) = Inr b" for b now m
    using assms that by (intro keepsH_intros append keeps_AfterAppend main) (simp_all add: event_input_def)
  then show ?thesis
    unfolding RecordEvent_def
    by (intro keepsH_intros) (auto simp: keepsH_def write_err_def split: option.split)
qed

lemma keepsH_Monitoring: "keepsH P (AdminMonitoringSummary a)"
  unfolding AdminMonitoringSummary_def audit_missing_def
  by (intro keepsH_intros keeps_reads) (simp add: keepsH_def reply_def)

lemma keepsH_frame:
  assumes "\<And>s. same_main s (f s)" and "keepsH P h"
  shows "keepsH P (\<lambda>s. h (f s))"
  using assms main_predD [OF main] unfolding keepsH_def by blast

lemma keepsH_middlewares:
  assumes "keepsH P h"
  shows "keepsH P (PublicRateLimit allow lc rq h)" "keepsH P (RequestAudit au rq p h)"
    "keepsH P (RequirePermission code p h)" "keepsH P (RequireAuth rq p h)"
proof -
  show "keepsH P (PublicRateLimit allow lc rq h)"
    unfolding keepsH_def
  proof (intro allI impI)
    fix s assume "P s"
    then have "P (s\<lparr>limits := m\<rparr>)" for m by (rule main_predD [OF main]) (simp add: same_main_def)
    with assms show "P (snd (PublicRateLimit allow lc rq h s))"
      by (simp add: PublicRateLimit_def limiter_step_def Let_def keepsH_def write_err_def split: prod.split)
  qed
  have log: "keeps P (ignoreC (LogAPIRequest r))" for r
    unfolding LogAPIRequest_def
    by (intro keeps_intros keeps_execC [OF tables], erule main_predD [OF main]) (auto simp: log_sql_def same_main_def)
  show "keepsH P (RequestAudit au rq p h)"
    using assms keepsD [OF log] by (auto simp: keepsH_def RequestAudit_def split: prod.split)
  show "keepsH P (RequirePermission code p h)" "keepsH P (RequireAuth rq p h)"
    unfolding RequirePermission_def RequireAuth_def by (intro keepsH_intros assms)+
qed

lemma keepsH_serve:
  assumes "\<forall>b. dec_event_body X L (rq_Body rq) = Inr b \<longrightarrow> jsonb_stable X (or_empty (eb_Payload b))"
    and "T (GeneratePublicToken rand)"
  shows "keepsH P (serve X L d rand rq)"
proof -
  have "keepsH P (dispatch X L a rand p (rq\<lparr>rq_Params := ps\<rparr>) t)" for a p ps t
    using assms by (cases t) (simp_all add: dispatch_def keepsH_reads keepsH_writes keepsH_publish keepsH_RecordEvent keepsH_Monitoring)
  then have "keepsH P (guarded d rq' p g (dispatch X L a rand p (rq\<lparr>rq_Params := ps\<rparr>) t))" for a p ps t g rq'
    unfolding guarded_def Let_def
    by (cases g) (auto intro!: keepsH_intros keepsH_middlewares)
  then have "keepsH P (routed X L d rand rq p)" for p
    unfolding routed_def Let_def by (intro keepsH_intros)
  then show ?thesis
    unfolding serve_def Let_def AttachPrincipal_def fromJWT_def
    by (intro keepsH_intros keepsH_middlewares)
qed

text \<open>The background loops.\<close>

lemma keeps_consumer:
  assumes "\<And>m ok e. Fetched m ok \<in> set ds \<Longrightarrow> decode_event parse (km_Value m) = Inr e \<Longrightarrow> jsonb_stable X (or_empty (ce_Data e))"
  shows "keeps P (consume_loop X parse c ds)"
proof (rule keeps_consume_loop [OF main])
  fix m ok assume m: "Fetched m ok \<in> set ds"
  show "keeps P (handleMessage X parse c m)"
    using assms [OF m]
    by (intro keeps_handleMessage main append marking) (simp add: consumer_input_def or_empty_def split: prod.split)
qed

lemma keeps_run:
  assumes "\<forall>e \<in> set (src_events src). jsonb_stable X (or_empty (se_payload e))" and "S src"
  shows "keeps P (Sync_Run X y src full)"
proof -
  have "keeps P (put_scm X y e)" if "e \<in> set (src_events src)" for e
    unfolding put_scm_def using assms that by (intro keeps_intros append) (simp add: scm_input_def)
  then show ?thesis
    unfolding Sync_Run_def sync_run_def loadMark_def Let_def
    by (intro keeps_intros keeps_page_loop tables marking copying assms(2) main)
qed

lemma keeps_commands:
  assumes "\<forall>e \<in> set (src_events src). jsonb_stable X (or_empty (se_payload e))" and "S src"
  shows "keeps P (Tick X y src n)" "keeps P (migrate_scm X O' env src)"
  unfolding Tick_def migrate_scm_def
  by (intro keeps_intros keeps_run assms)+

lemma keeps_relay: "keeps P (drain X' dec r ended)"
proof -
  have outbox: "keeps P (MarkOutboxPublished i)" "keeps P (MarkOutboxFailed i e)" for i e
    unfolding MarkOutboxPublished_def MarkOutboxFailed_def
    by (intro keeps_intros keeps_execC [OF tables], erule main_predD [OF main],
        auto simp: same_main_def update_outbox_def split: if_splits)+
  have "keeps P (drain_loop X' dec r ended i rows)" for i rows
    by (induction rows arbitrary: i)
       (auto simp: PublishEnvelope_def split: option.split intro!: keeps_intros outbox keeps_kafka)
  then show ?thesis
    unfolding drain_def FetchUnpublishedOutbox_def by (intro keeps_intros tables)
qed

lemma keeps_notary: "keeps P (anchorJobLoop sv n)"
proof (induction n)
  case (Suc n)
  then show ?case unfolding anchorJobLoop.simps by (intro keeps_intros anchoring)
qed (simp add: keeps_retC)

theorem step_keeps:
  assumes "service_step B D s s'" and B: "lb_ext B = X" and TS: "allows B T S" and s: "P s"
  shows "P s'"
  using assms(1)
proof cases
  case (request rq rand keys)
  then have "keepsH P (serve X (lb_web B) (dp_router D keys) rand rq)"
    using B TS by (intro keepsH_serve) (simp_all add: good_request_def allows_def)
  from keepsHD [OF this s] show ?thesis by (simp add: request B)
next
  case (message c m ok)
  then have "keeps P (consume_loop X (lb_parse B) c [Fetched m ok])"
    using B by (intro keeps_consumer) (auto simp: good_message_def)
  from keepsD [OF this s] show ?thesis by (simp only: message B)
next
  case (sync y src n)
  then have "keeps P (Tick X y src n)" using B TS by (intro keeps_commands) (simp_all add: good_source_def allows_def)
  from keepsD [OF this s] show ?thesis by (simp only: sync B)
next
  case (relay r ended)
  show ?thesis using keepsD [OF keeps_relay s] by (simp only: relay B)
next
  case (notary sv interval)
  show ?thesis using keepsD [OF keeps_notary s] by (simp only: notary)
next
  case (chained O' env dry)
  have "keeps P (chain_backfill X O' env dry)" unfolding chain_backfill_def by (intro keeps_intros backfilling)
  from keepsD [OF this s] show ?thesis by (simp only: chained B)
next
  case (migrated src O' env)
  then have "keeps P (migrate_scm X O' env src)" using B TS by (intro keeps_commands) (simp_all add: good_source_def allows_def)
  from keepsD [OF this s] show ?thesis by (simp only: migrated B)
next
  case (world now kept db_script broker redis)
  show ?thesis unfolding world(1) by (rule main_predD [OF main s]) (simp add: same_main_def)
qed

theorem reaches_keeps:
  assumes "reaches B D s s'" and "lb_ext B = X" and "allows B T S" and "P s"
  shows "P s'"
  using assms by (induction rule: reaches.induct) (auto intro: step_keeps)

end

section \<open>The writers, statement by statement\<close>

lemma keeps_append_statements:
  assumes "tables_only P" and "\<And>i. keeps P (execC (insert_event_sql X i))" and "\<And>b. keeps P (execC (insert_chain_sql X b))"
  shows "keeps P (AppendEvent X ce i)"
  unfolding AppendEvent_def Let_def appendEventChained_def append_body_def chain_lock_def
  by (intro keeps_intros keeps_txC draws_insert_event draws_insert_chain assms)

lemma keeps_backfill_statements:
  assumes "tables_only P" and "\<And>X b. keeps P (execC (insert_chain_sql X b))"
  shows "keeps P (backfill X dry)"
proof -
  have "keeps P (backfill_loop X head ps)" for head ps
    by (induction X head ps rule: backfill_loop.induct) (auto simp: Let_def intro!: keeps_intros assms)
  then show ?thesis
    unfolding backfill_def
    by (intro keeps_tx_earlyC draws_backfill_body assms) (auto simp: backfill_body_def chain_lock_def intro!: keeps_intros assms)
qed

lemma keeps_CreateAnchor_statements:
  assumes "tables_only P" and "\<And>a. keeps P (execC (insert_anchor_sql a))"
  shows "keeps P (CreateAnchor sv)"
  unfolding CreateAnchor_def plan_anchor_def publish_anchor_def InsertAnchor_def ChainHeadSeq_def LastAnchoredSeq_def
    ChainLeafRange_def Let_def
  by (intro keeps_intros assms)

text \<open>A predicate on ledger, chain and anchors survives all that is written to the QR codes and the bookkeeping.\<close>

lemma ledger_main_invariant:
  fixes P :: "'z web_scheme \<Rightarrow> bool"
  assumes P: "ledger_pred P"
    and "\<And>ce i. jsonb_stable X (or_empty (in_Payload i)) \<Longrightarrow> keeps P (AppendEvent X ce i)"
    and "\<And>sv. keeps P (CreateAnchor sv)" and "\<And>dry. keeps P (backfill X dry)"
  shows "main_invariant X (\<lambda>_. True) (\<lambda>_. True) P"
proof
  note ex = keeps_ledger_exec [OF P]
  have tables: "tables_only P" by (rule main_pred_tables [OF ledger_pred_main [OF P]])
  show "main_pred P" by (rule ledger_pred_main [OF P])
  show "keeps P (UpsertLotQRTx lot token row)" "keeps P (RevokeLotQRTx lot row)" for lot token row
    unfolding UpsertLotQRTx_def RevokeLotQRTx_def
    by (rule keeps_txC [OF tables]; intro keeps_intros draws_qr;
        auto simp: upsertLotQR_def revokeLotQR_def enqueueOutbox_def upsert_qr_sql_def revoke_qr_sql_def enqueue_sql_def Let_def
        intro!: keeps_intros ex split: if_splits)+
  show "keeps P (IncrementScanCount token)" for token
    unfolding IncrementScanCount_def by (rule ex) (auto simp: increment_sql_def split: if_splits)
  show "keeps P (execC (mark_seen_sql k u))" for k u
    by (rule ex) (auto simp: mark_seen_sql_def split: if_splits)
  show "keeps P (copyQRCodes src)" "keeps P (saveMark m)" "keeps P (saveRun err)" for src m err
    by (rule keeps_sync_writes [OF P])+
qed (rule assms; assumption)+

section \<open>The invariant of ledger, chain and anchors\<close>

definition ledger_inv :: "ext \<Rightarrow> 'z db_scheme \<Rightarrow> bool" where
  "ledger_inv X s \<longleftrightarrow> store_ok X s \<and> stored_payloads_ok X s \<and> anchors_ok s"

lemma ledger_pred_inv: "ledger_pred (ledger_inv X)"
proof -
  have "anchors_ok s' \<and> stored_payloads_ok X s'"
    if "trace_events s' = trace_events s" "custody_chain s' = custody_chain s" "anchor_batches s' = anchor_batches s"
      "anchors_ok s" "stored_payloads_ok X s" for s s' :: "'z db_scheme"
    using that by (simp add: anchors_ok_def anchor_sound_def anchored_def block_count_def stored_payloads_ok_def)
  with ledger_pred_store_ok [of X] show ?thesis unfolding ledger_pred_def ledger_inv_def by blast
qed

lemma ledger_inv_append:
  assumes "jsonb_idem X" and "jsonb_stable X (or_empty (in_Payload i))"
  shows "keeps (ledger_inv X) (AppendEvent X ce i)"
proof (rule keepsI)
  fix s :: "'a db_scheme" let ?s' = "snd (AppendEvent X ce i s)"
  assume "ledger_inv X s"
  then have s: "store_ok X s" "stored_payloads_ok X s" "anchors_ok s" by (simp_all add: ledger_inv_def)
  from keepsD [OF keeps_AppendEvent [OF assms(2)] s(1)] have st: "store_ok X ?s'" .
  then have "chain_ok X ?s'" by (simp add: store_ok_def)
  from anchors_ok_grown(1) [OF s(3) keepsD [OF keeps_grown_AppendEvent grown_refl] this] have "anchors_ok ?s'" .
  with st keepsD [OF keeps_stored_payloads [OF assms(1)] s(2)] show "ledger_inv X ?s'" by (simp add: ledger_inv_def)
qed

lemma ledger_inv_anchor: "keeps (ledger_inv X) (CreateAnchor sv)"
proof (rule keepsI)
  fix s :: "'a db_scheme" let ?s' = "snd (CreateAnchor sv s)"
  assume s: "ledger_inv X s"
  have "keeps ledger_ok (CreateAnchor sv)"
    by (intro keeps_CreateAnchor_statements tables_only_ledger keeps_execC)
       (auto simp: insert_anchor_sql_Inr ledger_ok_def intro: less_SucI)
  moreover obtain r where "CreateAnchor sv s = (r, ?s')" by (metis prod.collapse)
  ultimately show "ledger_inv X ?s'"
    using s CreateAnchor_keeps [of X s sv r ?s'] keepsD by (auto simp: ledger_inv_def store_ok_def stored_payloads_ok_def)
qed

lemma ledger_inv_backfill: "keeps (ledger_inv X) (backfill X dry)"
proof (rule keepsI)
  fix s :: "'a db_scheme" let ?s' = "snd (backfill X dry s)"
  assume s: "ledger_inv X s"
  then have ok: "anchors_ok s" by (simp add: ledger_inv_def)
  obtain r where "backfill X dry s = (r, ?s')" by (metis prod.collapse)
  with s have st: "store_ok X ?s'" "trace_events ?s' = trace_events s"
    using backfill_effect [of X s dry r ?s'] by (auto simp: ledger_inv_def)
  then have "chain_ok X ?s'" by (simp add: store_ok_def)
  from anchors_ok_grown(1) [OF ok keepsD [OF keeps_grown_backfill grown_refl] this] have "anchors_ok ?s'" .
  with st show "ledger_inv X ?s'" using s by (simp add: ledger_inv_def stored_payloads_ok_def)
qed

lemma keeps_imp: "(C \<Longrightarrow> keeps P m) \<Longrightarrow> keeps (\<lambda>s. C \<longrightarrow> P s) m"
  by (auto simp: keeps_def)

interpretation ledger: main_invariant X "\<lambda>_. True" "\<lambda>_. True" "\<lambda>s :: 'z web_scheme. jsonb_idem X \<longrightarrow> ledger_inv X s" for X
proof (rule ledger_main_invariant)
  show "ledger_pred (\<lambda>s. jsonb_idem X \<longrightarrow> ledger_inv X s)"
    using ledger_pred_inv [of X] unfolding ledger_pred_def by blast
qed (intro keeps_imp ledger_inv_append ledger_inv_anchor ledger_inv_backfill; assumption)+

section \<open>History\<close>

text \<open>Events, blocks and anchors are only ever added, behind those that are there.\<close>

definition history_extends :: "trace_row list \<Rightarrow> chain_row list \<Rightarrow> AnchorRow list \<Rightarrow> 'z db_scheme \<Rightarrow> bool" where
  "history_extends es bs as s \<longleftrightarrow> (\<exists>new. trace_events s = es @ new) \<and> (\<exists>new. custody_chain s = bs @ new) \<and>
     (\<exists>new. anchor_batches s = as @ new)"

lemma history_extends_refl: "history_extends (trace_events s) (custody_chain s) (anchor_batches s) s"
  by (simp add: history_extends_def)

lemma tables_only_history: "tables_only (history_extends es bs as)"
  by (simp add: tables_only_def history_extends_def)

lemma history_statements:
  "keeps (history_extends es bs as) (execC (insert_event_sql X i))"
  "keeps (history_extends es bs as) (execC (insert_chain_sql X b))"
  "keeps (history_extends es bs as) (execC (insert_anchor_sql a))"
  by (rule keeps_execC [OF tables_only_history],
      auto elim!: insert_event_sql_Inr simp: history_extends_def insert_chain_sql_Inr insert_anchor_sql_Inr)+

interpretation history: main_invariant X "\<lambda>_. True" "\<lambda>_. True" "history_extends es bs as :: 'z web_scheme \<Rightarrow> bool" for X es bs as
proof (rule ledger_main_invariant)
  show "ledger_pred (history_extends es bs as)" by (simp add: ledger_pred_def history_extends_def)
qed (intro keeps_append_statements keeps_backfill_statements keeps_CreateAnchor_statements history_statements tables_only_history)+

section \<open>QR codes and handled messages\<close>

definition registers_ok :: "'z db_scheme \<Rightarrow> bool" where
  "registers_ok s \<longleftrightarrow> qr_ok s \<and> distinct (map fst (kafka_dedupe s))"

lemma main_pred_registers: "main_pred registers_ok"
  by (simp add: main_pred_def same_main_def registers_ok_def qr_ok_def)

lemmas registers_exec = keeps_execC [OF main_pred_tables [OF main_pred_registers]]

lemma registers_qr:
  "keeps registers_ok (UpsertLotQRTx lot token row)" "keeps registers_ok (RevokeLotQRTx lot row)"
  "keeps registers_ok (IncrementScanCount token)" "keeps registers_ok (copyQRCodes src)"
proof -
  have up: "keeps registers_ok (upsertLotQR lot token)"
    unfolding upsertLotQR_def
  proof (rule registers_exec)
    show "registers_ok s'" if "registers_ok s" "upsert_qr_sql lot token s = Inr (u, s')" for s u s'
      using that publish_step_current [of s lot token s']
      by (auto simp: registers_ok_def publish_step_def upsert_qr_sql_def split: if_splits)
  qed
  have re: "keeps registers_ok (revokeLotQR lot)"
    unfolding revokeLotQR_def
    by (intro keeps_intros registers_exec)
       (auto simp: registers_ok_def qr_ok_def revoke_qr_sql_def Let_def map_update_same simp del: map_map)
  have out: "keeps registers_ok (enqueueOutbox row)"
    unfolding enqueueOutbox_def by (rule registers_exec) (auto simp: registers_ok_def qr_ok_def enqueue_sql_def split: if_splits)
  show "keeps registers_ok (UpsertLotQRTx lot token row)" "keeps registers_ok (RevokeLotQRTx lot row)"
    unfolding UpsertLotQRTx_def RevokeLotQRTx_def
    by (rule keeps_txC [OF main_pred_tables [OF main_pred_registers]]; intro keeps_intros draws_qr up re out)+
  show "keeps registers_ok (IncrementScanCount token)"
    unfolding IncrementScanCount_def
    by (rule registers_exec) (auto simp: registers_ok_def qr_ok_def increment_sql_def map_update_same simp del: map_map split: if_splits)
  show "keeps registers_ok (copyQRCodes src)"
    unfolding copyQRCodes_def copy_qr_def
    by (intro keeps_intros registers_exec main_pred_tables main_pred_registers)
       (auto simp: registers_ok_def qr_ok_def insert_qr_sql_def list_ex_iff split: if_splits)
qed

interpretation registers: main_invariant X "\<lambda>_. True" "\<lambda>_. True" "registers_ok :: 'z web_scheme \<Rightarrow> bool" for X
proof
  note frame = main_predD [OF main_pred_registers]
  have reg: "tables_only registers_ok" by (rule main_pred_tables [OF main_pred_registers])
  have st: "keeps registers_ok (execC (insert_event_sql X i))" "keeps registers_ok (execC (insert_chain_sql X b))"
    "keeps registers_ok (execC (insert_anchor_sql a))" for X i b a
    by (rule registers_exec, auto elim!: insert_event_sql_Inr simp: registers_ok_def qr_ok_def insert_chain_sql_Inr insert_anchor_sql_Inr)+
  show "keeps registers_ok (AppendEvent X ce i)" "keeps registers_ok (CreateAnchor sv)" "keeps registers_ok (backfill X dry)"
    for ce i sv dry
    by (intro keeps_append_statements keeps_CreateAnchor_statements keeps_backfill_statements st reg)+
  show "keeps registers_ok (execC (mark_seen_sql k u))" for k u
    by (rule registers_exec) (auto simp: registers_ok_def qr_ok_def mark_seen_sql_def list_ex_iff split: if_splits)
  show "keeps registers_ok (saveMark m)" "keeps registers_ok (saveRun err)" for m err
    unfolding saveMark_def saveRun_def
    by (intro keeps_intros registers_exec, auto simp: registers_ok_def qr_ok_def)+
qed (rule registers_qr main_pred_registers)+

section \<open>Revoked codes\<close>

text \<open>A lot has a code, and whatever row has the token is revoked.\<close>

definition code_revoked :: "string \<Rightarrow> string \<Rightarrow> 'z db_scheme \<Rightarrow> bool" where
  "code_revoked lot token s \<longleftrightarrow> lot \<in> qr_lot_business_id ` set (lot_qr_codes s) \<and>
     (\<forall>r \<in> set (lot_qr_codes s). qr_public_token r = token \<longrightarrow> qr_revoked_at r \<noteq> None)"

lemma main_pred_revoked: "main_pred (code_revoked lot token)"
  by (simp add: main_pred_def same_main_def code_revoked_def)

lemmas revoked_exec = keeps_execC [OF main_pred_tables [OF main_pred_revoked]]

lemma revoked_rows:
  assumes "\<And>r. qr_lot_business_id (g r) = qr_lot_business_id r"
    and "\<And>r. qr_public_token (g r) = token \<Longrightarrow> qr_public_token r = token \<and> (qr_revoked_at r \<noteq> None \<longrightarrow> qr_revoked_at (g r) \<noteq> None)"
    and "code_revoked lot token s" and "lot_qr_codes s' = map g (lot_qr_codes s)"
  shows "code_revoked lot token s'"
proof -
  have "qr_lot_business_id ` set (lot_qr_codes s') = qr_lot_business_id ` set (lot_qr_codes s)"
    by (simp add: assms(4) image_image assms(1))
  with assms(2-4) show ?thesis by (auto simp: code_revoked_def)
qed

lemma upsert_revoked:
  assumes "t \<noteq> token" and "code_revoked lot token s" and "upsert_qr_sql l t s = Inr (u, s')"
  shows "code_revoked lot token s'"
proof (cases "list_ex (\<lambda>r. qr_lot_business_id r = l) (lot_qr_codes s)")
  case True
  show ?thesis
  proof (rule revoked_rows [OF _ _ assms(2)])
    show "lot_qr_codes s' = map (\<lambda>r. if qr_lot_business_id r = l
        then r\<lparr>qr_public_token := t, qr_version := qr_version r + 1, qr_published_at := Some (now_us s),
               qr_revoked_at := None, qr_updated_at := now_us s\<rparr> else r) (lot_qr_codes s)"
      using assms(3) True by (auto simp: upsert_qr_sql_def split: if_splits)
  qed (use assms(1) in \<open>auto split: if_splits\<close>)
qed (use assms in \<open>auto simp: upsert_qr_sql_def code_revoked_def split: if_splits\<close>)

lemma revoke_revoked:
  assumes "code_revoked lot token s" and "revoke_qr_sql l s = Inr (n, s')"
  shows "code_revoked lot token s'"
proof (rule revoked_rows [OF _ _ assms(1)])
  show "lot_qr_codes s' = map (\<lambda>r. if qr_lot_business_id r = l \<and> qr_revoked_at r = None
      then r\<lparr>qr_revoked_at := Some (now_us s), qr_updated_at := now_us s\<rparr> else r) (lot_qr_codes s)"
    using assms(2) by (auto simp: revoke_qr_sql_def Let_def)
qed (auto split: if_splits)

lemma increment_revoked:
  assumes "code_revoked lot token s" and "increment_sql t s = Inr (n, s')"
  shows "code_revoked lot token s'"
proof (rule revoked_rows [OF _ _ assms(1)])
  show "lot_qr_codes s' = map (\<lambda>r. if qr_public_token r = t
      then r\<lparr>qr_scan_count := qr_scan_count r + 1, qr_updated_at := now_us s\<rparr> else r) (lot_qr_codes s)"
    using assms(2) by (auto simp: increment_sql_def split: if_splits)
qed (auto split: if_splits)

text \<open>\<open>token\<close> is not drawn again, and the supply chain has it for this lot if at all.\<close>

interpretation revoked: main_invariant X "\<lambda>t. t \<noteq> token" "\<lambda>src. \<forall>q \<in> set (src_qrs src). sq_token q = token \<longrightarrow> sq_lot q = lot"
  "code_revoked lot token :: 'z web_scheme \<Rightarrow> bool" for X lot token
proof
  have tab: "tables_only (code_revoked lot token)" by (rule main_pred_tables [OF main_pred_revoked])
  have st: "keeps (code_revoked lot token) (execC (insert_event_sql X i))" "keeps (code_revoked lot token) (execC (insert_chain_sql X b))"
    "keeps (code_revoked lot token) (execC (insert_anchor_sql a))" for X i b a
    by (rule revoked_exec, auto elim!: insert_event_sql_Inr simp: code_revoked_def insert_chain_sql_Inr insert_anchor_sql_Inr)+
  show "keeps (code_revoked lot token) (AppendEvent X ce i)" "keeps (code_revoked lot token) (CreateAnchor sv)"
    "keeps (code_revoked lot token) (backfill X dry)" for ce i sv dry
    by (intro keeps_append_statements keeps_CreateAnchor_statements keeps_backfill_statements st tab)+
  have out: "keeps (code_revoked lot token) (enqueueOutbox row)" for row
    unfolding enqueueOutbox_def by (rule revoked_exec) (auto simp: code_revoked_def enqueue_sql_def split: if_splits)
  have up: "keeps (code_revoked lot token) (upsertLotQR l t)" if "t \<noteq> token" for l t
    unfolding upsertLotQR_def
    by (rule revoked_exec) (rule upsert_revoked [OF that])
  have re: "keeps (code_revoked lot token) (revokeLotQR l)" for l
    unfolding revokeLotQR_def
    by (intro keeps_intros revoked_exec) (rule revoke_revoked)
  show "keeps (code_revoked lot token) (UpsertLotQRTx l t row)" if "t \<noteq> token" for l t row
    unfolding UpsertLotQRTx_def by (rule keeps_txC [OF tab]; intro keeps_intros draws_qr up out that)
  show "keeps (code_revoked lot token) (RevokeLotQRTx l row)" for l row
    unfolding RevokeLotQRTx_def by (rule keeps_txC [OF tab]; intro keeps_intros draws_qr re out)
  show "keeps (code_revoked lot token) (IncrementScanCount t)" for t
    unfolding IncrementScanCount_def
    by (rule revoked_exec) (rule increment_revoked)
  show "keeps (code_revoked lot token :: 'z web_scheme \<Rightarrow> bool) (copyQRCodes src)" if "\<forall>q \<in> set (src_qrs src). sq_token q = token \<longrightarrow> sq_lot q = lot" for src
    unfolding copyQRCodes_def
  proof (rule keeps_bindC_result)
    show "keeps (code_revoked lot token :: 'z web_scheme \<Rightarrow> bool) (forC qs copy_qr)"
      if "wrapC ''read public.lot_qr_codes'' (queryC (\<lambda>_. src_qrs src)) s = (Inr qs, s')" for s qs and s' :: "'z web_scheme"
    proof -
      have "qs = src_qrs src" using that by (simp add: queryC_Inr_iff)
      with \<open>\<forall>q \<in> set (src_qrs src). sq_token q = token \<longrightarrow> sq_lot q = lot\<close> show ?thesis
        unfolding copy_qr_def
        by (intro keeps_intros revoked_exec tab main_pred_revoked)
           (auto simp: code_revoked_def insert_qr_sql_def list_ex_iff split: if_splits)
    qed
  qed (intro keeps_intros tab)
  show "keeps (code_revoked lot token) (execC (mark_seen_sql k u))" for k u
    by (rule revoked_exec) (auto simp: code_revoked_def mark_seen_sql_def split: if_splits)
  show "keeps (code_revoked lot token) (saveMark m)" "keeps (code_revoked lot token) (saveRun err)" for m err
    unfolding saveMark_def saveRun_def
    by (intro keeps_intros revoked_exec, auto simp: code_revoked_def)+
qed (rule main_pred_revoked)

end
