(* ===== verification/System.thy ===== *)
theory System
  imports SystemSteps
begin

text \<open>
  What the running service promises: books in order, a history that only grows, events that stay once
  accepted, evidence that stays once anchored, and codes that stay dead once revoked.
\<close>

section \<open>Properties of the running service\<close>

text \<open>A database after its migrations.\<close>

definition empty_tables :: "'z db_scheme \<Rightarrow> bool" where
  "empty_tables s \<longleftrightarrow> trace_events s = [] \<and> custody_chain s = [] \<and> anchor_batches s = [] \<and> lot_qr_codes s = [] \<and> kafka_dedupe s = []"

lemma empty_tables_ok:
  assumes "empty_tables s"
  shows "ledger_inv X s" "registers_ok s"
  using assms
  by (simp_all add: empty_tables_def ledger_inv_def store_ok_def ledger_ok_def chain_ok_def stored_payloads_ok_def anchors_ok_def
      registers_ok_def qr_ok_def)

lemma reaches_ok:
  assumes "reaches B D s0 s" and "empty_tables s0" and "jsonb_idem (lb_ext B)"
  shows "ledger_inv (lb_ext B) s" "registers_ok s"
  using ledger.reaches_keeps [OF assms(1) refl allows_all] registers.reaches_keeps [OF assms(1) refl allows_all] empty_tables_ok [OF assms(2)] assms(3)
  by blast+

lemma reaches_history:
  assumes "reaches B D s s'"
  shows "history_extends (trace_events s) (custody_chain s) (anchor_batches s) s'"
  using history.reaches_keeps [OF assms refl allows_all] history_extends_refl by blast

text \<open>
  C3. The books of the running service are always in order.  From empty tables, after any interleaving
  of requests, Kafka messages, syncs, relay passes, notary jobs and backfills, with any failures of the
  database, the broker and the cache: ids and keys of events are unique, the custody chain is numbered,
  linked and belongs to stored events, every anchor states the Merkle root of its range and anchors
  cover the chain from its start, no lot and no token has two QR codes, no message is marked twice; and
  verifying the chain on a healthy database says valid and counts every block.
\<close>

theorem service_books_in_order:
  assumes "reaches B D s0 s" and "empty_tables s0" and "jsonb_idem (lb_ext B)"
  shows "store_ok (lb_ext B) s \<and> anchors_ok s \<and> qr_ok s \<and> distinct (map fst (kafka_dedupe s)) \<and>
    (script s = [] \<longrightarrow> (\<exists>res. VerifyChain (lb_ext B) s = (Inr res, s) \<and> vr_IsValid res \<and>
       vr_CheckedCount res = length (custody_chain s)))"
proof -
  note ok = reaches_ok [OF assms]
  then have c: "chain_ok (lb_ext B) s" by (simp add: ledger_inv_def store_ok_def)
  then have "vr_IsValid (verify_rows (lb_ext B) (by_seq (custody_chain s)))"
    using chain_ok_sorted [OF c] by (simp add: verify_rows_spec by_seq_def chain_ok_def)
  with ok show ?thesis
    by (simp add: ledger_inv_def registers_ok_def VerifyChain_def healthy verify_rows_spec by_seq_def)
qed

text \<open>
  C9. History is never rewritten.  No part of the service, whatever happens around it, removes or changes
  an event, a block or an anchor: each table is at any later time what it was, with rows added behind.
\<close>

theorem service_history_append_only:
  assumes "reaches B D s s'"
  shows "\<exists>es bs as. trace_events s' = trace_events s @ es \<and> custody_chain s' = custody_chain s @ bs \<and>
    anchor_batches s' = anchor_batches s @ as"
  using reaches_history [OF assms] unfolding history_extends_def by blast

lemma chained_append:
  assumes "AppendEvent X True i s = (Inr ev, s')" and "ev_Inserted ev" and "EqualFold (in_EntityType i) ''batch''"
  shows "\<exists>b \<in> set (custody_chain s'). cc_trace_event_id b = te_id ev"
proof -
  let ?i = "append_defaults (now_us s) i"
  from assms have run: "fst (appendEventChained X ?i s) = Inr ev" "snd (appendEventChained X ?i s) = s'"
    by (simp_all add: AppendEvent_batch)
  show ?thesis
  proof (cases rule: appendEventChained_effect [of s X ?i, case_names same grown])
    case same
    then show ?thesis using run assms(2) by (auto simp: returned_event_def)
  next
    case (grown r rel t pay s1 s2)
    then show ?thesis
      using ticks_db(2) [OF grown(8)] run by (auto simp: insert_chain_sql_Inr input_block_def make_block_def Let_def returned_event_def)
  qed
qed

text \<open>
  C7. What was accepted stays.  When \<open>RecordEvent\<close> answers 201, the event it returns is in the ledger at
  every later time, whatever else the service does; and when it is a new batch event and the chain is
  switched on, it has a block in the custody chain at every later time.
\<close>

theorem accepted_event_stays:
  assumes "RecordEvent X L a p rq s = (Answer 201 (BEvent ev), t)" and "reaches B D t s'"
  shows "\<exists>r \<in> set (trace_events s'). te_id r = te_id ev \<and>
    (ap_chain a \<and> ev_Inserted ev \<and> te_entity_type r = ''batch'' \<longrightarrow>
       (\<exists>b \<in> set (custody_chain s'). cc_trace_event_id b = te_id ev))"
proof -
  from assms(1) obtain i m u where run: "AppendEvent X (ap_chain a) i s = (Inr ev, u)"
    and t: "t = snd (AfterAppend X (ap_story a) (in_EventType i) (in_EntityType i) (in_EntityBusinessID i) m u)"
    by (auto simp: RecordEvent_def tryH_def doH_def reply_def write_err_def BadRequest_def internal_error_def event_input_def
        split: sum.splits option.splits prod.splits)
  let ?H = "history_extends (trace_events u) (custody_chain u) (anchor_batches u)"
  have H: "?H t" unfolding t by (rule keepsD [OF keeps_AfterAppend [OF history.main] history_extends_refl])
  from history.reaches_keeps [OF assms(2) refl allows_all H] have later: "set (trace_events u) \<subseteq> set (trace_events s')"
    "set (custody_chain u) \<subseteq> set (custody_chain s')" by (auto simp: history_extends_def)
  from AppendEvent_recorded [OF run] obtain r where r: "r \<in> set (trace_events u)" "te_id r = te_id ev"
    and new: "ev_Inserted ev \<longrightarrow> te_entity_type r = in_EntityType i"
    by (auto simp: records_def append_defaults_def Let_def split: if_splits)
  have "\<exists>b \<in> set (custody_chain u). cc_trace_event_id b = te_id ev"
    if "ap_chain a" "ev_Inserted ev" "te_entity_type r = ''batch''"
    using chained_append [of X i s ev u] run that new by (auto simp: EqualFold_def)
  with r later show ?thesis by blast
qed

lemma proof_of_block:
  assumes "chain_ok X s" and "anchors_ok s" and "script s = []" and "a \<in> set (anchor_batches s)" and "1 \<le> k" and "k \<le> an_ToSeq a"
  shows "\<exists>p. Service_Proof sv k s = (Inr p, s) \<and> auditor_accepts p \<and> pf_Leaf p = cc_event_hash (custody_chain s ! nat (k - 1))"
proof -
  have "anchored s k" using assms(2,4-6) by (auto simp: anchors_ok_def)
  with Service_Proof_healthy [OF assms(1-3)] obtain p where run: "Service_Proof sv k s = (Inr p, s)" by blast
  from Service_Proof_answer [OF assms(1,2) run] obtain b where b: "auditor_accepts p" "b \<in> set (custody_chain s)"
    "cc_seq_index b = k" "pf_Leaf p = cc_event_hash b" by blast
  have idx: "map cc_seq_index (custody_chain s) = [1..int (length (custody_chain s))]" using assms(1) by (simp add: chain_ok_def)
  from b(2) obtain j where j: "j < length (custody_chain s)" "custody_chain s ! j = b" by (auto simp: in_set_conv_nth)
  have "map cc_seq_index (custody_chain s) ! j = 1 + int j" unfolding idx using j(1) by (subst nth_upto) simp_all
  then have "nat (k - 1) = j" using j b(3) by simp
  with run b j show ?thesis by auto
qed

text \<open>
  C6. Evidence is permanent.  Once an anchor reaches up to a block, then at every later time the service
  has, on a healthy database, a proof for that block that an auditor accepts, and the leaf it proves is
  the hash the block had when it was anchored.
\<close>

theorem anchored_evidence_permanent:
  assumes "reaches B D s0 s" and "empty_tables s0" and "jsonb_idem (lb_ext B)"
    and "a \<in> set (anchor_batches s)" and "1 \<le> k" and "k \<le> an_ToSeq a"
    and "reaches B D s s'" and "script s' = []"
  shows "\<exists>p. Service_Proof sv k s' = (Inr p, s') \<and> auditor_accepts p \<and> pf_Leaf p = cc_event_hash (custody_chain s ! nat (k - 1))"
proof -
  note inv = reaches_ok(1) [OF assms(1-3)] reaches_ok(1) [OF reaches_trans [OF assms(7,1)] assms(2,3)]
  then have ok: "chain_ok (lb_ext B) s'" "anchors_ok s'" "anchor_sound s a"
    using assms(4) by (simp_all add: ledger_inv_def store_ok_def anchors_ok_def)
  from reaches_history [OF assms(7)] obtain bs where bs: "custody_chain s' = custody_chain s @ bs" "a \<in> set (anchor_batches s')"
    using assms(4) by (auto simp: history_extends_def)
  have "nat (k - 1) < length (custody_chain s)" using ok(3) assms(5,6) unfolding anchor_sound_def block_count_def by linarith
  with proof_of_block [OF ok(1,2) assms(8) bs(2) assms(5,6)] bs(1) show ?thesis by (simp add: nth_append)
qed

lemma code_revoked_here:
  assumes "qr_ok s" and "r \<in> set (lot_qr_codes s)" and "qr_revoked_at r \<noteq> None"
  shows "code_revoked (qr_lot_business_id r) (qr_public_token r) s"
  using assms by (auto simp: code_revoked_def qr_ok_def distinct_map inj_on_def)

text \<open>
  C10. A revoked code never comes back.  If a code is revoked, and the random source never gives its token
  again and the supply chain has the token for no other lot, then at every later time, after any
  publishing, copying, scanning and whatever else the service does, the token stands for no lot: its
  image is refused with 404 or 500, and so is every scan that is not answered from a payload cached before.
\<close>

theorem revoked_code_never_returns:
  assumes "reaches B D s s'" and "qr_ok s" and "r \<in> set (lot_qr_codes s)" and "qr_revoked_at r \<noteq> None"
    and "allows B (\<lambda>t. t \<noteq> qr_public_token r) (\<lambda>src. \<forall>q \<in> set (src_qrs src). sq_token q = qr_public_token r \<longrightarrow> sq_lot q = qr_lot_business_id r)"
    and "get_or_empty (rq_Params rq) ''token'' = qr_public_token r"
  shows "resolve_token s' (qr_public_token r) = None \<and>
    status_of (fst (PublicQRPng L a rq s')) \<in> {404, 500} \<and>
    (map_of (qr_cache s') (publicQRCacheKey (qr_public_token r)) = None \<longrightarrow> status_of (fst (PublicQR X L a rq s')) \<in> {404, 500})"
proof -
  have "code_revoked (qr_lot_business_id r) (qr_public_token r) s'"
    by (rule revoked.reaches_keeps [OF assms(1) refl assms(5) code_revoked_here [OF assms(2-4)]])
  then have gone: "resolve_token s' (qr_public_token r) = None"
    by (auto simp: resolve_token_def active_by_def code_revoked_def find_None_iff)
  have "status_of (fst (PublicQRPng L a rq s')) \<in> {404, 500}"
    unfolding PublicQRPng_def Let_def ResolvePublicQRNoCount_def assms(6)
    by (rule refused_scan, rule unresolved_refused, rule gone)
  with gone dead_scan [of rq s' X L a] show ?thesis by (simp add: dead_def assms(6))
qed

section \<open>A run\<close>

text \<open>
  From empty tables: one message about a received batch is chained, the notary anchors it, time passes.
\<close>

definition sample_library :: library where
  "sample_library = \<lparr>lb_ext = sample_ext, lb_web = sample_lib, lb_parse = sample_parse, lb_dec = (\<lambda>_. None),
     lb_random = (\<lambda>_. True), lb_source = (\<lambda>_. True)\<rparr>"

definition chaining_consumer :: Consumer where
  "chaining_consumer = sample_consumer\<lparr>cn_chain := True\<rparr>"

definition sample_deployment :: deployment where
  "sample_deployment = \<lparr>dp_router = (\<lambda>keys. \<lparr>rd_API = sample_api, rd_Audit = True, rd_PlatformAuth = None, rd_CORSOrigins = [],
       rd_limiter = \<lparr>lc_perMinute = Fin 60, lc_burst = 10\<rparr>, rd_allow = (\<lambda>_ _ _. True)\<rparr>),
     dp_consumer = Some chaining_consumer, dp_relay = None, dp_sync = None, dp_anchors = Some sample_service,
     dp_job = Some 1, dp_registers = False\<rparr>"

definition sample_start :: web where
  "sample_start = on_web (empty_db [] 100)"

lemma sample_start_tables:
  "empty_tables sample_start" "script sample_start = []" "kafka_dedupe sample_start = []"
  by (simp_all add: sample_start_def empty_tables_def on_web_def db.defs empty_db_def)

lemma first_append:
  assumes "script s = []" "trace_events s = []" "custody_chain s = []"
  shows "\<exists>ev r b. AppendEvent sample_ext True (consumer_input now ''e1'' ''scm.intake.received'' []) s =
    (Inr ev, s\<lparr>fresh_id := Suc (fresh_id s), trace_events := [r], custody_chain := [b]\<rparr>)"
proof -
  let ?in = "consumer_input now ''e1'' ''scm.intake.received'' []"
  let ?i = "append_defaults (now_us s) ?in"
  have i: "or_empty (in_Payload ?in) = []" "or_empty (in_RelatedIDs ?in) = []" "in_EntityType ?in = ''batch''"
    by (simp_all add: consumer_input_def mapEvent_def event_table_def or_empty_def)
  have st: "stored_under ?in [] = None" by (simp add: stored_under_def split: option.split)
  let ?r = "new_row ?i [] [] s"
  let ?s' = "s\<lparr>fresh_id := Suc (fresh_id s), trace_events := [?r], custody_chain := [input_block sample_ext (0, GenesisHash) ?in ?r]\<rparr>"
  have b: "append_body sample_ext ?i s = (Inr (returned_event ?i ?r True), ?s')"
    by (simp add: append_body_def chain_lock_def bindC_def handleC_def wrapC_def retC_def healthy assms st i
        insert_event_sql_def Let_def insert_chain_sql_def chain_head_def returned_event_def input_block_def make_block_def new_row_def)
  have "AppendEvent sample_ext True ?in s = (Inr (returned_event ?i ?r True), ?s')"
    using b assms(1) i(3) by (simp add: AppendEvent_def bindC_def handleC_def getC_def EqualFold_def appendEventChained_def healthy_txC)
  then show ?thesis by blast
qed

lemma sample_chained:
  "\<exists>s. reaches sample_library sample_deployment sample_start s \<and> script s = [] \<and> length (custody_chain s) = 1 \<and>
     anchor_batches s = [] \<and> chain_ok sample_ext s \<and> anchors_ok s"
proof -
  let ?c = chaining_consumer and ?w = sample_start
  obtain ev r b where app: "AppendEvent sample_ext True (consumer_input (now_us ?w) ''e1'' ''scm.intake.received'' []) (?w\<lparr>m_consumed := m_consumed ?w + 1\<rparr>) =
      (Inr ev, ?w\<lparr>m_consumed := m_consumed ?w + 1, fresh_id := Suc (fresh_id ?w), trace_events := [r], custody_chain := [b]\<rparr>)"
    using first_append [of "?w\<lparr>m_consumed := m_consumed ?w + 1\<rparr>" "now_us ?w"] sample_start_tables by (auto simp: empty_tables_def)
  define s1 where "s1 = snd (consume_loop sample_ext sample_parse ?c [Fetched sample_message True] ?w)"
  have s1: "script s1 = []" "length (custody_chain s1) = 1" "anchor_batches s1 = []"
    using sample_handled_by [of ?w ?c ev] app sample_start_tables
    by (simp_all add: s1_def chaining_consumer_def handleC_def bindC_def retC_def empty_tables_def)
  have "service_step sample_library sample_deployment ?w s1"
    using service_step.message [of sample_deployment ?c sample_library sample_message ?w True]
    by (simp add: s1_def sample_library_def sample_deployment_def good_message_def sample_stable)
  then have to1: "reaches sample_library sample_deployment ?w s1" by (rule reaches.further [OF reaches.here])
  have ext: "lb_ext sample_library = sample_ext" by (simp add: sample_library_def)
  then have "jsonb_idem (lb_ext sample_library)" by (simp add: sample_idem)
  from reaches_ok(1) [OF to1 sample_start_tables(1) this] have "chain_ok sample_ext s1" "anchors_ok s1"
    by (simp_all add: ext ledger_inv_def store_ok_def)
  with to1 s1 show ?thesis by blast
qed

lemma sample_anchored:
  assumes "script s = []" "length (custody_chain s) = 1" "anchor_batches s = []" "chain_ok sample_ext s" "anchors_ok s"
  shows "\<exists>row s'. CreateAnchor sample_service s = (Inr row, s') \<and> script s' = [] \<and> row \<in> set (anchor_batches s') \<and>
    an_ToSeq row = 1 \<and> custody_chain s' = custody_chain s"
proof -
  obtain row s' where an: "CreateAnchor sample_service s = (Inr row, s')" "script s' = []"
    using CreateAnchor_healthy [OF assms(4,5,1), of sample_service "[]"] assms(2,3)
    by (auto simp: sample_service_def NewService_def noneSigner_def last_anchored_def newest_anchors_def block_count_def)
  from CreateAnchor_keeps [OF assms(4,5) an(1)] an show ?thesis using assms(2) by (auto simp: block_count_def)
qed

lemma sample_run:
  "\<exists>s a. reaches sample_library sample_deployment sample_start s \<and> script s = [] \<and> length (custody_chain s) = 1 \<and>
     a \<in> set (anchor_batches s) \<and> an_ToSeq a = 1"
proof -
  obtain s1 where s1: "reaches sample_library sample_deployment sample_start s1" "script s1 = []" "length (custody_chain s1) = 1"
    "anchor_batches s1 = []" "chain_ok sample_ext s1" "anchors_ok s1" using sample_chained by blast
  from sample_anchored [OF s1(2-6)] obtain row s2 where an: "CreateAnchor sample_service s1 = (Inr row, s2)"
    and s2: "script s2 = []" "row \<in> set (anchor_batches s2)" "an_ToSeq row = 1" "custody_chain s2 = custody_chain s1" by blast
  have "s2 = snd (anchorJobLoop sample_service 1 s1)"
    using an by (simp add: bindC_def ignoreC_def handleC_def retC_def)
  then have "service_step sample_library sample_deployment s1 s2"
    using service_step.notary [of sample_deployment sample_service 1 sample_library s1] by (simp add: sample_deployment_def)
  with s1(1) have "reaches sample_library sample_deployment sample_start s2" by (rule reaches.further)
  with s1(3) s2 show ?thesis by auto
qed

theorem service_books_in_order_witness:
  "\<exists>s res. reaches sample_library sample_deployment sample_start s \<and> VerifyChain sample_ext s = (Inr res, s) \<and>
     vr_IsValid res \<and> vr_CheckedCount res = 1"
proof -
  obtain s where s: "reaches sample_library sample_deployment sample_start s" "script s = []" "length (custody_chain s) = 1"
    using sample_run by blast
  have "jsonb_idem (lb_ext sample_library)" by (simp add: sample_library_def sample_idem)
  from service_books_in_order [OF s(1) sample_start_tables(1) this] s show ?thesis by (auto simp: sample_library_def)
qed

theorem service_history_append_only_witness:
  "\<exists>s bs. reaches sample_library sample_deployment sample_start s \<and> custody_chain s = custody_chain sample_start @ bs \<and> bs \<noteq> []"
proof -
  obtain s where s: "reaches sample_library sample_deployment sample_start s" "length (custody_chain s) = 1"
    using sample_run by blast
  from service_history_append_only [OF s(1)] s sample_start_tables(1) show ?thesis
    by (intro exI [of _ s]) (auto simp: empty_tables_def)
qed

theorem anchored_evidence_permanent_witness:
  "\<exists>(s :: web) p. Service_Proof sample_service 1 s = (Inr p, s) \<and> auditor_accepts p \<and> pf_Leaf p = cc_event_hash (custody_chain s ! 0)"
proof -
  obtain s a where s: "reaches sample_library sample_deployment sample_start s" "script s = []"
    "a \<in> set (anchor_batches s)" "an_ToSeq a = 1"
    using sample_run by blast
  have "jsonb_idem (lb_ext sample_library)" by (simp add: sample_library_def sample_idem)
  from anchored_evidence_permanent [OF s(1) sample_start_tables(1) this s(3), of 1 s sample_service] s(2,4)
    reaches.here [of sample_library sample_deployment s]
  show ?thesis by auto
qed

theorem accepted_event_stays_witness:
  "\<exists>ev t. RecordEvent sample_ext sample_lib sample_api None (sample_request ''POST'' ''/api/v1/events'' []) (on_web (empty_db [] 100)) =
     (Answer 201 (BEvent ev), t) \<and> (\<exists>r \<in> set (trace_events (t\<lparr>now_us := now_us t + 1, qr_cache := []\<rparr>)). te_id r = te_id ev)"
proof -
  obtain ev t where run: "RecordEvent sample_ext sample_lib sample_api None (sample_request ''POST'' ''/api/v1/events'' []) (on_web (empty_db [] 100)) =
      (Answer 201 (BEvent ev), t)" using sample_recorded by blast
  have "service_step sample_library sample_deployment t (t\<lparr>now_us := now_us t + 1, qr_cache := []\<rparr>)"
    using service_step.world [of t "now_us t + 1" "[]" sample_library sample_deployment "redis_script t" "kafka_script t" "script t"]
    by simp
  then have "reaches sample_library sample_deployment t (t\<lparr>now_us := now_us t + 1, qr_cache := []\<rparr>)"
    by (rule reaches.further [OF reaches.here])
  from accepted_event_stays [OF run this] run show ?thesis by blast
qed

lemma time_passes: "now_us s \<le> now \<Longrightarrow> service_step B D s (s\<lparr>now_us := now\<rparr>)"
  using service_step.world [of s now "qr_cache s" B D "redis_script s" "kafka_script s" "script s"] by (cases s) simp

text \<open>A revoked code with an empty random source for its token, and a sync that brings nothing.\<close>

theorem revoked_code_never_returns_witness:
  "\<exists>s' :: web. reaches (sample_library\<lparr>lb_random := (\<lambda>_. False), lb_source := (\<lambda>_. False)\<rparr>) sample_deployment
       (on_web sample_qr\<lparr>lot_qr_codes := map (\<lambda>r. r\<lparr>qr_revoked_at := Some 1\<rparr>) (lot_qr_codes sample_qr)\<rparr>) s' \<and>
     lot_qr_codes s' \<noteq> [] \<and> now_us s' = now_us sample_qr + 1 \<and>
     status_of (fst (PublicQRPng sample_lib sample_api (sample_request ''GET'' [] [(''token'', ''t1'')]) s')) \<in> {404, 500}"
proof -
  let ?B = "sample_library\<lparr>lb_random := (\<lambda>_. False), lb_source := (\<lambda>_. False)\<rparr>"
  let ?s = "on_web sample_qr\<lparr>lot_qr_codes := map (\<lambda>r. r\<lparr>qr_revoked_at := Some 1\<rparr>) (lot_qr_codes sample_qr)\<rparr>"
  let ?s' = "?s\<lparr>now_us := now_us ?s + 1\<rparr>"
  obtain q where q: "q \<in> set (lot_qr_codes sample_qr)" "qr_public_token q = ''t1''"
    using sample_qr_ok(2) find_Some_set by (fastforce simp: live_token_def active_by_def)
  let ?r = "q\<lparr>qr_revoked_at := Some 1\<rparr>"
  have r: "?r \<in> set (lot_qr_codes ?s)" "qr_revoked_at ?r \<noteq> None" "qr_public_token ?r = ''t1''" using q by auto
  have ok: "qr_ok ?s" using sample_qr_ok(1) by (simp add: qr_ok_def comp_def)
  have "service_step ?B sample_deployment ?s ?s'" by (rule time_passes) simp
  then have to: "reaches ?B sample_deployment ?s ?s'" by (rule reaches.further [OF reaches.here])
  have all: "allows ?B (\<lambda>t. t \<noteq> qr_public_token ?r) (\<lambda>src. \<forall>q' \<in> set (src_qrs src). sq_token q' = qr_public_token ?r \<longrightarrow> sq_lot q' = qr_lot_business_id ?r)"
    by (simp add: allows_def)
  have "get_or_empty (rq_Params (sample_request ''GET'' [] [(''token'', ''t1'')])) ''token'' = qr_public_token ?r"
    using r(3) by (simp add: sample_request_def get_or_empty_def)
  from revoked_code_never_returns [OF to ok r(1,2) all this, of sample_lib sample_api] to q(1) show ?thesis
    by (intro exI [of _ ?s']) auto
qed

end
