(* ===== verification/Racing.thy ===== *)
theory Racing
  imports System
begin

text \<open>
  Notaries that race.  \<open>CreateAnchor\<close> is the one writer of the evidence tables that runs without a
  transaction or a lock, and replicas, the endpoint and the job may all run it at once.  Here it is taken
  apart into its statements - the head, the last anchor, the leaves, the insert - and the statements of any
  number of notaries, with signers and providers of their own, interleave with each other and with
  everything else the service does.
\<close>

section \<open>Steps\<close>

text \<open>What a notary has read so far.  A job stays where it is, so that any notary may stop anywhere.\<close>

datatype job = Head int | Last int int | Planned string AnchorRow

definition insert_planned_anchor :: "Service \<Rightarrow> string \<Rightarrow> AnchorRow \<Rightarrow> ('z db_scheme, AnchorRow) cmd" where
  "insert_planned_anchor sv mroot row = bindC (publish_anchor sv mroot row) InsertAnchor"

inductive race_step :: "library \<Rightarrow> deployment \<Rightarrow> 'z web_scheme \<times> (Service \<times> job) list \<Rightarrow> 'z web_scheme \<times> (Service \<times> job) list \<Rightarrow> bool"
  for B :: library and D :: deployment where
  others: "service_step B D s s' \<Longrightarrow> race_step B D (s, js) (s', js)"
| head: "ChainHeadSeq s = (Inr (h, True), s') \<Longrightarrow> race_step B D (s, js) (s', (sv, Head h) # js)"
| last_anchor: "(sv, Head h) \<in> set js \<Longrightarrow> LastAnchoredSeq s = (Inr (l, found), s') \<Longrightarrow> l < h \<Longrightarrow>
     race_step B D (s, js) (s', (sv, Last h l) # js)"
| leaves: "(sv, Last h l) \<in> set js \<Longrightarrow> ChainLeafRange l h s = (Inr lr, s') \<Longrightarrow> lr_leaves lr \<noteq> [] \<Longrightarrow>
     sg_Sign (sv_signer sv) (Root (lr_leaves lr)) = Inr sig \<Longrightarrow>
     race_step B D (s, js) (s', (sv, Planned (Root (lr_leaves lr)) (anchor_row (sv_signer sv) h lr sig)) # js)"
| insert: "(sv, Planned mroot row) \<in> set js \<Longrightarrow>
     race_step B D (s, js) (snd (insert_planned_anchor sv mroot row s), js)"

inductive races :: "library \<Rightarrow> deployment \<Rightarrow> 'z web_scheme \<times> (Service \<times> job) list \<Rightarrow> 'z web_scheme \<times> (Service \<times> job) list \<Rightarrow> bool"
  for B D c where
  start: "races B D c c"
| goes_on: "races B D c d \<Longrightarrow> race_step B D d e \<Longrightarrow> races B D c e"

section \<open>What a job may rely on\<close>

fun job_ok :: "'z db_scheme \<Rightarrow> job \<Rightarrow> bool" where
  "job_ok s (Head h) \<longleftrightarrow> h \<le> block_count s"
| "job_ok s (Last h l) \<longleftrightarrow> 0 \<le> l \<and> l < h \<and> h \<le> block_count s \<and> (\<forall>k. 1 \<le> k \<longrightarrow> k \<le> l \<longrightarrow> anchored s k)"
| "job_ok s (Planned mroot row) \<longleftrightarrow> anchor_sound s row \<and> covered_below s row"

text \<open>Nothing that was read is taken back: events, blocks and anchors are only added.\<close>

lemma job_ok_later:
  fixes s s' :: "'z db_scheme"
  assumes "job_ok s j" and "history_extends (trace_events s) (custody_chain s) (anchor_batches s) s'" and "chain_ok X s'"
  shows "job_ok s' j"
proof -
  from assms(2) have ext: "chain_extends s s'" by (auto simp: history_extends_def chain_extends_def)
  have anch: "anchored s k \<Longrightarrow> anchored s' k" for k using assms(2) by (auto simp: history_extends_def anchored_def)
  have count: "block_count s \<le> block_count s'" using ext by (auto simp: chain_extends_def block_count_def)
  show ?thesis
    using assms(1) anch count anchor_sound_extends [OF _ ext assms(3)] by (cases j) (auto simp: covered_below_def)
qed

lemma history_ticks: "ticks s s' \<Longrightarrow> history_extends (trace_events s) (custody_chain s) (anchor_batches s) s'"
  by (simp add: history_extends_def ticks_db)

text \<open>The leaves between the anchor that was the last and the head that was read make a sound row.\<close>

lemma leaves_ok:
  assumes ok: "chain_ok X s" and job: "job_ok s (Last h l)"
    and run: "ChainLeafRange l h s = (Inr lr, s')"
  shows "ticks s s'" and "job_ok s (Planned mroot (anchor_row sg h lr sig))"
proof -
  let ?bs = "blocks (l + 1) h (custody_chain s)"
  have lr: "lr_leaves lr = map leaf_of ?bs \<and> lr_seqs lr = map cc_seq_index ?bs \<and> ticks s s'"
    using run by (cases rule: ChainLeafRange_ok [OF ok, of "l + 1" h, case_names io ok]) auto
  then show "ticks s s'" by simp
  have seqs: "lr_seqs lr = [l + 1..h]" using lr blocks_seqs [OF ok] job by simp
  have leaves: "lr_leaves lr = map leaf_of ?bs" using lr by simp
  have first: "hd (lr_seqs lr) = l + 1" using job by (simp add: seqs upto_rec1)
  have "length (lr_leaves lr) = length (lr_seqs lr)" using lr by simp
  then have "int (length (lr_leaves lr)) = h - l" using job by (simp add: seqs)
  then show "job_ok s (Planned mroot (anchor_row sg h lr sig))"
    using job by (simp add: anchor_sound_def covered_below_def anchor_row_def first leaves)
qed

lemma insert_planned_keeps:
  assumes ok: "anchors_ok s" and job: "job_ok s (Planned mroot row)"
  shows "anchors_ok (snd (insert_planned_anchor sv mroot row s))"
    and "history_extends (trace_events s) (custody_chain s) (anchor_batches s) (snd (insert_planned_anchor sv mroot row s))"
    and "custody_chain (snd (insert_planned_anchor sv mroot row s)) = custody_chain s"
    and "trace_events (snd (insert_planned_anchor sv mroot row s)) = trace_events s"
proof -
  obtain res1 s1 where pub: "publish_anchor sv mroot row s = (res1, s1)" by (meson surj_pair)
  from publish_anchor_Inr [OF pub] obtain row1 where s1: "s1 = s" "res1 = Inr row1"
    and row1: "row1 = row\<lparr>an_Provider := an_Provider row1, an_TxRef := an_TxRef row1, an_AnchoredAt := an_AnchoredAt row1\<rparr>" by blast
  let ?t = "snd (execC (insert_anchor_sql row1) s)"
  have run: "snd (insert_planned_anchor sv mroot row s) = snd (execC (insert_anchor_sql row1) s)"
    by (simp add: insert_planned_anchor_def bindC_def handleC_def pub s1 InsertAnchor_def)
  have st: "ticks s (step_io s)" by (rule ticks_step_io)
  have io: "anchors_ok (step_io s)" "anchor_sound (step_io s) row1" "covered_below (step_io s) row1"
    using anchors_ok_ticks [OF st ok] job anchor_sound_ticks [OF st] sound_same_claim [OF row1, of s] by simp_all
  consider "ticks s (snd (execC (insert_anchor_sql row1) s))"
    | r t where "insert_anchor_sql row1 (step_io s) = Inr (r, t)" "snd (execC (insert_anchor_sql row1) s) = t"
    using st by (cases "insert_anchor_sql row1 (step_io s)"; cases "next_io s") (auto simp: execC_def Let_def split: prod.splits)
  then have "anchors_ok ?t \<and> custody_chain ?t = custody_chain s \<and> trace_events ?t = trace_events s \<and>
      (\<exists>new. anchor_batches ?t = anchor_batches s @ new)"
  proof cases
    case 1
    then show ?thesis using anchors_ok_ticks [OF 1 ok] by (simp add: ticks_db)
  next
    case (2 r t)
    then show ?thesis using insert_anchor_ok [OF io 2(1)] ticks_db(1-3) [OF st] by (auto simp: insert_anchor_sql_Inr)
  qed
  then show "anchors_ok (snd (insert_planned_anchor sv mroot row s))"
    and "history_extends (trace_events s) (custody_chain s) (anchor_batches s) (snd (insert_planned_anchor sv mroot row s))"
    and "custody_chain (snd (insert_planned_anchor sv mroot row s)) = custody_chain s"
    and "trace_events (snd (insert_planned_anchor sv mroot row s)) = trace_events s"
    by (simp_all add: run history_extends_def)
qed

section \<open>The invariant\<close>

definition race_inv :: "ext \<Rightarrow> 'z web_scheme \<times> (Service \<times> job) list \<Rightarrow> bool" where
  "race_inv X c \<longleftrightarrow> ledger_inv X (fst c) \<and> (\<forall>(sv, j) \<in> set (snd c). job_ok (fst c) j)"

lemma insert_planned_ledger:
  assumes "ledger_inv X s" and "job_ok s (Planned mroot row)"
  shows "ledger_inv X (snd (insert_planned_anchor sv mroot row s))"
proof -
  have "keeps ledger_ok (insert_planned_anchor sv mroot row)"
    unfolding insert_planned_anchor_def publish_anchor_def InsertAnchor_def
    by (intro keeps_intros tables_only_ledger keeps_execC) (auto simp: insert_anchor_sql_Inr ledger_ok_def intro: less_SucI)
  then show ?thesis
    using assms insert_planned_keeps [OF _ assms(2), of sv]
    by (auto simp: ledger_inv_def store_ok_def stored_payloads_ok_def chain_ok_def keeps_def)
qed

lemma ledger_inv_ticks: "ticks s s' \<Longrightarrow> ledger_inv X s \<Longrightarrow> ledger_inv X s'"
  using tables_only_ticks [OF main_pred_tables [OF ledger_pred_main [OF ledger_pred_inv]]] by blast

lemma read_ticks:
  "ticks s (snd (ChainHeadSeq s))" "ticks s (snd (LastAnchoredSeq s))"
  by (simp_all add: ChainHeadSeq_def LastAnchoredSeq_def queryC_ticks)

text \<open>Any step keeps the books in order, adds to the history, and leaves every job with what it may rely on.\<close>

lemma race_step_keeps:
  assumes "race_step B D c d" and "lb_ext B = X" and "jsonb_idem X" and "race_inv X c"
  shows "race_inv X d"
proof -
  obtain s js s' js' where c: "c = (s, js)" and d: "d = (s', js')" by (meson surj_pair)
  from assms(4) have s: "ledger_inv X s" "chain_ok X s" "anchors_ok s" "\<forall>(sv, j) \<in> set js. job_ok s j"
    by (simp_all add: race_inv_def c ledger_inv_def store_ok_def)
  have later: "job_ok s' j"
    if "history_extends (trace_events s) (custody_chain s) (anchor_batches s) s'" "ledger_inv X s'" "job_ok s j" for j
    using job_ok_later [OF that(3,1), of X] that(2) by (simp add: ledger_inv_def store_ok_def)
  from assms(1) consider
      (kept) "history_extends (trace_events s) (custody_chain s) (anchor_batches s) s'" "ledger_inv X s'" "js' = js"
    | (read) sv j where "ticks s s'" "js' = (sv, j) # js" "job_ok s j"
    unfolding c d
  proof cases
    case others
    from ledger.step_keeps [OF others(2) assms(2) allows_all] assms(3) s(1) have "ledger_inv X s'" by blast
    with history.step_keeps [OF others(2) assms(2) allows_all history_extends_refl] others(1) kept show ?thesis by blast
  next
    case (head h sv)
    with read_ticks(1) [of s] ChainHeadSeq_Inr(2) [OF s(2) head(2)] read show ?thesis by auto
  next
    case (last_anchor sv h l found)
    from last_anchor(2) s(4) have "job_ok s (Head h)" by blast
    with last_anchor LastAnchoredSeq_Inr [OF last_anchor(3)] last_anchored_bounds [OF s(3)] have "job_ok s (Last h l)" by simp
    with last_anchor read_ticks(2) [of s] read show ?thesis by auto
  next
    case (leaves sv h l lr sig)
    from leaves(2) s(4) have "job_ok s (Last h l)" by blast
    from leaves_ok [OF s(2) this leaves(3)] leaves(1) read show ?thesis by blast
  next
    case (insert sv mroot row)
    from insert(3) s(4) have j: "job_ok s (Planned mroot row)" by blast
    from insert_planned_ledger [OF s(1) j] insert_planned_keeps(2) [OF s(3) j] insert kept show ?thesis by blast
  qed
  then show ?thesis
  proof cases
    case kept
    then show ?thesis using later s(4) by (auto simp: race_inv_def d)
  next
    case read
    from ledger_inv_ticks [OF read(1) s(1)] have "ledger_inv X s'" .
    with later [OF history_ticks [OF read(1)]] read s(4) show ?thesis by (auto simp: race_inv_def d)
  qed
qed

lemma races_keep:
  assumes "races B D c d" and "lb_ext B = X" and "jsonb_idem X" and "race_inv X c"
  shows "race_inv X d"
  using assms by (induction rule: races.induct) (auto intro: race_step_keeps)

section \<open>A notary alone\<close>

text \<open>A run of \<open>CreateAnchor\<close> that nobody disturbs is four steps of this kind.\<close>

lemma CreateAnchor_steps:
  assumes "CreateAnchor sv s = (Inr row, s')"
  shows "\<exists>js'. races B D (s, js) (s', js')"
proof -
  from assms obtain mroot row0 u where plan: "plan_anchor (sv_signer sv) s = (Inr (mroot, row0), u)"
    and ins: "insert_planned_anchor sv mroot row0 u = (Inr row, s')"
    by (auto simp: CreateAnchor_def insert_planned_anchor_def bindC_Inr_iff)
  from plan obtain h hok l found lr s1 s2 s3 where
    st: "ChainHeadSeq s = (Inr (h, hok), s1)" "hok" "LastAnchoredSeq s1 = (Inr (l, found), s2)" "l < h"
      "ChainLeafRange l h s2 = (Inr lr, s3)" "lr_leaves lr \<noteq> []"
    and last: "(case sg_Sign (sv_signer sv) (Root (lr_leaves lr)) of Inl e \<Rightarrow> failC (ErrWrap ''sign root'' e)
             | Inr sig \<Rightarrow> retC (Root (lr_leaves lr), anchor_row (sv_signer sv) h lr sig)) s3 = (Inr (mroot, row0), u)"
    unfolding plan_anchor_def
    by (fastforce simp: bindC_Inr_iff failC_def Let_def split: if_splits)
  from last obtain sig where sig: "sg_Sign (sv_signer sv) (Root (lr_leaves lr)) = Inr sig"
    and row0: "mroot = Root (lr_leaves lr)" "row0 = anchor_row (sv_signer sv) h lr sig" "u = s3"
    by (auto simp: failC_def retC_def split: sum.splits)
  have head: "ChainHeadSeq s = (Inr (h, True), s1)" using st(1,2) by simp
  let ?p = "(sv, Planned (Root (lr_leaves lr)) (anchor_row (sv_signer sv) h lr sig))"
  have "races B D (s, js) (s1, (sv, Head h) # js)"
    by (rule races.goes_on [OF races.start race_step.head [OF head]])
  then have "races B D (s, js) (s2, (sv, Last h l) # (sv, Head h) # js)"
    by (rule races.goes_on) (rule race_step.last_anchor [OF _ st(3,4)], simp)
  then have "races B D (s, js) (s3, ?p # (sv, Last h l) # (sv, Head h) # js)"
    by (rule races.goes_on) (rule race_step.leaves [OF _ st(5,6) sig], simp)
  moreover have "race_step B D (s3, ?p # (sv, Last h l) # (sv, Head h) # js) (s', ?p # (sv, Last h l) # (sv, Head h) # js)"
    using race_step.insert [of sv "Root (lr_leaves lr)" "anchor_row (sv_signer sv) h lr sig" "?p # (sv, Last h l) # (sv, Head h) # js" B D s3] ins row0
    by simp
  ultimately show ?thesis by (blast intro: races.goes_on)
qed

section \<open>Properties\<close>

lemma reaches_races: "reaches B D s t \<Longrightarrow> races B D (s, js) (t, js)"
  by (induction rule: reaches.induct) (auto intro: races.start races.goes_on race_step.others)

lemma races_trans: "races B D d e \<Longrightarrow> races B D c d \<Longrightarrow> races B D c e"
  by (induction rule: races.induct) (auto intro: races.goes_on)

text \<open>
  C8. Racing notaries cannot spoil the evidence.  From empty tables, after any interleaving of the single
  statements of any number of notaries, with any signers and providers, with each other and with
  everything else the service does, ledger and chain are well-formed, every anchor commits to the blocks
  it names and no block below an anchor is left out; on a healthy database every such block has a proof
  that an auditor accepts, for the hash the block has.
\<close>

theorem racing_notaries_sound:
  assumes "races B D (s0, []) (s, js)" and "empty_tables s0" and "jsonb_idem (lb_ext B)"
  shows "store_ok (lb_ext B) s \<and> anchors_ok s \<and>
    (\<forall>a k. a \<in> set (anchor_batches s) \<and> 1 \<le> k \<and> k \<le> an_ToSeq a \<and> script s = [] \<longrightarrow>
      (\<exists>p. Service_Proof sv k s = (Inr p, s) \<and> auditor_accepts p \<and> pf_Leaf p = cc_event_hash (custody_chain s ! nat (k - 1))))"
proof -
  have "race_inv (lb_ext B) (s0, [])" using empty_tables_ok(1) [OF assms(2)] by (simp add: race_inv_def)
  from races_keep [OF assms(1) refl assms(3) this] have s: "store_ok (lb_ext B) s" "anchors_ok s"
    by (simp_all add: race_inv_def ledger_inv_def)
  then have "chain_ok (lb_ext B) s" by (simp add: store_ok_def)
  from proof_of_block [OF this s(2)] s show ?thesis by blast
qed

theorem racing_notaries_sound_witness:
  "\<exists>(s :: web) js p. races sample_library sample_deployment (sample_start, []) (s, js) \<and> anchor_batches s \<noteq> [] \<and>
     Service_Proof sample_service 1 s = (Inr p, s) \<and> auditor_accepts p"
proof -
  obtain s1 where s1: "reaches sample_library sample_deployment sample_start s1" "script s1 = []" "length (custody_chain s1) = 1"
    "anchor_batches s1 = []" "chain_ok sample_ext s1" "anchors_ok s1" using sample_chained by blast
  from sample_anchored [OF s1(2-6)] obtain row s2 where an: "CreateAnchor sample_service s1 = (Inr row, s2)"
    and s2: "script s2 = []" "row \<in> set (anchor_batches s2)" "an_ToSeq row = 1" by blast
  obtain js where "races sample_library sample_deployment (s1, []) (s2, js)" using CreateAnchor_steps [OF an] by blast
  then have to: "races sample_library sample_deployment (sample_start, []) (s2, js)"
    using reaches_races [OF s1(1)] by (rule races_trans)
  have "jsonb_idem (lb_ext sample_library)" by (simp add: sample_library_def sample_idem)
  from racing_notaries_sound [OF to sample_start_tables(1) this, of sample_service] s2 to show ?thesis
    by (intro exI [of _ s2] exI [of _ js]) fastforce
qed

end
