(* ===== verification/RateLimits.thy ===== *)
theory RateLimits
  imports WebState
begin

text \<open>
  What the limiter of the public routes (\<open>internal/middleware/ratelimit.go\<close>) promises: clients do not
  disturb each other, although buckets are dropped when there are many.
\<close>

section \<open>Runs\<close>

text \<open>Calls of clients at times, in order; and the calls of one client that has the limiter for itself.\<close>

fun limiter_run :: "bucket \<Rightarrow> limiter_cfg \<Rightarrow> (string \<times> int) list \<Rightarrow> limiterMap \<Rightarrow> (string \<times> bool) list" where
  "limiter_run allow lc [] m = []"
| "limiter_run allow lc ((key, now) # cs) m =
     (case limiter_step allow lc key now m of (ok, m') \<Rightarrow> (key, ok) # limiter_run allow lc cs m')"

fun alone_run :: "bucket \<Rightarrow> limiter_cfg \<Rightarrow> int list \<Rightarrow> int list \<Rightarrow> bool list" where
  "alone_run allow lc past [] = []"
| "alone_run allow lc past (now # ts) = allow lc past now # alone_run allow lc (past @ [now]) ts"

text \<open>A bucket that is full again after an hour without a call, microseconds.\<close>

abbreviation hour :: int where
  "hour \<equiv> 3600000000"

definition refills :: "bucket \<Rightarrow> limiter_cfg \<Rightarrow> bool" where
  "refills allow lc \<longleftrightarrow> (\<forall>old recent now. (\<forall>x \<in> set old. \<forall>y \<in> set (recent @ [now]). x + hour < y) \<longrightarrow>
     allow lc (old @ recent) now = allow lc recent now)"

section \<open>One call\<close>

definition calls_of :: "limiterMap \<Rightarrow> string \<Rightarrow> int list" where
  "calls_of m key = (case map_of (lm_buckets m) key of None \<Rightarrow> [] | Some h \<Rightarrow> h)"

lemma map_of_filter_key:
  "map_of (filter (\<lambda>(k, _). k \<notin> S) xs) key = (if key \<in> S then None else map_of xs key)"
  by (induction xs) auto

lemma distinct_filter_keys: "distinct (map fst xs) \<Longrightarrow> distinct (map fst (filter P xs))"
  by (induction xs) auto

lemma stale_iff:
  assumes "distinct (map fst xs)"
  shows "key \<in> set (map fst (filter (\<lambda>(k, t). t < c) xs)) \<longleftrightarrow> (\<exists>t. map_of xs key = Some t \<and> t < (c :: int))"
  using assms by (auto simp: map_of_eq_Some_iff) force

text \<open>The clients that are dropped in a call, and the maps after it.\<close>

definition stale_keys :: "int \<Rightarrow> (string \<times> int) list \<Rightarrow> string set" where
  "stale_keys now seen = set (map fst (filter (\<lambda>(k, t). t < now - hour) seen))"

lemma limiter_step_cases:
  assumes "limiter_step allow lc k now m = (ok, m')" and "distinct (map fst (lm_lastSeen m))"
  obtains b D where "ok = allow lc (calls_of m k) now" "\<And>key. key \<noteq> k \<Longrightarrow> map_of b key = map_of (lm_buckets m) key"
    "D = {} \<or> D = stale_keys now (AList.update k now (lm_lastSeen m))"
    "lm_buckets m' = AList.update k (calls_of m k @ [now]) (filter (\<lambda>(k, _). k \<notin> D) b)"
    "lm_lastSeen m' = filter (\<lambda>(k, _). k \<notin> D) (AList.update k now (lm_lastSeen m))"
proof -
  define b where "b = (case map_of (lm_buckets m) k of None \<Rightarrow> AList.update k [] (lm_buckets m) | Some _ \<Rightarrow> lm_buckets m)"
  define D where "D = (if length b > 1024 then stale_keys now (AList.update k now (lm_lastSeen m)) else {})"
  have "limiter_step allow lc k now m = (allow lc (calls_of m k) now,
      \<lparr>lm_buckets = AList.update k (calls_of m k @ [now]) (filter (\<lambda>(k, _). k \<notin> D) b),
       lm_lastSeen = filter (\<lambda>(k, _). k \<notin> D) (AList.update k now (lm_lastSeen m))\<rparr>)"
    by (simp add: limiter_step_def limiter_get_def Let_def calls_of_def D_def stale_keys_def del: set_map flip: b_def)
  moreover have "map_of b key = map_of (lm_buckets m) key" if "key \<noteq> k" for key
    using that by (simp add: b_def update_conv' split: option.split)
  ultimately show ?thesis using assms(1) by (intro that [of b D]) (auto simp: D_def)
qed

lemma limiter_step_own:
  assumes "limiter_step allow lc key now m = (ok, m')" and "distinct (map fst (lm_lastSeen m))"
  shows "ok = allow lc (calls_of m key) now \<and> calls_of m' key = calls_of m key @ [now] \<and>
    map_of (lm_lastSeen m') key = Some now \<and> distinct (map fst (lm_lastSeen m'))"
proof (cases rule: limiter_step_cases [OF assms])
  case (1 b D)
  have d: "distinct (map fst (AList.update key now (lm_lastSeen m)))" using assms(2) by (rule distinct_update)
  have "key \<notin> stale_keys now (AList.update key now (lm_lastSeen m))"
    unfolding stale_keys_def stale_iff [OF d] by (simp add: update_conv')
  then have "key \<notin> D" using 1(3) by blast
  then show ?thesis by (simp add: 1(1,4,5) calls_of_def update_conv' map_of_filter_key distinct_filter_keys [OF d])
qed

lemma limiter_step_other:
  assumes "limiter_step allow lc k now m = (ok, m')" and "distinct (map fst (lm_lastSeen m))" and "key \<noteq> k"
  shows "distinct (map fst (lm_lastSeen m')) \<and>
    (calls_of m' key = calls_of m key \<and> map_of (lm_lastSeen m') key = map_of (lm_lastSeen m) key \<or>
     calls_of m' key = [] \<and> (\<exists>t. map_of (lm_lastSeen m) key = Some t \<and> t < now - hour))"
proof (cases rule: limiter_step_cases [OF assms(1,2)])
  case (1 b D)
  have d: "distinct (map fst (AList.update k now (lm_lastSeen m)))" using assms(2) by (rule distinct_update)
  have stale: "key \<in> stale_keys now (AList.update k now (lm_lastSeen m)) \<longleftrightarrow> (\<exists>t. map_of (lm_lastSeen m) key = Some t \<and> t < now - hour)"
    unfolding stale_keys_def stale_iff [OF d] using assms(3) by (simp add: update_conv')
  have b: "map_of b key = map_of (lm_buckets m) key" using 1(2) assms(3) by simp
  have "distinct (map fst (lm_lastSeen m'))" by (simp add: 1(5) distinct_filter_keys [OF d])
  moreover have "map_of (lm_lastSeen m') key = (if key \<in> D then None else map_of (lm_lastSeen m) key)"
    "calls_of m' key = (if key \<in> D then [] else calls_of m key)"
    using assms(3) by (simp_all add: 1(4,5) calls_of_def update_conv' map_of_filter_key b)
  moreover have "key \<in> D \<Longrightarrow> \<exists>t. map_of (lm_lastSeen m) key = Some t \<and> t < now - hour" using 1(3) stale by blast
  ultimately show ?thesis by (cases "key \<in> D") simp_all
qed

section \<open>The invariant of one client\<close>

text \<open>
  What is remembered of a client is the end of its history; what was forgotten lies more than an hour
  before all that is remembered and all that can still come.
\<close>

definition remembers :: "string \<Rightarrow> int \<Rightarrow> int list \<Rightarrow> limiterMap \<Rightarrow> bool" where
  "remembers key now past m \<longleftrightarrow> distinct (map fst (lm_lastSeen m)) \<and> sorted (past @ [now]) \<and>
     (\<exists>old. past = old @ calls_of m key \<and> (\<forall>x \<in> set old. \<forall>y \<in> set (calls_of m key @ [now]). x + hour < y)) \<and>
     (calls_of m key \<noteq> [] \<longrightarrow> map_of (lm_lastSeen m) key = Some (last past))"

lemma remembers_own:
  assumes "remembers key now past m" and "limiter_step allow lc key now m = (ok, m')" and "refills allow lc" and "now \<le> later"
  shows "ok = allow lc past now" and "remembers key later (past @ [now]) m'"
proof -
  from assms(1) have d: "distinct (map fst (lm_lastSeen m))" and s: "sorted (past @ [now])" by (simp_all add: remembers_def)
  from assms(1) obtain old where old: "past = old @ calls_of m key" "\<forall>x \<in> set old. \<forall>y \<in> set (calls_of m key @ [now]). x + hour < y"
    unfolding remembers_def by blast
  from limiter_step_own [OF assms(2) d] have st: "ok = allow lc (calls_of m key) now" "calls_of m' key = calls_of m key @ [now]"
    "map_of (lm_lastSeen m') key = Some now" "distinct (map fst (lm_lastSeen m'))" by simp_all
  show "ok = allow lc past now" using assms(3) old st(1) unfolding refills_def by metis
  have "past @ [now] = old @ calls_of m' key" using old(1) st(2) by simp
  moreover have "\<forall>x \<in> set old. \<forall>y \<in> set (calls_of m' key @ [later]). x + hour < y"
    using old(2) st(2) assms(4) by fastforce
  ultimately show "remembers key later (past @ [now]) m'"
    using st s assms(4) by (fastforce simp: remembers_def sorted_append)
qed

lemma remembers_later: "remembers key now past m \<Longrightarrow> now \<le> later \<Longrightarrow> remembers key later past m"
  unfolding remembers_def by (fastforce simp: sorted_append)

lemma remembers_other:
  assumes "remembers key now past m" and "limiter_step allow lc k now m = (ok, m')" and "key \<noteq> k" and "now \<le> later"
  shows "remembers key later past m'"
proof -
  from assms(1) have d: "distinct (map fst (lm_lastSeen m))" and s: "sorted (past @ [now])" by (simp_all add: remembers_def)
  from limiter_step_other [OF assms(2) d assms(3)] have st: "distinct (map fst (lm_lastSeen m'))"
    "calls_of m' key = calls_of m key \<and> map_of (lm_lastSeen m') key = map_of (lm_lastSeen m) key \<or>
     calls_of m' key = [] \<and> (\<exists>t. map_of (lm_lastSeen m) key = Some t \<and> t < now - hour)" by simp_all
  from st(2) have "remembers key now past m'"
  proof
    assume "calls_of m' key = calls_of m key \<and> map_of (lm_lastSeen m') key = map_of (lm_lastSeen m) key"
    with assms(1) st(1) show ?thesis by (simp add: remembers_def)
  next
    assume gone: "calls_of m' key = [] \<and> (\<exists>t. map_of (lm_lastSeen m) key = Some t \<and> t < now - hour)"
    have "x + hour < now" if "x \<in> set past" for x
    proof (cases "calls_of m key = []")
      case True
      then show ?thesis using assms(1) that by (auto simp: remembers_def)
    next
      case False
      then have "last past < now - hour" using assms(1) gone by (auto simp: remembers_def)
      moreover have "x \<le> last past" using that s by (cases past rule: rev_cases) (auto simp: sorted_append)
      ultimately show ?thesis by simp
    qed
    with st(1) s gone show ?thesis by (auto simp: remembers_def)
  qed
  then show ?thesis using assms(4) by (rule remembers_later)
qed

lemma limiter_run_client:
  assumes "sorted (map snd cs)" and "refills allow lc" and "\<forall>c \<in> set cs. start \<le> snd c" and "remembers key start past m"
  shows "map snd (filter (\<lambda>(k, ok). k = key) (limiter_run allow lc cs m)) =
    alone_run allow lc past (map snd (filter (\<lambda>(k, t). k = key) cs))"
  using assms(1,3,4)
proof (induction cs arbitrary: start past m)
  case (Cons c cs)
  obtain k now where c: "c = (k, now)" by (cases c)
  obtain ok m' where step: "limiter_step allow lc k now m = (ok, m')" by (meson surj_pair)
  have now: "remembers key now past m" using Cons.prems by (intro remembers_later [OF Cons.prems(3)]) (simp add: c)
  have rest: "sorted (map snd cs)" "\<forall>c \<in> set cs. now \<le> snd c" using Cons.prems(1) by (simp_all add: c)
  show ?case
  proof (cases "k = key")
    case True
    from remembers_own [OF now step [unfolded True] assms(2) order_refl] Cons.IH [OF rest] show ?thesis
      by (simp add: c True step [unfolded True])
  next
    case False
    from remembers_other [OF now step _ order_refl] False Cons.IH [OF rest] show ?thesis by (simp add: c step)
  qed
qed simp

section \<open>Properties\<close>

text \<open>
  C25. Clients of the public routes do not disturb each other.  If a bucket is full again after an hour
  without a call - as it is when the burst is at most sixty times the calls per minute -, then however the
  calls of many clients mix, each client is answered as if it had the limiter for itself; in particular
  dropping buckets when there are more than 1024 neither lets a client through that has used up its share
  nor stops one that has not.
\<close>

theorem limiter_isolates_clients:
  assumes "newLimiterMap perMinute burst = (lc, m)" and "sorted (map snd cs)" and "refills allow lc"
  shows "map snd (filter (\<lambda>(k, ok). k = key) (limiter_run allow lc cs m)) =
    alone_run allow lc [] (map snd (filter (\<lambda>(k, t). k = key) cs))"
proof (cases cs)
  case (Cons c cs')
  have "remembers key (snd c) [] m" using assms(1) by (auto simp: remembers_def calls_of_def newLimiterMap_def)
  moreover have "\<forall>d \<in> set cs. snd c \<le> snd d" using assms(2) by (auto simp: Cons)
  ultimately show ?thesis using limiter_run_client [OF assms(2,3)] by blast
qed simp

text \<open>Ten calls a minute; one client in between another.\<close>

definition sample_bucket :: bucket where
  "sample_bucket lc calls now = (length (filter (\<lambda>t. now - t \<le> 60000000) calls) < 2)"

lemma sample_bucket_refills: "refills sample_bucket lc"
proof -
  have gone: "filter (\<lambda>t. now - t \<le> 60000000) old = []" if "\<forall>x \<in> set old. \<forall>y \<in> set (recent @ [now]). x + hour < y"
    for old recent :: "int list" and now :: int
    using that by (induction old) auto
  show ?thesis
    unfolding refills_def sample_bucket_def filter_append length_append by (intro allI impI, subst gone) auto
qed

theorem limiter_isolates_clients_witness:
  "map snd (filter (\<lambda>(k, ok). k = ''a'') (limiter_run sample_bucket \<lparr>lc_perMinute = Fin 60, lc_burst = 10\<rparr>
     [(''a'', 1), (''b'', 2), (''a'', 3), (''b'', 4), (''a'', 5)] \<lparr>lm_buckets = [], lm_lastSeen = []\<rparr>)) = [True, True, False]"
proof -
  have "newLimiterMap (Fin 0) 0 = (\<lparr>lc_perMinute = Fin 60, lc_burst = 10\<rparr>, \<lparr>lm_buckets = [], lm_lastSeen = []\<rparr>)"
    by (simp add: newLimiterMap_def)
  from limiter_isolates_clients [OF this _ sample_bucket_refills, of "[(''a'', 1), (''b'', 2), (''a'', 3), (''b'', 4), (''a'', 5)]" "''a''"]
  show ?thesis by (simp add: sample_bucket_def)
qed

end
