(* ===== verification/Spec2Isabelle.thy ===== *)
theory Spec2Isabelle
  imports Anchoring ChainBackfill Consumer EventBus QrRegister ScmSync Story ApiRules System DbPool Racing Registration Wiring RateLimits
    Migrations AnchorKeys
begin

text \<open>
  \<^bold>\<open>The program.\<close>  iag-traceability keeps the custody history of coffee lots.  It appends trace events to
  a ledger, hash-links the events about batches into a custody chain, notarizes ranges of that chain by
  signed Merkle roots (anchors), issues QR codes for lots, composes the public story behind a code,
  consumes and emits Kafka messages, and copies the history of the older supply-chain service.  All state
  that lasts is in Postgres.  The requests, the consumer, the relay of the outbox, the sync, the notary
  and two commands share it.

  \<^bold>\<open>How the code is modelled.\<close>  A Go function that may fail is a command: a function from the state to a
  sum of an error or a value, and the new state (\<open>('s, 'a) cmd\<close>, \<open>TracePrelude\<close>).  The state is a record that
  grows with the layers: \<open>pg\<close> (session), \<open>db\<close> (tables, \<open>Schema\<close>), \<open>bus\<close> (broker), \<open>sync\<close>, \<open>ingest\<close> (counters),
  \<open>web\<close> (request log, cache, limiter, alerts).  A table is a list of rows in the order of insertion and a
  SQL statement is a function on it, with the constraints of the migrations as its errors.  Each statement
  takes the next outcome of a script: it works, it fails, or it works and its answer is lost; an empty
  script is a healthy database.  Every property without a hypothesis on \<open>script\<close> therefore holds however
  the database behaves.  The broker and the cache have scripts of their own.  A transaction (\<open>txC\<close>) undoes
  the tables of a body that fails and may lose the answer to its commit.  Generated ids and the clock are
  counters of the session.  Strings are lists of bytes; integers keep the width of the code where it can
  matter (32- and 64-bit words in \<open>GoCrypto\<close>, \<open>AuthGate\<close>, \<open>Registration\<close>, \<open>DbPool\<close>; int64 range in \<open>Atoi\<close>; the
  limits of the columns in the statements).

  \<^bold>\<open>The theories.\<close>

  \<^item> \<open>TracePrelude\<close>: commands, the session, transactions, and the rules (\<open>keeps\<close>, collected in \<open>keeps_intros\<close>)
    that lift an invariant from statements to operations.  \<open>GoLib\<close>, \<open>Base64\<close>, \<open>GoCrypto\<close>: what is used of Go's
    library (strings, numerals, dynamic values, JSON, base64, SHA-256, HMAC).  \<open>Float64\<close>: \<open>float64\<close> arithmetic,
    every operation rounded to the nearest of the 53-bit numbers (\<open>round_f64_nearest\<close>), zeros with their sign.  \<open>Schema\<close>: rows and constraints.
  \<^item> \<open>EventStore\<close>, \<open>QrStore\<close>, \<open>QrRegister\<close>: \<open>internal/store/store.go\<close>, \<open>outbox.go\<close>, \<open>qr_register.go\<close>.  The QR
    rows refine a registry with at most one live token for a lot (locale \<open>token_registry\<close>).
  \<^item> \<open>HashChain\<close>, \<open>CustodyChain\<close>: \<open>internal/hashchain\<close>, \<open>internal/store/chain.go\<close> and \<open>AppendEvent\<close> with both
    paths; the invariant \<open>chain_ok\<close> and its kin \<open>store_ok\<close>; hash-linked lists as a locale (\<open>hash_linked\<close>).
    \<open>ChainBackfill\<close>: \<open>cmd/chain-backfill\<close>.
  \<^item> \<open>MerkleTree\<close>, \<open>Anchoring\<close>, \<open>AnchorKeys\<close>: \<open>internal/merkle\<close> (locale \<open>inclusion_scheme\<close>), \<open>internal/store/anchor.go\<close>
    and \<open>internal/anchor\<close>; the invariant \<open>anchors_ok\<close>.
  \<^item> \<open>EventBus\<close>: \<open>internal/kafkabus\<close> and the producer of \<open>third_party/platform-go/events\<close>.  \<open>EventSink\<close>: the
    interface (locale \<open>event_sink\<close>) between the ledger and its writers.  \<open>Consumer\<close>, \<open>ScmSync\<close>: the writers
    \<open>internal/consumer\<close>, \<open>internal/metrics\<close> and \<open>internal/scmsync\<close>.
  \<^item> \<open>ScmClient\<close>, \<open>StoryRules\<close>, \<open>Story\<close>: \<open>internal/scmclient\<close> and \<open>internal/story\<close>.
  \<^item> \<open>AuthGate\<close>, \<open>WebState\<close>, \<open>RateLimits\<close>, \<open>Handlers\<close>, \<open>Router\<close>, \<open>ApiRules\<close>: \<open>internal/middleware\<close>, \<open>authclient\<close> and \<open>apierr\<close> of the
    platform library, \<open>internal/auditlog\<close>, \<open>cache\<close>, \<open>notify\<close>, and \<open>internal/handlers\<close> from the route to the
    answer (\<open>serve\<close>); \<open>ApiRules\<close> has what a client may rely on.
  \<^item> \<open>ServiceConfig\<close>, \<open>DbPool\<close>, \<open>Migrations\<close>, \<open>Registration\<close>, \<open>Wiring\<close>: \<open>internal/config\<close>, \<open>internal/db\<close> with the
    pool settings of the platform library, \<open>internal/migrate\<close>, \<open>serviceauth\<close> with the permission catalogue,
    and \<open>cmd/server\<close>, \<open>cmd/migrate-scm\<close>, \<open>cmd/healthcheck\<close>.
  \<^item> \<open>SystemSteps\<close>, \<open>System\<close>, \<open>Racing\<close>: the running service as a step relation over all of these.

  \<^bold>\<open>What the lemmas show.\<close>  Bottom up: each statement keeps the invariants of its tables; the \<open>keeps\<close> rules
  carry that through every operation; the locale \<open>main_invariant\<close> (\<open>SystemSteps\<close>) carries it through every
  request, message, tick, relay pass, notary job and command to the reachable states of the service.  It
  is interpreted on the ledger with chain and anchors, on the history, on the QR codes with the message
  marks, and on a revoked code.  On these rest the properties of the system.  The other properties are
  about one component: tamper evidence and binding (up to an explicit collision of SHA-256), atomicity,
  idempotency, exact outcomes on every branch, agreement of the backfill with the online path, nothing
  lost by consumer and sync, privacy of the public story, access control, migrations, signers.

  \<^bold>\<open>Interleaving.\<close>  In \<open>System\<close> whole operations take turns; appends, backfill and publishing run in one
  transaction, the first two under one advisory lock, so this is the grain at which they can meet.  The
  notary takes no lock: \<open>Racing\<close> interleaves its single statements, for any number of notaries.  Handlers
  and loops that make several transactions are not taken apart further.

  \<^bold>\<open>Loops and bounds.\<close>  Loops over lists are recursions on them.  \<open>page_loop\<close> (\<open>ScmSync\<close>) and \<open>split_loop\<close>
  (\<open>Migrations\<close>) end by measures that are proved, the rows after the mark and the bytes left to read.
  The registration of permissions need not end: it is a partial function, and when it ends is a property.
  Background loops (\<open>consume_loop\<close>, \<open>sync_loop\<close>, \<open>anchorJobLoop\<close>) run on a finite list of deliveries, sources
  or ticks, for every such list.  No fuel is used.

  \<^bold>\<open>Parameters.\<close>  Code that is not in the repository is an argument: number and time formats, UUIDs and
  what JSONB makes of a payload (\<open>ext\<close>), JSON parsing and the PNG encoder (\<open>weblib\<close>), the token parser
  (\<open>jwt_parser\<close>), HTTP exchanges (\<open>scm_net\<close>, \<open>auth_net\<close>, \<open>vault_http\<close>), Ed25519, the token bucket, the database
  driver (\<open>pg_driver\<close>), durations, decimal floats and URLs (\<open>parsers\<close>).  Where a property needs something of them it is a
  named hypothesis, and its witness instantiates it: \<open>jsonb_stable\<close> and \<open>jsonb_idem\<close> (a payload comes back
  from JSONB as it went in), \<open>asks_for_key\<close> (no token is accepted without a key), \<open>refills\<close> (a token
  bucket is full after an idle hour), \<open>vault_serves\<close> (Vault answers
  as documented, with any number of key versions and any further members).  A payload with a negative zero is
  not \<open>jsonb_stable\<close>, as JSONB has none.

  \<^bold>\<open>Choices the code leaves open.\<close>  Rows that tie in an \<open>ORDER BY\<close> come in the order of insertion.  Where the
  runtime picks an entry of a map, the pick is a parameter (\<open>vh_pick\<close>).  A decoded object has each key once.  A
  subject that is not a UUID gives the nil UUID, although the parser may leave some of its bytes filled.

  \<^bold>\<open>Not modelled.\<close>  Signals, shutdown, the HTTP server object and its timeouts, logging and tracing have no
  effect on the state.  gin is written out as far as matching, parameters and the order of middlewares
  go; its redirects, the choice of the trusted proxies, the tracing middleware, panics turned into 500, and
  the cache headers of two answers are left out.  \<open>internal/testdb\<close> is test support; \<open>internal/ctxkeys\<close>, \<open>internal/story/errors.go\<close>,
  \<open>internal/cache/redis.go\<close>, \<open>internal/handlers/qr.go\<close> and \<open>migrations/embed.go\<close> are names or one call of a
  library.  The consumer with its dedupe, the CORS, principal and port helpers, tracing and
  \<open>Connect\<close> of \<open>third_party/platform-go\<close> are not used by the service.  The notifier that \<open>main\<close> makes is modelled
  (\<open>notify_New\<close>) but reaches no handler, as in the code.
\<close>

end
